(* ===== verification/Base.thy ===== *)
theory Base
  imports Main "HOL-Library.Word" "HOL-Library.Sublist"
begin

text \<open>
  Prelude of the development: the named collections the component theories extend, the
  types they share (bytes, machine integers at their C width) and the generic facts about
  lists, byte buffers and strictly ascending index lists that several components use.

  A C byte buffer is a list of bytes, so its length is its \<open>gsize\<close> length; offsets and
  lengths are naturals. Every buffer the element scans is at most \<open>G_MAXINT\<close> bytes long
  (the frame callback refuses longer ones), so no \<open>gsize\<close> sum in the scanner can wrap.
\<close>

named_theorems unit_simps "equations of the NAL scanner and of the access-unit splitter"
named_theorems elem_simps "what the element's operations do to the fields of its record"
named_theorems inv_intros "each operation keeps the invariants of its component"

type_synonym byte = "8 word"
type_synonym u8 = "8 word"
type_synonym u16 = "16 word"
type_synonym u32 = "32 word"
type_synonym u64 = "64 word"

abbreviation G_MAXINT :: int where "G_MAXINT \<equiv> 2147483647"
abbreviation G_MAXUINT :: nat where "G_MAXUINT \<equiv> 4294967295"
abbreviation G_MAXUINT64 :: u64 where "G_MAXUINT64 \<equiv> -1"

subsection \<open>Sub-ranges of a list\<close>

definition segment :: "nat \<Rightarrow> nat \<Rightarrow> 'a list \<Rightarrow> 'a list" where
  \<comment> \<open>the elements at the indices \<open>[i, j)\<close>\<close>
  "segment i j xs = take (j - i) (drop i xs)"

lemma length_segment [simp]: "length (segment i j xs) = min (j - i) (length xs - i)"
  by (simp add: segment_def min.commute)

lemma segment_full [simp]: "segment 0 (length xs) xs = xs"
  by (simp add: segment_def)

lemma segment_empty [simp]: "j \<le> i \<Longrightarrow> segment i j xs = []"
  by (simp add: segment_def)

lemma segment_append:
  assumes "i \<le> j" "j \<le> k"
  shows "segment i j xs @ segment j k xs = segment i k xs"
proof -
  have "segment i k xs = take ((j - i) + (k - j)) (drop i xs)"
    using assms by (simp add: segment_def)
  also have "\<dots> = take (j - i) (drop i xs) @ take (k - j) (drop (j - i) (drop i xs))"
    by (rule take_add)
  finally show ?thesis using assms by (simp add: segment_def)
qed

lemma segment_to_end: "segment i (length xs) xs = drop i xs"
  by (simp add: segment_def)

lemma set_segment_subset: "set (segment i j xs) \<subseteq> set xs"
  by (auto simp: segment_def dest: in_set_takeD in_set_dropD)

lemma nth_segment: "k < j - i \<Longrightarrow> j \<le> length xs \<Longrightarrow> segment i j xs ! k = xs ! (i + k)"
  by (simp add: segment_def)

lemma segment_conv_upt: "j \<le> length xs \<Longrightarrow> segment i j xs = map ((!) xs) [i..<j]"
  by (rule nth_equalityI) (auto simp: nth_segment)

lemma upt_split: "i \<le> j \<Longrightarrow> j \<le> k \<Longrightarrow> [i..<k] = [i..<j] @ [j..<k]"
  by (metis le_iff_add upt_add_eq_append)

lemma upt_three: "[m..<m + 3] = [m, m + 1, m + 2]"
  by (simp add: numeral_eq_Suc)

lemma segment_append1: "j \<le> length xs \<Longrightarrow> segment i j (xs @ ys) = segment i j xs"
  by (cases "i \<le> j") (simp_all add: segment_def)

lemma segment_append2:
  "segment (length xs + i) (length xs + j) (xs @ ys) = segment i j ys"
  by (simp add: segment_def)

lemma strict_sorted_le_last:
  fixes a :: "'a :: linorder"
  shows "sorted_wrt (<) xs \<Longrightarrow> a \<in> set xs \<Longrightarrow> a \<le> last xs"
  by (induction xs) (auto intro: less_imp_le)

lemma strict_sorted_le_upper:
  fixes xs :: "nat list"
  assumes "sorted_wrt (<) xs" "\<forall>a \<in> set xs. a < n"
  shows "length xs \<le> n"
proof -
  have "distinct xs" "set xs \<subseteq> {..<n}" using assms by (auto simp: strict_sorted_iff)
  then show ?thesis by (metis card_lessThan card_mono distinct_card finite_lessThan)
qed

subsection \<open>Cutting a list at ascending positions\<close>

text \<open>
  \<open>cut starts n xs\<close> is the list of the pieces of \<open>xs\<close> that begin at the positions of
  \<open>starts\<close>, each running to the next one and the last one to \<open>n\<close>.
\<close>

fun cut :: "nat list \<Rightarrow> nat \<Rightarrow> 'a list \<Rightarrow> 'a list list" where
  "cut [] n xs = []"
| "cut [a] n xs = [segment a n xs]"
| "cut (a # b # as) n xs = segment a b xs # cut (b # as) n xs"

lemma length_cut [simp]: "length (cut as n xs) = length as"
  by (induction as n xs rule: cut.induct) auto

lemma concat_cut:
  assumes "sorted (a # as)" "\<forall>b \<in> set (a # as). b \<le> n"
  shows "concat (cut (a # as) n xs) = segment a n xs"
  using assms
proof (induction as arbitrary: a)
  case Nil
  then show ?case by simp
next
  case (Cons b as)
  then show ?case by (auto simp: segment_append)
qed

lemma nth_cut:
  "k < length as \<Longrightarrow>
   cut as n xs ! k = segment (as ! k) (if Suc k < length as then as ! Suc k else n) xs"
proof (induction as n xs arbitrary: k rule: cut.induct)
  case (3 a b as n xs)
  then show ?case by (cases k) auto
qed auto

end
