(* ===== verification/Nal.thy ===== *)
theory Nal
  imports Base
begin

text \<open>
  The Annex-B scanner of \<open>frame_pipeline.c\<close>: \<open>convert_unit_type\<close>, \<open>find_nal_unit\<close>,
  \<open>count_nal_units\<close> and \<open>parse_nal_units\<close>. The C functions take a pointer and a
  length; here the buffer is the list of its bytes. \<open>find_nal_unit\<close> returns \<open>-1\<close> or a
  unit type and writes two out-parameters only on success: the model returns \<open>None\<close> or
  \<open>Some (type, offset, sc_len)\<close>. The \<open>parse_nal_units\<close> of a \<open>NULL\<close> buffer is not
  reached (every caller passes an array). A parsed unit carries the \<open>len\<close> bytes at its
  \<open>ptr\<close>.
\<close>

subsection \<open>Unit types\<close>

datatype uvc_frame_format = UVC_FRAME_FORMAT_H264 | UVC_FRAME_FORMAT_H265 | UVC_FRAME_FORMAT_OTHER

datatype nal_unit_type =
    UNIT_INVALID
  | UNIT_FRAME_IDR
  | UNIT_FRAME_NON_IDR
  | UNIT_VPS
  | UNIT_SPS
  | UNIT_PPS
  | UNIT_AUD

record nal_unit =
  utype :: nal_unit_type
  ubytes :: "byte list"

abbreviation ulen :: "nal_unit \<Rightarrow> nat" where "ulen u \<equiv> length (ubytes u)"

definition convert_unit_type :: "uvc_frame_format \<Rightarrow> byte \<Rightarrow> nal_unit_type" where
  "convert_unit_type format type =
     (if format = UVC_FRAME_FORMAT_H264 then
        (if type = 1 then UNIT_FRAME_NON_IDR
         else if type = 5 then UNIT_FRAME_IDR
         else if type = 7 then UNIT_SPS
         else if type = 8 then UNIT_PPS
         else if type = 9 then UNIT_AUD
         else UNIT_INVALID)
      else if format = UVC_FRAME_FORMAT_H265 then
        (if type = 1 then UNIT_FRAME_NON_IDR
         else if type = 19 \<or> type = 20 then UNIT_FRAME_IDR
         else if type = 32 then UNIT_VPS
         else if type = 33 then UNIT_SPS
         else if type = 34 then UNIT_PPS
         else if type = 35 then UNIT_AUD
         else UNIT_INVALID)
      else UNIT_INVALID)"

definition header_type :: "uvc_frame_format \<Rightarrow> byte \<Rightarrow> nal_unit_type" where
  "header_type format b =
     (if format = UVC_FRAME_FORMAT_H264 then convert_unit_type format (and b 0x1F)
      else convert_unit_type format (and (drop_bit 1 b) 0x3F))"

subsection \<open>Finding the next start code\<close>

function find_loop ::
  "uvc_frame_format \<Rightarrow> byte list \<Rightarrow> bool \<Rightarrow> nat \<Rightarrow> (nal_unit_type \<times> nat \<times> nat) option" where
  "find_loop format buf search i =
     (if i + 4 \<le> length buf then
        if buf ! i = 0 \<and> buf ! (i + 1) = 0 \<and> buf ! (i + 2) = 0 \<and> buf ! (i + 3) = 1 then
          (if i + 4 \<ge> length buf then None
           else Some (header_type format (buf ! (i + 4)), i, 4))
        else if buf ! i = 0 \<and> buf ! (i + 1) = 0 \<and> buf ! (i + 2) = 1 then
          (if i + 3 \<ge> length buf then None
           else Some (header_type format (buf ! (i + 3)), i, 3))
        else if \<not> search then None
        else find_loop format buf search (i + 1)
      else None)"
  by pat_completeness auto
termination
  by (relation "measure (\<lambda>(format, buf, search, i). length buf - i)") auto

declare find_loop.simps [simp del]

definition find_nal_unit ::
  "uvc_frame_format \<Rightarrow> byte list \<Rightarrow> nat \<Rightarrow> bool \<Rightarrow> (nal_unit_type \<times> nat \<times> nat) option" where
  "find_nal_unit format buf start search =
     (if format \<noteq> UVC_FRAME_FORMAT_H264 \<and> format \<noteq> UVC_FRAME_FORMAT_H265 then None
      else if length buf < 4 \<or> start > length buf - 4 then None
      else find_loop format buf search start)"

lemma find_nal_unit_eq:
  "find_nal_unit format buf start search =
     (if format = UVC_FRAME_FORMAT_OTHER then None else find_loop format buf search start)"
  by (cases format) (auto simp: find_nal_unit_def find_loop.simps [of _ buf search start])


text \<open>
  A \<open>start_mark\<close> is a position that carries the three bytes \<open>00 00 01\<close> and has a NAL
  header byte after them: what the Annex-B grammar calls a start code prefix, whether or
  not a further zero byte precedes it. It is the reference the scanner is checked against.
\<close>

definition start_mark :: "byte list \<Rightarrow> nat \<Rightarrow> bool" where
  "start_mark buf p \<longleftrightarrow>
     p + 3 < length buf \<and> buf ! p = 0 \<and> buf ! (p + 1) = 0 \<and> buf ! (p + 2) = 1"

lemma start_mark_spacing:
  assumes "start_mark buf p" "start_mark buf q" "p < q"
  shows "p + 3 \<le> q"
proof (rule ccontr)
  assume "\<not> p + 3 \<le> q"
  with \<open>p < q\<close> have "q = p + 1 \<or> q = p + 2" by arith
  with assms show False
    by (auto simp: start_mark_def numeral_eq_Suc)
qed

lemma find_loop_None:
  "find_loop format buf True i = None \<Longrightarrow> i \<le> q \<Longrightarrow> \<not> start_mark buf q"
proof (induction format buf True i rule: find_loop.induct)
  case (1 format buf i)
  show ?case
  proof (cases "start_mark buf i \<or> (buf ! i = 0 \<and> buf ! (i + 1) = 0 \<and> buf ! (i + 2) = 0
      \<and> buf ! (i + 3) = 1) \<or> length buf < i + 4")
    case True
    with "1.prems" show ?thesis
      by (subst (asm) find_loop.simps, cases "q = i")
        (auto simp: start_mark_def numeral_eq_Suc split: if_splits)
  next
    case False
    with "1.prems"(1) have "find_loop format buf True (i + 1) = None"
      by (subst (asm) find_loop.simps) (auto simp: start_mark_def split: if_splits)
    with False have "i + 1 \<le> q \<Longrightarrow> \<not> start_mark buf q"
      using "1.hyps" by (auto simp: start_mark_def)
    with False "1.prems"(2) show ?thesis by (cases "q = i") auto
  qed
qed

lemma find_loop_Some:
  assumes "find_loop format buf True i = Some (t, off, sc)"
  shows "i \<le> off \<and> (sc = 3 \<or> sc = 4 \<and> buf ! off = 0) \<and> start_mark buf (off + sc - 3) \<and>
    t = header_type format (buf ! (off + sc)) \<and>
    (sc = 3 \<longrightarrow> off = i \<or> buf ! (off - 1) \<noteq> 0) \<and>
    (\<forall>q. i \<le> q \<longrightarrow> q < off + sc - 3 \<longrightarrow> \<not> start_mark buf q)"
  using assms
proof (induction format buf True i rule: find_loop.induct)
  case (1 format buf i)
  consider (four) "i + 4 < length buf" "buf ! i = 0" "buf ! (i + 1) = 0" "buf ! (i + 2) = 0"
        "buf ! (i + 3) = 1"
    | (three) "start_mark buf i"
    | (skip) "i + 4 \<le> length buf" "\<not> start_mark buf i"
        "find_loop format buf True (i + 1) = Some (t, off, sc)"
        "\<not> (buf ! i = 0 \<and> buf ! (i + 1) = 0 \<and> buf ! (i + 2) = 0 \<and> buf ! (i + 3) = 1)"
    using "1.prems" by (subst (asm) find_loop.simps) (auto simp: start_mark_def split: if_splits)
  then show ?case
  proof cases
    case four
    with "1.prems" have "t = header_type format (buf ! (i + 4))" "off = i" "sc = 4"
      by (auto simp: find_loop.simps [of _ _ _ i])
    with four show ?thesis
      by (auto simp: start_mark_def numeral_eq_Suc less_Suc_eq)
  next
    case three
    with "1.prems" have "t = header_type format (buf ! (i + 3))" "off = i" "sc = 3"
      by (auto simp: find_loop.simps [of _ _ _ i] start_mark_def)
    with three show ?thesis by auto
  next
    case skip
    have "i + 1 \<le> off \<and> (sc = 3 \<or> sc = 4 \<and> buf ! off = 0) \<and> start_mark buf (off + sc - 3) \<and>
      t = header_type format (buf ! (off + sc)) \<and>
      (sc = 3 \<longrightarrow> off = i + 1 \<or> buf ! (off - 1) \<noteq> 0) \<and>
      (\<forall>q. i + 1 \<le> q \<longrightarrow> q < off + sc - 3 \<longrightarrow> \<not> start_mark buf q)"
      using skip "1.hyps" by (auto simp: start_mark_def)
    note found = this
    have "\<not> start_mark buf q" if "i \<le> q" "q < off + sc - 3" for q
      using found skip(2) that by (cases "q = i") auto
    moreover have "buf ! (off - 1) \<noteq> 0" if "sc = 3"
    proof (cases "off = i + 1")
      case True
      with found skip(4) that show ?thesis by (auto simp: start_mark_def numeral_eq_Suc)
    next
      case False
      with found that show ?thesis by auto
    qed
    ultimately show ?thesis using found by auto
  qed
qed

lemma find_nal_unit_bounds:
  assumes "find_nal_unit format buf start True = Some (t, off, sc)"
  shows "start \<le> off" "0 < sc" "off + sc < length buf"
  using assms find_loop_Some [of format buf start t off sc]
  by (auto simp: find_nal_unit_eq start_mark_def split: if_splits)

lemma find_nal_unit_advances:
  "find_nal_unit format buf start True = Some (t, off, sc) \<Longrightarrow>
   length buf - (off + sc) < length buf - start"
  using find_nal_unit_bounds [of format buf start t off sc] by arith

subsection \<open>Counting and parsing\<close>

function count_loop :: "uvc_frame_format \<Rightarrow> byte list \<Rightarrow> nat \<Rightarrow> nat \<Rightarrow> nat" where
  "count_loop format buf pos count =
     (case find_nal_unit format buf pos True of
        None \<Rightarrow> count
      | Some (t, off, sc) \<Rightarrow> count_loop format buf (off + sc) (count + 1))"
  by pat_completeness auto
termination
  by (relation "measure (\<lambda>(format, buf, pos, count). length buf - pos)")
    (auto dest: find_nal_unit_advances)

declare count_loop.simps [simp del]

definition count_nal_units :: "uvc_frame_format \<Rightarrow> byte list \<Rightarrow> nat" where
  "count_nal_units format buf = count_loop format buf 0 0"

function parse_loop ::
  "uvc_frame_format \<Rightarrow> nat \<Rightarrow> byte list \<Rightarrow> (nal_unit_type \<times> nat \<times> nat) option \<Rightarrow> nal_unit list
   \<Rightarrow> nal_unit list" where
  "parse_loop format max_units buf None units = units"
| "parse_loop format max_units buf (Some (type, start, sc)) units =
     (if length units < max_units then
        let nxt = find_nal_unit format buf (start + sc) True;
            end = (case nxt of Some (t, off, s) \<Rightarrow> off | None \<Rightarrow> length buf)
        in parse_loop format max_units buf nxt
             (units @ [\<lparr>utype = type, ubytes = segment start end buf\<rparr>])
      else units)"
  by pat_completeness auto
termination
  by (relation "measure (\<lambda>(format, max_units, buf, nxt, units). max_units - length units)") auto

declare parse_loop.simps [simp del]

definition parse_nal_units ::
  "uvc_frame_format \<Rightarrow> nat \<Rightarrow> byte list \<Rightarrow> nal_unit list" where
  "parse_nal_units format max_units buf =
     parse_loop format max_units buf (find_nal_unit format buf 0 True) []"


subsection \<open>The reference: one pass over the start codes\<close>

text \<open>
  \<open>nal_scan\<close> lists what the successive calls of \<open>find_nal_unit\<close> return; \<open>parse_ref\<close>
  cuts the buffer at those offsets. The two C loops, which interleave scanning with
  counting and with filling a bounded array, are shown equal to it.
\<close>

function nal_scan :: "uvc_frame_format \<Rightarrow> byte list \<Rightarrow> nat \<Rightarrow> (nal_unit_type \<times> nat \<times> nat) list" where
  "nal_scan format buf pos =
     (case find_nal_unit format buf pos True of
        None \<Rightarrow> []
      | Some (t, off, sc) \<Rightarrow> (t, off, sc) # nal_scan format buf (off + sc))"
  by pat_completeness auto
termination
  by (relation "measure (\<lambda>(format, buf, pos). length buf - pos)")
    (auto dest: find_nal_unit_advances)

declare nal_scan.simps [simp del]

definition scan_offsets :: "(nal_unit_type \<times> nat \<times> nat) list \<Rightarrow> nat list" where
  "scan_offsets ns = map (\<lambda>(t, off, sc). off) ns"

definition units_at ::
  "(nal_unit_type \<times> nat \<times> nat) list \<Rightarrow> byte list \<Rightarrow> nal_unit list" where
  "units_at ns buf =
     map2 (\<lambda>(t, off, sc) bs. \<lparr>utype = t, ubytes = bs\<rparr>) ns
       (cut (scan_offsets ns) (length buf) buf)"

definition parse_ref :: "uvc_frame_format \<Rightarrow> byte list \<Rightarrow> nal_unit list" where
  "parse_ref format buf = units_at (nal_scan format buf 0) buf"

lemma scan_offsets_simps [simp]:
  "scan_offsets [] = []"
  "scan_offsets ((t, off, sc) # ns) = off # scan_offsets ns"
  "length (scan_offsets ns) = length ns"
  by (simp_all add: scan_offsets_def)

lemma length_units_at [simp]: "length (units_at ns buf) = length ns"
  by (simp add: units_at_def)

lemma nal_scan_None:
  "find_nal_unit format buf pos True = None \<Longrightarrow> nal_scan format buf pos = []"
  by (simp add: nal_scan.simps)

lemma nal_scan_Some:
  "find_nal_unit format buf pos True = Some (t, off, sc) \<Longrightarrow>
   nal_scan format buf pos = (t, off, sc) # nal_scan format buf (off + sc)"
  by (subst nal_scan.simps) simp

lemma units_at_Nil [simp]: "units_at [] buf = []"
  by (simp add: units_at_def)

lemma units_at_Cons:
  "units_at ((t, off, sc) # ns) buf =
     \<lparr>utype = t,
      ubytes = segment off (case ns of (t', off', sc') # _ \<Rightarrow> off' | [] \<Rightarrow> length buf) buf\<rparr>
     # units_at ns buf"
  by (cases ns) (auto simp: units_at_def split: prod.splits)

lemma count_loop_scan: "count_loop format buf pos n = n + length (nal_scan format buf pos)"
proof (induction format buf pos arbitrary: n rule: nal_scan.induct)
  case (1 format buf pos)
  then show ?case
    by (auto simp: count_loop.simps [of _ _ pos] nal_scan.simps [of _ _ pos] split: option.splits)
qed

lemma parse_loop_scan:
  "parse_loop format m buf (find_nal_unit format buf pos True) us =
     us @ take (m - length us) (units_at (nal_scan format buf pos) buf)"
proof (induction format buf pos arbitrary: us rule: nal_scan.induct)
  case (1 format buf pos)
  show ?case
  proof (cases "find_nal_unit format buf pos True")
    case None
    then show ?thesis by (simp add: parse_loop.simps nal_scan_None)
  next
    case (Some x)
    obtain t off sc where x: "x = (t, off, sc)" by (cases x)
    let ?nxt = "find_nal_unit format buf (off + sc) True"
    let ?u = "\<lparr>utype = t, ubytes = segment off
      (case ?nxt of Some (t, off, s) \<Rightarrow> off | None \<Rightarrow> length buf) buf\<rparr>"
    have u: "units_at (nal_scan format buf pos) buf =
        ?u # units_at (nal_scan format buf (off + sc)) buf"
      by (simp add: nal_scan_Some [OF Some [unfolded x]] units_at_Cons
          nal_scan.simps [of _ _ "off + sc"] split: option.splits)
    have IH: "parse_loop format m buf ?nxt (us @ [?u]) = (us @ [?u]) @
        take (m - length (us @ [?u])) (units_at (nal_scan format buf (off + sc)) buf)"
      using "1.IH" Some x by simp
    show ?thesis
    proof (cases "length us < m")
      case True
      then have "m - length us = Suc (m - length (us @ [?u]))" by simp
      then show ?thesis
        using True IH by (simp add: Some x parse_loop.simps(2) u Let_def)
    next
      case False
      then show ?thesis by (simp add: Some x parse_loop.simps(2))
    qed
  qed
qed

lemma count_nal_units_scan: "count_nal_units format buf = length (nal_scan format buf 0)"
  by (simp add: count_nal_units_def count_loop_scan)

lemma parse_nal_units_ref:
  "parse_nal_units format m buf = take m (parse_ref format buf)"
  by (simp add: parse_nal_units_def parse_loop_scan parse_ref_def)

text \<open>
  The declarative reading of a scan: every mark of the buffer is found, in order, and the
  unit it opens begins one byte earlier when a further zero byte precedes the mark.
\<close>

definition mark_entry ::
  "uvc_frame_format \<Rightarrow> byte list \<Rightarrow> nat \<Rightarrow> nal_unit_type \<times> nat \<times> nat" where
  "mark_entry format buf m =
     (if 0 < m \<and> buf ! (m - 1) = 0 then (header_type format (buf ! (m + 3)), m - 1, 4)
      else (header_type format (buf ! (m + 3)), m, 3))"

lemma find_nal_unit_mark_entry:
  assumes "find_nal_unit format buf pos True = Some (t, off, sc)"
    and "pos = 0 \<or> buf ! (pos - 1) \<noteq> 0"
  shows "(t, off, sc) = mark_entry format buf (off + sc - 3)"
proof -
  have "find_loop format buf True pos = Some (t, off, sc)"
    using assms(1) by (simp add: find_nal_unit_eq split: if_splits)
  from find_loop_Some [OF this] assms(2) show ?thesis
    by (auto simp: mark_entry_def numeral_eq_Suc)
qed

lemma nal_scan_marks:
  assumes "format \<noteq> UVC_FRAME_FORMAT_OTHER" "pos = 0 \<or> buf ! (pos - 1) \<noteq> 0"
  shows "nal_scan format buf pos =
    map (mark_entry format buf) (filter (start_mark buf) [pos..<length buf])"
  using assms
proof (induction format buf pos rule: nal_scan.induct)
  case (1 format buf pos)
  show ?case
  proof (cases "find_nal_unit format buf pos True")
    case None
    then have "\<not> start_mark buf q" if "pos \<le> q" for q
      using that "1.prems" find_loop_None [of format buf pos q] by (simp add: find_nal_unit_eq)
    then show ?thesis using None by (simp add: nal_scan_None)
  next
    case (Some x)
    obtain t off sc where x: "x = (t, off, sc)" by (cases x)
    define m where "m = off + sc - 3"
    have find: "pos \<le> off" "sc = 3 \<or> sc = 4" "start_mark buf m"
        "\<forall>q. pos \<le> q \<longrightarrow> q < m \<longrightarrow> \<not> start_mark buf q"
      using Some x find_loop_Some [of format buf pos t off sc] "1.prems"
      by (auto simp: find_nal_unit_eq m_def)
    then have pos: "pos \<le> m" "m + 3 = off + sc" "m + 3 < length buf"
      by (auto simp: m_def start_mark_def)
    have "buf ! (m + 2) \<noteq> 0" using find(3) by (simp add: start_mark_def)
    then have nz: "buf ! (off + sc - 1) \<noteq> 0" by (simp flip: pos(2))
    have IH: "nal_scan format buf (off + sc) =
        map (mark_entry format buf) (filter (start_mark buf) [off + sc..<length buf])"
      using "1.IH" [OF Some x [symmetric] refl "1.prems"(1)] nz by simp
    have gap: "\<not> start_mark buf q" if "m < q" "q < m + 3" for q
      using start_mark_spacing [OF find(3), of q] that by auto
    have "[pos..<length buf] = [pos..<m] @ [m..<length buf]"
      using pos by (intro upt_split) auto
    moreover have "[m..<length buf] = [m..<m + 3] @ [m + 3..<length buf]"
      using pos by (intro upt_split) auto
    ultimately have "[pos..<length buf] = [pos..<m] @ [m, m + 1, m + 2] @ [m + 3..<length buf]"
      by (simp only: upt_three)
    then have "filter (start_mark buf) [pos..<length buf] =
        m # filter (start_mark buf) [off + sc..<length buf]"
      using find gap [of "m + 1"] gap [of "m + 2"] pos by (simp add: filter_empty_conv)
    moreover have "(t, off, sc) = mark_entry format buf m"
      using find_nal_unit_mark_entry [OF Some [unfolded x] "1.prems"(2)] by (simp add: m_def)
    ultimately show ?thesis
      by (simp add: nal_scan_Some [OF Some [unfolded x]] IH)
  qed
qed

lemma nal_scan_sound:
  "(t, off, sc) \<in> set (nal_scan format buf pos) \<Longrightarrow>
   pos \<le> off \<and> (sc = 3 \<or> sc = 4 \<and> buf ! off = 0) \<and> start_mark buf (off + sc - 3) \<and>
   t = header_type format (buf ! (off + sc))"
proof (induction format buf pos rule: nal_scan.induct)
  case (1 format buf pos)
  show ?case
  proof (cases "find_nal_unit format buf pos True")
    case None
    with "1.prems" show ?thesis by (simp add: nal_scan_None)
  next
    case (Some x)
    obtain t' off' sc' where x: "x = (t', off', sc')" by (cases x)
    have f: "find_loop format buf True pos = Some (t', off', sc')"
      using Some x by (simp add: find_nal_unit_eq split: if_splits)
    have ge: "pos \<le> off' + sc'" using find_loop_Some [OF f] by auto
    have "(t, off, sc) = (t', off', sc') \<or> (t, off, sc) \<in> set (nal_scan format buf (off' + sc'))"
      using "1.prems" nal_scan_Some [OF Some [unfolded x]] by simp
    then show ?thesis
    proof
      assume "(t, off, sc) = (t', off', sc')"
      then show ?thesis using find_loop_Some [OF f] by simp
    next
      assume "(t, off, sc) \<in> set (nal_scan format buf (off' + sc'))"
      then show ?thesis using "1.IH" Some x ge by fastforce
    qed
  qed
qed

lemma nal_scan_bounds:
  "(t, off, sc) \<in> set (nal_scan format buf pos) \<Longrightarrow> off + sc < length buf"
  using nal_scan_sound [of t off sc format buf pos] by (auto simp: start_mark_def)

lemma scan_offsets_ge:
  "off \<in> set (scan_offsets (nal_scan format buf pos)) \<Longrightarrow> pos \<le> off"
  using nal_scan_sound by (fastforce simp: scan_offsets_def)

lemma scan_offsets_le:
  "off \<in> set (scan_offsets (nal_scan format buf pos)) \<Longrightarrow> off \<le> length buf"
  using nal_scan_bounds by (fastforce simp: scan_offsets_def)

text \<open>Consecutive offsets are at least a start code and a byte apart from the next.\<close>

lemma sorted_scan_offsets: "sorted_wrt (<) (scan_offsets (nal_scan format buf pos))"
proof (induction format buf pos rule: nal_scan.induct)
  case (1 format buf pos)
  show ?case
  proof (cases "find_nal_unit format buf pos True")
    case None
    then show ?thesis by (simp add: nal_scan_None)
  next
    case (Some x)
    obtain t off sc where x: "x = (t, off, sc)" by (cases x)
    have "off < off'" if "off' \<in> set (scan_offsets (nal_scan format buf (off + sc)))" for off'
      using scan_offsets_ge [OF that] find_nal_unit_bounds(2) [OF Some [unfolded x]] by simp
    then show ?thesis using "1.IH" Some x by (simp add: nal_scan_Some)
  qed
qed


subsection \<open>The shape of a parsed unit\<close>

text \<open>
  Length of the start code a byte string begins with, \<open>0\<close> if it begins with none. A parsed
  unit begins with one; its type is that of the byte after it. The one unit with no such
  byte of its own is a start code directly followed by another one: its header byte is the
  first zero of the next code, so its type is \<open>UNIT_INVALID\<close>.
\<close>

definition code_len :: "byte list \<Rightarrow> nat" where
  "code_len bs =
     (if 4 \<le> length bs \<and> bs ! 0 = 0 \<and> bs ! 1 = 0 \<and> bs ! 2 = 0 \<and> bs ! 3 = 1 then 4
      else if 3 \<le> length bs \<and> bs ! 0 = 0 \<and> bs ! 1 = 0 \<and> bs ! 2 = 1 then 3 else 0)"

definition unit_wf :: "uvc_frame_format \<Rightarrow> nal_unit \<Rightarrow> bool" where
  "unit_wf format u \<longleftrightarrow>
     code_len (ubytes u) \<noteq> 0 \<and>
     utype u = (if code_len (ubytes u) < ulen u
                then header_type format (ubytes u ! code_len (ubytes u)) else UNIT_INVALID)"

lemma code_len_cases: "code_len bs = 0 \<or> code_len bs = 3 \<or> code_len bs = 4"
  by (simp add: code_len_def)

lemma code_len_le: "code_len bs \<le> length bs"
  by (simp add: code_len_def)

lemma header_type_zero [simp]: "header_type format 0 = UNIT_INVALID"
  by (simp add: header_type_def convert_unit_type_def)

lemma unit_wf_segment:
  assumes "start_mark buf (off + sc - 3)" "sc = 3 \<or> sc = 4 \<and> buf ! off = 0"
    and "off + sc \<le> e" "e \<le> length buf" "e = off + sc \<Longrightarrow> buf ! e = 0"
  shows "unit_wf format \<lparr>utype = header_type format (buf ! (off + sc)), ubytes = segment off e buf\<rparr>"
proof -
  have nth: "segment off e buf ! k = buf ! (off + k)" if "k < sc" for k
    using that assms(3,4) by (simp add: nth_segment)
  have len: "length (segment off e buf) = e - off" "e - off \<ge> sc" using assms(3,4) by auto
  have "code_len (segment off e buf) = sc"
    using assms(1,2) nth [of 0] nth [of 1] nth [of 2] nth [of 3] len
    by (auto simp: code_len_def start_mark_def numeral_eq_Suc)
  moreover have "segment off e buf ! sc = buf ! (off + sc)" if "sc < e - off"
    using that assms(4) by (simp add: nth_segment)
  moreover have "buf ! (off + sc) = 0" if "\<not> sc < e - off"
    using that assms(3,5) by (cases "e = off + sc") auto
  ultimately show ?thesis
    using assms(2) len by (auto simp: unit_wf_def)
qed

lemma units_at_wf:
  "u \<in> set (units_at (nal_scan format buf pos) buf) \<Longrightarrow> unit_wf format u"
proof (induction format buf pos rule: nal_scan.induct)
  case (1 format buf pos)
  show ?case
  proof (cases "find_nal_unit format buf pos True")
    case None
    with "1.prems" show ?thesis by (simp add: nal_scan_None)
  next
    case (Some x)
    obtain t off sc where x: "x = (t, off, sc)" by (cases x)
    define rest where "rest = nal_scan format buf (off + sc)"
    define e where "e = (case rest of (t', off', sc') # _ \<Rightarrow> off' | [] \<Rightarrow> length buf)"
    have scan: "nal_scan format buf pos = (t, off, sc) # rest"
      by (simp add: rest_def nal_scan_Some [OF Some [unfolded x]])
    have head: "(sc = 3 \<or> sc = 4 \<and> buf ! off = 0)" "start_mark buf (off + sc - 3)"
        "t = header_type format (buf ! (off + sc))" "off + sc < length buf"
      using nal_scan_sound [of t off sc format buf pos] nal_scan_bounds [of t off sc format buf pos]
      by (auto simp: scan)
    have e: "off + sc \<le> e" "e \<le> length buf" "e = off + sc \<Longrightarrow> buf ! e = 0"
    proof -
      have "off + sc \<le> off' \<and> off' \<le> length buf \<and> (off' = off + sc \<longrightarrow> buf ! off' = 0)"
        if "(t', off', sc') \<in> set rest" for t' off' sc'
        using nal_scan_sound [of t' off' sc' format buf "off + sc"] that
          nal_scan_bounds [of t' off' sc' format buf "off + sc"]
        by (auto simp: rest_def start_mark_def)
      then show "off + sc \<le> e" "e \<le> length buf" "e = off + sc \<Longrightarrow> buf ! e = 0"
        using head(4) by (cases rest; force simp: e_def)+
    qed
    have "units_at (nal_scan format buf pos) buf =
        \<lparr>utype = t, ubytes = segment off e buf\<rparr> # units_at rest buf"
      by (simp add: scan units_at_Cons e_def)
    then show ?thesis
      using "1.prems" "1.IH" Some x unit_wf_segment [OF head(2,1) e] head(3)
      by (auto simp: rest_def)
  qed
qed

lemma parse_nal_units_wf: "u \<in> set (parse_nal_units format m buf) \<Longrightarrow> unit_wf format u"
  by (auto simp: parse_nal_units_ref parse_ref_def dest: in_set_takeD intro: units_at_wf)


lemma concat_units_at:
  assumes "\<forall>off \<in> set (scan_offsets ((t, off0, sc) # ns)). off \<le> length buf"
    and "sorted_wrt (<) (scan_offsets ((t, off0, sc) # ns))"
  shows "concat (map ubytes (units_at ((t, off0, sc) # ns) buf)) = drop off0 buf"
proof -
  let ?offs = "off0 # scan_offsets ns"
  have "map ubytes (units_at ((t, off0, sc) # ns) buf) = cut ?offs (length buf) buf"
    by (rule nth_equalityI) (auto simp: units_at_def scan_offsets_def split: prod.splits)
  moreover have "concat (cut ?offs (length buf) buf) = segment off0 (length buf) buf"
    using assms by (intro concat_cut) (auto simp: strict_sorted_imp_sorted)
  ultimately show ?thesis by (simp add: segment_to_end)
qed

lemma parse_ref_tiles:
  "concat (map ubytes (parse_ref format buf)) =
     (case find_nal_unit format buf 0 True of None \<Rightarrow> [] | Some (t, off, sc) \<Rightarrow> drop off buf)"
proof (cases "find_nal_unit format buf 0 True")
  case None
  then show ?thesis by (simp add: parse_ref_def nal_scan_None)
next
  case (Some x)
  obtain t off sc where x: "x = (t, off, sc)" by (cases x)
  note scan = nal_scan_Some [OF Some [unfolded x]]
  show ?thesis
    using concat_units_at [of t off sc "nal_scan format buf (off + sc)" buf]
      scan_offsets_le [of _ format buf 0] sorted_scan_offsets [of format buf 0]
    by (simp add: parse_ref_def scan Some x)
qed

subsection \<open>What the clients rely on\<close>

text \<open>
  The contract of the parser towards the frame callback and the cache reader: the units
  are consecutive pieces of the buffer with nothing dropped after the first one, and each
  is well formed. The clients' byte accounting is proved from it alone.
\<close>

locale nal_source =
  fixes parse :: "byte list \<Rightarrow> nal_unit list"
    and fmt :: uvc_frame_format
  assumes tiles: "\<exists>pre. buf = pre @ concat (map ubytes (parse buf))"
    and wf: "u \<in> set (parse buf) \<Longrightarrow> unit_wf fmt u"
begin

lemma total_length: "sum_list (map ulen (parse buf)) \<le> length buf"
proof -
  obtain pre where "buf = pre @ concat (map ubytes (parse buf))"
    using tiles [of buf] by auto
  then have "length buf = length pre + length (concat (map ubytes (parse buf)))"
    by (metis length_append)
  then show ?thesis by (simp add: length_concat comp_def)
qed

lemma unit_length: "u \<in> set (parse buf) \<Longrightarrow> 3 \<le> ulen u \<and> ulen u \<le> length buf"
  using wf [of u buf] total_length [of buf] code_len_le [of "ubytes u"]
    code_len_cases [of "ubytes u"] member_le_sum_list [of "ulen u" "map ulen (parse buf)"]
  by (auto simp: unit_wf_def)

lemma unit_count: "3 * length (parse buf) \<le> length buf"
proof -
  have "sum_list (map (\<lambda>_. 3) (parse buf)) \<le> sum_list (map ulen (parse buf))"
    by (rule sum_list_mono) (simp add: unit_length)
  then show ?thesis
    using total_length [of buf] by (simp add: sum_list_triv mult.commute)
qed

end

definition parse_all :: "uvc_frame_format \<Rightarrow> byte list \<Rightarrow> nal_unit list" where
  \<comment> \<open>the count-then-parse sequence of \<open>frame_callback\<close>\<close>
  "parse_all format buf = parse_nal_units format (count_nal_units format buf) buf"

lemma parse_all_ref: "parse_all format buf = parse_ref format buf"
  by (simp add: parse_all_def parse_nal_units_ref count_nal_units_scan parse_ref_def)

interpretation frame_nals: nal_source "parse_all format" format for format
proof unfold_locales
  show "\<exists>pre. buf = pre @ concat (map ubytes (parse_all format buf))" for buf
  proof (cases "find_nal_unit format buf 0 True")
    case None
    then show ?thesis by (simp add: parse_all_ref parse_ref_def nal_scan_None)
  next
    case (Some x)
    then show ?thesis
      by (intro exI [of _ "take (fst (snd x)) buf"])
        (auto simp: parse_all_ref parse_ref_tiles split: prod.splits)
  qed
  show "unit_wf format u" if "u \<in> set (parse_all format buf)" for u buf
    using that by (auto simp: parse_all_def intro: parse_nal_units_wf)
qed

subsection \<open>Parsing a concatenation of units\<close>

text \<open>
  A unit is clean when it opens with a start code followed by a header byte, contains no
  other start code, and does not end in bytes that a following unit could complete to one.
\<close>

definition raw_mark :: "byte list \<Rightarrow> nat \<Rightarrow> bool" where
  \<comment> \<open>the three bytes of a start code, with or without a header byte after them\<close>
  "raw_mark bs p \<longleftrightarrow> p + 2 < length bs \<and> bs ! p = 0 \<and> bs ! (p + 1) = 0 \<and> bs ! (p + 2) = 1"

lemma start_mark_raw: "start_mark bs p \<longleftrightarrow> raw_mark bs p \<and> p + 3 < length bs"
  by (auto simp: start_mark_def raw_mark_def)

definition clean_unit :: "uvc_frame_format \<Rightarrow> byte list \<Rightarrow> bool" where
  "clean_unit format bs \<longleftrightarrow>
     format \<noteq> UVC_FRAME_FORMAT_OTHER \<and> code_len bs \<noteq> 0 \<and> code_len bs < length bs \<and>
     (\<forall>p < length bs. raw_mark bs p \<longrightarrow> p + 3 = code_len bs) \<and>
     last bs \<noteq> 0"

definition unit_of :: "uvc_frame_format \<Rightarrow> byte list \<Rightarrow> nal_unit" where
  "unit_of format bs = \<lparr>utype = header_type format (bs ! code_len bs), ubytes = bs\<rparr>"

definition shift_entry ::
  "nat \<Rightarrow> nal_unit_type \<times> nat \<times> nat \<Rightarrow> nal_unit_type \<times> nat \<times> nat" where
  "shift_entry k e = (case e of (t, off, sc) \<Rightarrow> (t, k + off, sc))"

lemma units_at_shift:
  "units_at (map (shift_entry (length a)) ns) (a @ b) = units_at ns b"
proof (induction ns)
  case (Cons n ns)
  obtain t off sc where n: "n = (t, off, sc)" by (cases n)
  show ?case
    using Cons.IH segment_append2 [of a off _ b]
    by (cases ns) (auto simp: n units_at_Cons shift_entry_def split: prod.splits)
qed simp

lemma units_at_append:
  assumes "\<forall>off \<in> set (scan_offsets ns). off \<le> length a"
    and "units_at ms (a @ b) = us" "ms = (t0, length a, sc0) # ms'"
  shows "units_at (ns @ ms) (a @ b) = units_at ns a @ us"
  using assms(1)
proof (induction ns)
  case Nil
  then show ?case using assms(2) by simp
next
  case (Cons n ns)
  obtain t off sc where n: "n = (t, off, sc)" by (cases n)
  have "units_at (ns @ ms) (a @ b) = units_at ns a @ us" using Cons by (simp add: n)
  then show ?case
    using Cons.prems assms(3)
    by (cases ns) (auto simp: n units_at_Cons segment_append1 split: prod.splits)
qed


lemma find_at_start:
  assumes "code_len b \<noteq> 0" "code_len b < length b" "format \<noteq> UVC_FRAME_FORMAT_OTHER"
  shows "find_nal_unit format b 0 True = Some (header_type format (b ! code_len b), 0, code_len b)"
  using assms
  by (auto simp: find_nal_unit_eq find_loop.simps [of _ _ _ 0] code_len_def numeral_eq_Suc
      split: if_splits)

lemma code_len_zeros: "code_len b \<noteq> 0 \<Longrightarrow> b ! 0 = 0 \<and> b ! 1 = 0 \<and> 3 \<le> length b"
  by (auto simp: code_len_def split: if_splits)

lemma code_len_append: "code_len a \<noteq> 0 \<Longrightarrow> code_len a < length a \<Longrightarrow> code_len (a @ b) = code_len a"
  by (auto simp: code_len_def nth_append split: if_splits)

definition closed_end :: "byte list \<Rightarrow> bool" where
  \<comment> \<open>no start code can be completed by the bytes that follow\<close>
  "closed_end a \<longleftrightarrow>
     a = [] \<or> last a \<noteq> 0 \<and> (3 \<le> length a \<longrightarrow> \<not> raw_mark a (length a - 3))"

lemma start_mark_append1:
  assumes "closed_end a" "code_len b \<noteq> 0" "p < length a"
  shows "start_mark (a @ b) p \<longleftrightarrow> start_mark a p"
proof -
  have b: "b ! 0 = 0" "b ! 1 = 0" using code_len_zeros [OF assms(2)] by auto
  consider "p + 3 < length a" | "p + 3 = length a" | "p + 2 = length a" | "p + 1 = length a"
    using assms(3) by arith
  then show ?thesis
  proof cases
    case 1
    then show ?thesis by (auto simp: start_mark_def nth_append)
  next
    case 2
    then have p: "p = length a - 3" by simp
    have "\<not> raw_mark a p" using assms(1) 2 by (auto simp: closed_end_def p)
    then show ?thesis using 2 by (auto simp: start_mark_def raw_mark_def nth_append)
  next
    case 3
    then have "(a @ b) ! (p + 2) = 0" using b by (simp add: nth_append)
    then show ?thesis using 3 by (auto simp: start_mark_def)
  next
    case 4
    then have "(a @ b) ! (p + 2) = 0" using b by (auto simp: nth_append)
    then show ?thesis using 4 by (auto simp: start_mark_def)
  qed
qed

lemma start_mark_append2: "start_mark (a @ b) (length a + q) \<longleftrightarrow> start_mark b q"
  by (auto simp: start_mark_def nth_append)

lemma mark_entry_append1:
  "start_mark a m \<Longrightarrow> mark_entry format (a @ b) m = mark_entry format a m"
  by (auto simp: mark_entry_def start_mark_def nth_append)

lemma mark_entry_append2:
  assumes "closed_end a"
  shows "mark_entry format (a @ b) (length a + m) =
    shift_entry (length a) (mark_entry format b m)"
proof (cases "m = 0")
  case True
  have "(a @ b) ! (length a - 1) \<noteq> 0" if "a \<noteq> []"
    using assms that by (simp add: closed_end_def nth_append last_conv_nth)
  then show ?thesis
    using True by (auto simp: mark_entry_def shift_entry_def nth_append)
next
  case False
  then obtain k where "m = Suc k" by (cases m) auto
  then show ?thesis by (simp add: mark_entry_def shift_entry_def nth_append)
qed

lemma nal_scan_append:
  assumes "closed_end a" "code_len b \<noteq> 0" "format \<noteq> UVC_FRAME_FORMAT_OTHER"
  shows "nal_scan format (a @ b) 0 =
    nal_scan format a 0 @ map (shift_entry (length a)) (nal_scan format b 0)"
proof -
  have "[0..<length a + length b] = [0..<length a] @ map ((+) (length a)) [0..<length b]"
    using upt_add_eq_append [of 0 "length a" "length b"] map_add_upt [of "length a" "length b"]
    by (simp add: add.commute [of "length a"] cong: map_cong)
  then have "filter (start_mark (a @ b)) [0..<length a + length b] =
      filter (start_mark (a @ b)) [0..<length a] @
      filter (start_mark (a @ b)) (map ((+) (length a)) [0..<length b])"
    by simp
  also have "filter (start_mark (a @ b)) [0..<length a] = filter (start_mark a) [0..<length a]"
    using assms by (auto intro: filter_cong simp: start_mark_append1)
  also have "filter (start_mark (a @ b)) (map ((+) (length a)) [0..<length b]) =
      map ((+) (length a)) (filter (start_mark b) [0..<length b])"
    by (simp add: filter_map comp_def start_mark_append2)
  finally show ?thesis
    using assms by (simp add: nal_scan_marks mark_entry_append1 mark_entry_append2 comp_def)
qed

lemma parse_ref_append:
  assumes "closed_end a" "code_len b \<noteq> 0" "code_len b < length b"
    and "format \<noteq> UVC_FRAME_FORMAT_OTHER"
  shows "parse_ref format (a @ b) = parse_ref format a @ parse_ref format b"
proof -
  note b0 = nal_scan_Some [OF find_at_start [OF assms(2,3,4)]]
  have ms: "map (shift_entry (length a)) (nal_scan format b 0) =
      (header_type format (b ! code_len b), length a, code_len b) #
      map (shift_entry (length a)) (nal_scan format b (0 + code_len b))"
    by (subst b0) (simp add: shift_entry_def)
  show ?thesis
    unfolding parse_ref_def nal_scan_append [OF assms(1,2,4)]
    by (rule units_at_append [OF _ units_at_shift ms]) (simp add: scan_offsets_le)
qed

lemma clean_unit_closed:
  assumes c: "clean_unit format bs"
  shows "closed_end bs"
proof -
  have "\<not> raw_mark bs (length bs - 3)" if "3 \<le> length bs"
  proof
    assume "raw_mark bs (length bs - 3)"
    then have "length bs - 3 + 3 = code_len bs"
      using c that by (auto simp: clean_unit_def)
    with that have "length bs = code_len bs" by simp
    with c show False by (simp add: clean_unit_def)
  qed
  with c show ?thesis by (simp add: closed_end_def clean_unit_def)
qed

lemma parse_ref_clean:
  assumes "clean_unit format bs"
  shows "parse_ref format bs = [unit_of format bs]"
proof -
  have c: "code_len bs \<noteq> 0" "code_len bs < length bs" "format \<noteq> UVC_FRAME_FORMAT_OTHER"
    using assms by (auto simp: clean_unit_def)
  have "find_nal_unit format bs (code_len bs) True = None"
  proof (rule ccontr)
    assume "find_nal_unit format bs (code_len bs) True \<noteq> None"
    then obtain t off sc where "find_nal_unit format bs (code_len bs) True = Some (t, off, sc)"
      by (cases "find_nal_unit format bs (code_len bs) True") auto
    then have off: "code_len bs \<le> off" "start_mark bs (off + sc - 3)" "sc = 3 \<or> sc = 4"
      using c(3) find_loop_Some [of format bs "code_len bs" t off sc]
      by (auto simp: find_nal_unit_eq)
    then have "off + sc - 3 + 3 = code_len bs"
      using assms by (auto simp: clean_unit_def start_mark_raw)
    with off show False by auto
  qed
  then have "nal_scan format bs 0 = [(header_type format (bs ! code_len bs), 0, code_len bs)]"
    using nal_scan_Some [OF find_at_start [OF c]] by (simp add: nal_scan_None)
  then show ?thesis by (simp add: parse_ref_def units_at_Cons unit_of_def)
qed

lemma parse_ref_concat:
  "\<forall>bs \<in> set bss. clean_unit format bs \<Longrightarrow>
   parse_ref format (concat bss) = map (unit_of format) bss"
proof (induction bss)
  case Nil
  then show ?case
    by (simp add: parse_ref_def nal_scan_None find_nal_unit_def)
next
  case (Cons bs bss)
  show ?case
  proof (cases bss)
    case Nil
    with Cons.prems show ?thesis by (simp add: parse_ref_clean)
  next
    case (Cons b' bss')
    with Cons.prems have "code_len b' \<noteq> 0" "code_len b' < length b'"
        "format \<noteq> UVC_FRAME_FORMAT_OTHER"
      by (auto simp: clean_unit_def)
    then have "parse_ref format (bs @ concat bss) = parse_ref format bs @ parse_ref format (concat bss)"
      using Cons.prems Cons
      by (intro parse_ref_append) (auto simp: clean_unit_closed code_len_append)
    then show ?thesis using Cons.IH Cons.prems by (simp add: parse_ref_clean)
  qed
qed

lemma clean_unit_scan:
  "clean_unit format bs \<longleftrightarrow>
     format \<noteq> UVC_FRAME_FORMAT_OTHER \<and> code_len bs \<noteq> 0 \<and> code_len bs < length bs \<and>
     list_all (\<lambda>p. raw_mark bs p \<longrightarrow> p + 3 = code_len bs) [0..<length bs] \<and> last bs \<noteq> 0"
  by (auto simp: clean_unit_def list_all_iff)

subsection \<open>Properties of the scanner\<close>

text \<open>
  Scanning finds every start code, in order, and nothing else: the units of a delivery
  are the pieces of the buffer cut at its Annex-B start codes, each typed by the header byte
  after its code, and there is one for each code.
\<close>
theorem parse_all_start_codes:
  assumes "format \<noteq> UVC_FRAME_FORMAT_OTHER"
  shows "parse_all format buf =
      units_at (map (mark_entry format buf) (filter (start_mark buf) [0..<length buf])) buf \<and>
    length (parse_all format buf) = count_nal_units format buf"
  using nal_scan_marks [OF assms, of 0 buf]
  by (simp add: parse_all_ref parse_ref_def count_nal_units_scan)

lemma parse_all_start_codes_witness:
  "parse_all UVC_FRAME_FORMAT_H265 [7, 0, 0, 0, 1, 0x40, 1, 0, 0, 1, 0x26] =
     [\<lparr>utype = UNIT_VPS, ubytes = [0, 0, 0, 1, 0x40, 1]\<rparr>,
      \<lparr>utype = UNIT_FRAME_IDR, ubytes = [0, 0, 1, 0x26]\<rparr>]"
proof -
  let ?b = "[7, 0, 0, 0, 1, 0x40, 1, 0, 0, 1, 0x26] :: byte list"
  have "units_at (map (mark_entry UVC_FRAME_FORMAT_H265 ?b)
        (filter (start_mark ?b) [0..<length ?b])) ?b =
      [\<lparr>utype = UNIT_VPS, ubytes = [0, 0, 0, 1, 0x40, 1]\<rparr>,
       \<lparr>utype = UNIT_FRAME_IDR, ubytes = [0, 0, 1, 0x26]\<rparr>]"
    by code_simp
  with parse_all_start_codes [of UVC_FRAME_FORMAT_H265 ?b] show ?thesis by simp
qed

text \<open>
  Claim C11. No byte after the first start code is lost or duplicated: the units, put together,
  are the buffer from the first unit's offset on; every unit begins with its start code and is
  typed by the byte after it, and so there are at most a third as many units as bytes.
\<close>
theorem parse_all_tiles:
  "concat (map ubytes (parse_all format buf)) =
     (case find_nal_unit format buf 0 True of None \<Rightarrow> [] | Some (t, off, sc) \<Rightarrow> drop off buf)
   \<and> list_all (unit_wf format) (parse_all format buf)
   \<and> 3 * length (parse_all format buf) \<le> length buf"
proof (intro conjI)
  show "concat (map ubytes (parse_all format buf)) =
     (case find_nal_unit format buf 0 True of None \<Rightarrow> [] | Some (t, off, sc) \<Rightarrow> drop off buf)"
    by (simp add: parse_all_ref parse_ref_tiles)
qed (auto simp: list_all_iff intro: frame_nals.wf frame_nals.unit_count)

text \<open>
  Claim C12. Parsing inverts concatenation: units that begin with a start code, hold no other one
  and do not end in a zero byte come back one by one, with the types of their header bytes.
\<close>
theorem parse_concat_units:
  assumes "\<forall>bs \<in> set bss. clean_unit format bs"
  shows "parse_all format (concat bss) = map (unit_of format) bss"
  using parse_ref_concat [OF assms] by (simp add: parse_all_ref)

lemma parse_concat_units_witness:
  "parse_all UVC_FRAME_FORMAT_H264 ([0, 0, 0, 1, 0x67, 9] @ [0, 0, 1, 0x68, 7] @ [0, 0, 1, 0x65]) =
     [\<lparr>utype = UNIT_SPS, ubytes = [0, 0, 0, 1, 0x67, 9]\<rparr>,
      \<lparr>utype = UNIT_PPS, ubytes = [0, 0, 1, 0x68, 7]\<rparr>,
      \<lparr>utype = UNIT_FRAME_IDR, ubytes = [0, 0, 1, 0x65]\<rparr>]"
proof -
  let ?bss = "[[0, 0, 0, 1, 0x67, 9], [0, 0, 1, 0x68, 7], [0, 0, 1, 0x65]] :: byte list list"
  have "list_all (clean_unit UVC_FRAME_FORMAT_H264) ?bss"
    unfolding clean_unit_scan [abs_def] by code_simp
  moreover have "map (unit_of UVC_FRAME_FORMAT_H264) ?bss =
      [\<lparr>utype = UNIT_SPS, ubytes = [0, 0, 0, 1, 0x67, 9]\<rparr>,
       \<lparr>utype = UNIT_PPS, ubytes = [0, 0, 1, 0x68, 7]\<rparr>,
       \<lparr>utype = UNIT_FRAME_IDR, ubytes = [0, 0, 1, 0x65]\<rparr>]"
    by code_simp
  ultimately show ?thesis
    using parse_concat_units [of ?bss UVC_FRAME_FORMAT_H264] by (simp add: list_all_iff)
qed

end
