(* ===== verification/AccessUnit.thy ===== *)
theory AccessUnit
  imports Nal
begin

text \<open>
  Grouping of parsed units into access units: \<open>nal_is_parameter_set\<close>, \<open>nal_is_slice\<close>,
  \<open>nal_header_offset\<close>, \<open>nal_opens_new_picture\<close> and \<open>split_access_units\<close> of
  \<open>frame_pipeline.c\<close>. The loop state \<open>(n, starts, au_has_slice, nonvcl_run)\<close> is a record;
  \<open>n\<close> is the length of the list of starts written so far and \<open>G_MAXSIZE\<close>, the "no run"
  value of \<open>nonvcl_run\<close>, is \<open>None\<close>.
\<close>

definition nal_is_parameter_set :: "nal_unit_type \<Rightarrow> bool" where
  "nal_is_parameter_set type \<longleftrightarrow> type = UNIT_VPS \<or> type = UNIT_SPS \<or> type = UNIT_PPS"

definition nal_is_slice :: "nal_unit_type \<Rightarrow> bool" where
  "nal_is_slice type \<longleftrightarrow> type = UNIT_FRAME_IDR \<or> type = UNIT_FRAME_NON_IDR"

definition nal_header_offset :: "nal_unit \<Rightarrow> nat" where
  "nal_header_offset unit = (if ulen unit \<ge> 3 \<and> ubytes unit ! 2 = 1 then 3 else 4)"

definition nal_opens_new_picture :: "uvc_frame_format \<Rightarrow> nal_unit \<Rightarrow> bool" where
  "nal_opens_new_picture format unit =
     (let payload = nal_header_offset unit + (if format = UVC_FRAME_FORMAT_H265 then 2 else 1)
      in if ulen unit \<le> payload then False
         else and (ubytes unit ! payload) 0x80 \<noteq> 0)"

record au_state =
  starts :: "nat list"
  au_has_slice :: bool
  nonvcl_run :: "nat option"

definition au_init :: au_state where
  "au_init = \<lparr>starts = [], au_has_slice = False, nonvcl_run = None\<rparr>"

definition au_boundary :: "uvc_frame_format \<Rightarrow> nal_unit \<Rightarrow> nat \<Rightarrow> au_state \<Rightarrow> nat option" where
  \<comment> \<open>the cut position of iteration \<open>i\<close>, \<open>None\<close> when \<open>boundary\<close> is \<open>FALSE\<close>\<close>
  "au_boundary format unit i st =
     (if starts st = [] then Some 0
      else if utype unit = UNIT_AUD then Some i
      else if nal_is_slice (utype unit) \<and> au_has_slice st \<and> nal_opens_new_picture format unit
        then Some (case nonvcl_run st of Some r \<Rightarrow> r | None \<Rightarrow> i)
      else None)"

definition au_note_unit :: "nal_unit \<Rightarrow> nat \<Rightarrow> au_state \<Rightarrow> au_state" where
  "au_note_unit unit i st =
     (if nal_is_slice (utype unit) then st\<lparr>au_has_slice := True, nonvcl_run := None\<rparr>
      else if nonvcl_run st = None then st\<lparr>nonvcl_run := Some i\<rparr>
      else st)"

fun split_loop ::
  "uvc_frame_format \<Rightarrow> nat \<Rightarrow> nat \<Rightarrow> nal_unit list \<Rightarrow> au_state \<Rightarrow> au_state" where
  "split_loop format max_starts i [] st = st"
| "split_loop format max_starts i (unit # units) st =
     (case au_boundary format unit i st of
        Some at \<Rightarrow>
          (if length (starts st) \<ge> max_starts then st
           else split_loop format max_starts (i + 1) units
             (au_note_unit unit i (st\<lparr>starts := starts st @ [at], au_has_slice := False\<rparr>)))
      | None \<Rightarrow> split_loop format max_starts (i + 1) units (au_note_unit unit i st))"

definition split_access_units ::
  "uvc_frame_format \<Rightarrow> nal_unit list \<Rightarrow> nat \<Rightarrow> nat list" where
  "split_access_units format units max_starts =
     starts (split_loop format max_starts 0 units au_init)"

subsection \<open>The loop invariant\<close>

text \<open>
  Before iteration \<open>i\<close>: the starts ascend strictly from \<open>0\<close>; the index recorded as the
  head of a non-VCL run lies past every slice seen so far and, once the current access
  unit holds a slice, past its start; all units from the run's head up to \<open>i\<close> are non-VCL.
\<close>

definition au_inv :: "nal_unit list \<Rightarrow> nat \<Rightarrow> au_state \<Rightarrow> bool" where
  "au_inv us i st \<longleftrightarrow>
     sorted_wrt (<) (starts st) \<and> (i = 0 \<longleftrightarrow> starts st = []) \<and>
     (starts st \<noteq> [] \<longrightarrow> hd (starts st) = 0) \<and> (\<forall>a \<in> set (starts st). a < i) \<and>
     (au_has_slice st \<longleftrightarrow>
        starts st \<noteq> [] \<and> (\<exists>j. last (starts st) \<le> j \<and> j < i \<and> nal_is_slice (utype (us ! j)))) \<and>
     (case nonvcl_run st of
        None \<Rightarrow> i = 0 \<or> nal_is_slice (utype (us ! (i - 1)))
      | Some r \<Rightarrow> r < i \<and> (\<forall>j. r \<le> j \<longrightarrow> j < i \<longrightarrow> \<not> nal_is_slice (utype (us ! j))) \<and>
          (r = 0 \<or> nal_is_slice (utype (us ! (r - 1)))))"

lemma au_inv_init: "au_inv us 0 au_init"
  by (simp add: au_inv_def au_init_def)

text \<open>In that state a cut always falls after the last start and never past \<open>i\<close>.\<close>

lemma au_boundary_range:
  assumes "au_inv us i st" "au_boundary format (us ! i) i st = Some at"
  shows "at \<le> i" "starts st \<noteq> [] \<Longrightarrow> last (starts st) < at" "starts st = [] \<Longrightarrow> at = 0"
    "\<forall>j. at \<le> j \<longrightarrow> j < i \<longrightarrow> \<not> nal_is_slice (utype (us ! j))"
  using assms
  by (auto simp: au_inv_def au_boundary_def dest!: last_in_set split: if_splits option.splits)
    (metis linorder_not_le order.strict_trans1 last_in_set)+


text \<open>
  What the cuts mean for the units seen so far: two slices of which the later one opens a
  picture are separated by a cut, every delimiter is a cut, and every cut is at the front,
  at a delimiter, or at the head of the non-VCL run that leads to a slice opening a picture.
\<close>

definition au_ok :: "uvc_frame_format \<Rightarrow> nal_unit list \<Rightarrow> nat \<Rightarrow> nat list \<Rightarrow> bool" where
  "au_ok format us i cuts \<longleftrightarrow>
     (\<forall>j k. j < k \<longrightarrow> k < i \<longrightarrow> nal_is_slice (utype (us ! j)) \<longrightarrow>
        nal_is_slice (utype (us ! k)) \<longrightarrow> nal_opens_new_picture format (us ! k) \<longrightarrow>
        (\<exists>a \<in> set cuts. j < a \<and> a \<le> k)) \<and>
     (\<forall>k < i. utype (us ! k) = UNIT_AUD \<longrightarrow> k \<in> set cuts) \<and>
     (\<forall>a \<in> set cuts. a = 0 \<or> utype (us ! a) = UNIT_AUD \<or>
        (\<exists>k \<ge> a. k < i \<and> nal_is_slice (utype (us ! k)) \<and>
           nal_opens_new_picture format (us ! k) \<and>
           (\<forall>j. a \<le> j \<longrightarrow> j < k \<longrightarrow> \<not> nal_is_slice (utype (us ! j)))))"

definition au_step :: "uvc_frame_format \<Rightarrow> nal_unit \<Rightarrow> nat \<Rightarrow> au_state \<Rightarrow> au_state" where
  "au_step format unit i st =
     au_note_unit unit i
       (case au_boundary format unit i st of
          Some at \<Rightarrow> st\<lparr>starts := starts st @ [at], au_has_slice := False\<rparr>
        | None \<Rightarrow> st)"

lemma AUD_not_slice: "nal_is_slice UNIT_AUD = False"
  by (simp add: nal_is_slice_def)

lemma starts_au_note [unit_simps]: "starts (au_note_unit u i st) = starts st"
  by (simp add: au_note_unit_def)

lemma au_has_slice_note [unit_simps]:
  "au_has_slice (au_note_unit u i st) \<longleftrightarrow> nal_is_slice (utype u) \<or> au_has_slice st"
  by (simp add: au_note_unit_def)

lemma nonvcl_run_note [unit_simps]:
  "nonvcl_run (au_note_unit u i st) =
     (if nal_is_slice (utype u) then None
      else case nonvcl_run st of None \<Rightarrow> Some i | Some r \<Rightarrow> Some r)"
  by (simp add: au_note_unit_def split: option.splits)

lemma starts_au_step [unit_simps]:
  "starts (au_step format u i st) =
     starts st @ (case au_boundary format u i st of Some at \<Rightarrow> [at] | None \<Rightarrow> [])"
  by (simp add: au_step_def unit_simps split: option.splits)

lemma nonvcl_run_step [unit_simps]:
  "nonvcl_run (au_step format u i st) = nonvcl_run (au_note_unit u i st)"
  by (simp add: au_step_def unit_simps split: option.splits)

lemma au_has_slice_step [unit_simps]:
  "au_has_slice (au_step format u i st) \<longleftrightarrow>
     nal_is_slice (utype u) \<or> au_boundary format u i st = None \<and> au_has_slice st"
  by (simp add: au_step_def unit_simps split: option.splits)

lemma au_boundary_first: "au_inv us i st \<Longrightarrow> au_boundary format u i st = None \<Longrightarrow> starts st \<noteq> []"
  by (auto simp: au_boundary_def)

lemma au_inv_step:
  assumes inv: "au_inv us i st"
  shows "au_inv us (Suc i) (au_step format (us ! i) i st)"
proof (cases "au_boundary format (us ! i) i st")
  case None
  have "last (starts st) \<le> i" "starts st \<noteq> []"
    using inv au_boundary_first [OF inv None] by (auto simp: au_inv_def less_imp_le)
  then show ?thesis
    using inv None by (auto simp: au_inv_def unit_simps less_Suc_eq split: option.splits)
next
  case (Some at)
  note r = au_boundary_range [OF inv Some]
  have asc: "a < at" if "a \<in> set (starts st)" for a
    using that r(2) inv strict_sorted_le_last [of "starts st" a] by (force simp: au_inv_def)
  have "hd (starts st @ [at]) = 0"
    using inv r(3) by (cases "starts st") (auto simp: au_inv_def)
  then show ?thesis
    using inv Some r asc
    by (auto simp: au_inv_def unit_simps less_Suc_eq sorted_wrt_append split: option.splits)
      (metis gr0I)+
qed

lemma au_ok_step:
  assumes inv: "au_inv us i st" and ok: "au_ok format us i (starts st)"
  shows "au_ok format us (Suc i) (starts (au_step format (us ! i) i st))"
proof -
  let ?b = "au_boundary format (us ! i) i st"
  have sep: "\<exists>at. ?b = Some at \<and> j < at \<and> at \<le> i \<or> (\<exists>a \<in> set (starts st). j < a \<and> a \<le> i)"
    if "j < i" "nal_is_slice (utype (us ! j))" "nal_is_slice (utype (us ! i))"
      "nal_opens_new_picture format (us ! i)" for j
  proof (cases "au_has_slice st")
    case True
    then have "\<exists>at. ?b = Some at" "starts st \<noteq> []"
      using that inv by (auto simp: au_boundary_def au_inv_def)
    then show ?thesis
      using au_boundary_range [OF inv] that by (metis linorder_not_le)
  next
    case False
    have "starts st \<noteq> []" using inv that(1) by (auto simp: au_inv_def)
    then have "j < last (starts st)" "last (starts st) \<in> set (starts st)" "last (starts st) < i"
      using False inv that by (auto simp: au_inv_def)
    then show ?thesis by (metis less_imp_le)
  qed
  have cut: "at = 0 \<or> utype (us ! at) = UNIT_AUD \<or>
      nal_is_slice (utype (us ! i)) \<and> nal_opens_new_picture format (us ! i) \<and> at \<le> i \<and>
      (\<forall>j. at \<le> j \<longrightarrow> j < i \<longrightarrow> \<not> nal_is_slice (utype (us ! j)))"
    if "?b = Some at" for at
    using that au_boundary_range [OF inv that] by (auto simp: au_boundary_def split: if_splits)
  have aud: "i = 0 \<and> ?b = Some 0 \<or> ?b = Some i" if "utype (us ! i) = UNIT_AUD"
    using that inv by (auto simp: au_boundary_def au_inv_def AUD_not_slice)
  have mono: "set (starts st) \<subseteq> set (starts (au_step format (us ! i) i st))"
    by (simp add: unit_simps)
  have new: "at \<in> set (starts (au_step format (us ! i) i st))" if "?b = Some at" for at
    using that by (simp add: unit_simps)
  show ?thesis
    unfolding au_ok_def
  proof (intro conjI allI ballI impI)
    fix j k
    assume jk: "j < k" "k < Suc i" "nal_is_slice (utype (us ! j))" "nal_is_slice (utype (us ! k))"
      "nal_opens_new_picture format (us ! k)"
    have "\<exists>a \<in> set (starts st). j < a \<and> a \<le> k" if "k < i"
      using ok jk that unfolding au_ok_def by blast
    then show "\<exists>a \<in> set (starts (au_step format (us ! i) i st)). j < a \<and> a \<le> k"
      using sep [of j] jk mono new by (cases "k = i") (auto simp: less_Suc_eq)
  next
    fix k
    assume "k < Suc i" "utype (us ! k) = UNIT_AUD"
    then show "k \<in> set (starts (au_step format (us ! i) i st))"
      using ok aud mono new by (auto simp: au_ok_def less_Suc_eq)
  next
    fix a
    assume "a \<in> set (starts (au_step format (us ! i) i st))"
    then consider "a \<in> set (starts st)" | "?b = Some a"
      by (auto simp: unit_simps split: option.splits)
    then show "a = 0 \<or> utype (us ! a) = UNIT_AUD \<or> (\<exists>k \<ge> a. k < Suc i \<and>
        nal_is_slice (utype (us ! k)) \<and> nal_opens_new_picture format (us ! k) \<and>
        (\<forall>j. a \<le> j \<longrightarrow> j < k \<longrightarrow> \<not> nal_is_slice (utype (us ! j))))"
    proof cases
      case 1
      with ok show ?thesis unfolding au_ok_def by (meson less_SucI)
    next
      case 2
      with cut show ?thesis by blast
    qed
  qed
qed

lemma split_loop_invs:
  assumes "au_inv us i st" "au_ok format us i (starts st)" "rest = drop i us" "i \<le> length us"
    and "length us \<le> m"
  shows "au_inv us (length us) (split_loop format m i rest st) \<and>
    au_ok format us (length us) (starts (split_loop format m i rest st))"
  using assms
proof (induction rest arbitrary: i st)
  case Nil
  then have "i = length us" by simp
  with Nil.prems(1,2) show ?case by simp
next
  case (Cons u rest)
  then have i: "i < length us" "u = us ! i" "rest = drop (Suc i) us"
    by (metis drop_eq_Nil linorder_not_le list.distinct(1),
        metis drop_eq_Nil linorder_not_le list.distinct(1) Cons_nth_drop_Suc list.inject,
        metis drop_Suc list.sel(3) tl_drop)
  have "length (starts st) \<le> i"
    using Cons.prems(1) by (intro strict_sorted_le_upper) (auto simp: au_inv_def)
  then have "split_loop format m i (u # rest) st =
      split_loop format m (Suc i) rest (au_step format (us ! i) i st)"
    using i Cons.prems(5) by (simp add: au_step_def split: option.splits)
  then show ?case
    using Cons.IH [OF au_inv_step [OF Cons.prems(1)] au_ok_step [OF Cons.prems(1,2)] i(3)] i
      Cons.prems(5) by simp
qed

lemma au_ok_init: "au_ok format us 0 (starts au_init)"
  by (simp add: au_ok_def au_init_def)

lemma split_access_units_invs:
  assumes "length units \<le> m"
  shows "au_inv units (length units) (split_loop format m 0 units au_init) \<and>
    au_ok format units (length units) (split_access_units format units m)"
  unfolding split_access_units_def
  by (rule split_loop_invs [OF au_inv_init au_ok_init]) (simp_all add: assms)

lemma split_access_units_sorted:
  assumes "length units \<le> m"
  shows "sorted_wrt (<) (split_access_units format units m)"
    "\<forall>a \<in> set (split_access_units format units m). a < length units"
    "units \<noteq> [] \<Longrightarrow> split_access_units format units m \<noteq> [] \<and>
       hd (split_access_units format units m) = 0"
    "units = [] \<Longrightarrow> split_access_units format units m = []"
  using split_access_units_invs [OF assms, of format]
  by (auto simp: split_access_units_def au_inv_def au_init_def)

subsection \<open>Properties of the splitter\<close>

text \<open>
  The access units partition the units of a delivery: the starts ascend strictly from
  \<open>0\<close> within the array, so cutting there loses, repeats and reorders no unit.
\<close>
theorem split_partitions_units:
  assumes "length units \<le> max_starts"
  shows "concat (cut (split_access_units format units max_starts) (length units) units) = units \<and>
    sorted_wrt (<) (split_access_units format units max_starts) \<and>
    length (split_access_units format units max_starts) \<le> length units"
proof -
  note S = split_access_units_sorted [OF assms, of format]
  have "concat (cut (split_access_units format units max_starts) (length units) units) = units"
  proof (cases "units = []")
    case True
    then show ?thesis using S(4) by simp
  next
    case False
    then obtain st where st: "split_access_units format units max_starts = 0 # st"
      using S(3) by (cases "split_access_units format units max_starts") auto
    have "concat (cut (0 # st) (length units) units) = segment 0 (length units) units"
      using S(1,2) st by (intro concat_cut) (auto simp: strict_sorted_imp_sorted less_imp_le)
    then show ?thesis by (simp add: st)
  qed
  then show ?thesis using S(1,2) by (auto intro: strict_sorted_le_upper)
qed

definition demo_units :: "nal_unit list" where
  \<comment> \<open>a delimiter, a two-slice picture, a set and a second picture\<close>
  "demo_units =
     [\<lparr>utype = UNIT_AUD, ubytes = [0, 0, 1, 9]\<rparr>,
      \<lparr>utype = UNIT_FRAME_IDR, ubytes = [0, 0, 1, 0x65, 0x80]\<rparr>,
      \<lparr>utype = UNIT_FRAME_IDR, ubytes = [0, 0, 1, 0x65, 0x40]\<rparr>,
      \<lparr>utype = UNIT_SPS, ubytes = [0, 0, 1, 0x67]\<rparr>,
      \<lparr>utype = UNIT_FRAME_NON_IDR, ubytes = [0, 0, 1, 0x41, 0x80]\<rparr>]"

lemma split_partitions_units_witness:
  "length demo_units \<le> 5 \<and> split_access_units UVC_FRAME_FORMAT_H264 demo_units 5 = [0, 3] \<and>
   concat (cut [0, 3] (length demo_units) demo_units) = demo_units"
proof -
  have "length demo_units \<le> 5" by (simp add: demo_units_def)
  moreover have "split_access_units UVC_FRAME_FORMAT_H264 demo_units 5 = [0, 3]" by code_simp
  ultimately show ?thesis
    using split_partitions_units [of demo_units 5 UVC_FRAME_FORMAT_H264] by simp
qed

text \<open>
  Claim C13. The cuts are where pictures begin: a slice that opens a picture is separated from
  every slice before it, a delimiter always starts an access unit, and a cut is made nowhere
  else than at the front, at a delimiter, or at the head of the run of other units that leads
  to an opening slice (so slices of one picture stay together).
\<close>
theorem split_at_pictures:
  assumes "length units \<le> max_starts" "cuts = split_access_units format units max_starts"
  shows "(\<forall>j k. j < k \<longrightarrow> k < length units \<longrightarrow> nal_is_slice (utype (units ! j)) \<longrightarrow>
      nal_is_slice (utype (units ! k)) \<longrightarrow> nal_opens_new_picture format (units ! k) \<longrightarrow>
      (\<exists>a \<in> set cuts. j < a \<and> a \<le> k))
    \<and> (\<forall>k < length units. utype (units ! k) = UNIT_AUD \<longrightarrow> k \<in> set cuts)
    \<and> (\<forall>a \<in> set cuts. a = 0 \<or> utype (units ! a) = UNIT_AUD \<or>
      (\<exists>k \<ge> a. k < length units \<and> nal_is_slice (utype (units ! k)) \<and>
         nal_opens_new_picture format (units ! k) \<and>
         (\<forall>j. a \<le> j \<longrightarrow> j < k \<longrightarrow> \<not> nal_is_slice (utype (units ! j)))))"
  using split_access_units_invs [OF assms(1), of format] unfolding au_ok_def assms(2) by blast

lemma split_at_pictures_witness:
  "\<exists>a \<in> set (split_access_units UVC_FRAME_FORMAT_H264 demo_units 5). 2 < a \<and> a \<le> 4"
proof -
  have "length demo_units \<le> 5" "nal_is_slice (utype (demo_units ! 2))"
      "nal_is_slice (utype (demo_units ! 4))"
      "nal_opens_new_picture UVC_FRAME_FORMAT_H264 (demo_units ! 4)"
    by code_simp+
  moreover have "(4::nat) < length demo_units" by (simp add: demo_units_def)
  ultimately show ?thesis
    using split_at_pictures [of demo_units 5 _ UVC_FRAME_FORMAT_H264, OF _ refl] by simp
qed

end
