(* ===== verification/CachePath.thy ===== *)
theory CachePath
  imports Base
begin

text \<open>
  The cache path builder of \<open>spspps_path.h\<close>. A C string is the list of its characters, the
  terminating NUL left out; \<open>snprintf\<close> of \<open>%s\<close> and \<open>%d\<close> is concatenation and decimal
  printing, and its result is refused when it does not fit the output array, as the code
  does. The 768-byte \<open>key\<close> array and its two capacity checks are kept.
\<close>

subsection \<open>Printing an int in decimal\<close>

definition digits :: string where "digits = ''0123456789''"

fun dec_nat :: "nat \<Rightarrow> string" where
  "dec_nat n = (if n < 10 then [digits ! n] else dec_nat (n div 10) @ [digits ! (n mod 10)])"

declare dec_nat.simps [simp del]

definition dec_int :: "int \<Rightarrow> string" where
  "dec_int i = (if i < 0 then CHR ''-'' # dec_nat (nat (- i)) else dec_nat (nat i))"

lemma length_digits [simp]: "length digits = 10"
  by (simp add: digits_def)

lemma digit_inj: "m < 10 \<Longrightarrow> n < 10 \<Longrightarrow> digits ! m = digits ! n \<longleftrightarrow> m = n"
  by (rule nth_eq_iff_index_eq) (simp_all add: digits_def)

lemma digit_mem: "n < 10 \<Longrightarrow> digits ! n \<in> set digits"
  by (rule nth_mem) simp

lemma set_dec_nat: "set (dec_nat n) \<subseteq> set digits"
proof (induction n rule: dec_nat.induct)
  case (1 n)
  then show ?case by (subst dec_nat.simps) (auto simp: digit_mem)
qed

lemma dec_nat_nonempty [simp]: "dec_nat n \<noteq> []"
  by (subst dec_nat.simps) simp

lemmas dec_nat_nonempty' [simp] = dec_nat_nonempty [symmetric]

lemma dec_nat_inj: "dec_nat m = dec_nat n \<Longrightarrow> m = n"
proof (induction m arbitrary: n rule: dec_nat.induct)
  case (1 m)
  show ?case
  proof (cases "m < 10 \<or> n < 10")
    case True
    then have "m < 10 \<and> n < 10"
      using "1.prems" by (auto simp: dec_nat.simps [of m] dec_nat.simps [of n] split: if_splits)
    then show ?thesis
      using "1.prems" by (simp add: dec_nat.simps [of m] dec_nat.simps [of n] digit_inj)
  next
    case False
    then have "dec_nat (m div 10) = dec_nat (n div 10)" "m mod 10 = n mod 10"
      using "1.prems" by (auto simp: dec_nat.simps [of m] dec_nat.simps [of n] digit_inj)
    with "1.IH" False have "m div 10 = n div 10" by simp
    with \<open>m mod 10 = n mod 10\<close> show ?thesis by (metis div_mult_mod_eq)
  qed
qed

lemma hyphen_not_digit: "CHR ''-'' \<notin> set digits"
  by (simp add: digits_def)

lemma dec_int_inj: "dec_int i = dec_int j \<Longrightarrow> i = j"
proof -
  have neq: "CHR ''-'' # xs \<noteq> dec_nat n" for xs n
    using set_dec_nat [of n] hyphen_not_digit by (metis list.set_intros(1) subsetD)
  assume "dec_int i = dec_int j"
  then show "i = j"
    using neq neq [symmetric] dec_nat_inj
    by (fastforce simp: dec_int_def split: if_splits)
qed

lemma set_dec_int: "set (dec_int i) \<subseteq> insert (CHR ''-'') (set digits)"
  using set_dec_nat by (auto simp: dec_int_def)

subsection \<open>Escaping the device selector\<close>

definition is_safe :: "char \<Rightarrow> bool" where
  "is_safe c \<longleftrightarrow>
     (let n = of_char c :: nat in
      (65 \<le> n \<and> n \<le> 90) \<or> (97 \<le> n \<and> n \<le> 122) \<or> (48 \<le> n \<and> n \<le> 57) \<or> n = 45)"

definition hexd :: string where "hexd = ''0123456789ABCDEF''"

definition escape_char :: "char \<Rightarrow> string" where
  "escape_char c =
     (if is_safe c then [c]
      else [CHR ''_'', hexd ! (of_char c div 16 mod 16), hexd ! (of_char c mod 16)])"

definition key_capacity :: nat where "key_capacity = 768"

fun escape_loop :: "string \<Rightarrow> string \<Rightarrow> string option" where
  "escape_loop key [] = Some key"
| "escape_loop key (c # cs) =
     (if is_safe c then
        (if length key + 1 \<ge> key_capacity then None
         else escape_loop (key @ [c]) cs)
      else
        (if length key + 3 \<ge> key_capacity then None
         else escape_loop (key @ escape_char c) cs))"

definition snprintf_fits :: "nat \<Rightarrow> string \<Rightarrow> string option" where
  "snprintf_fits outlen s = (if length s \<ge> outlen then None else Some s)"

definition codec_name :: "bool \<Rightarrow> string" where
  "codec_name is_h265 = (if is_h265 then ''h265'' else ''h264'')"

definition spspps_build_path ::
  "nat \<Rightarrow> string option \<Rightarrow> string option \<Rightarrow> bool \<Rightarrow> int \<Rightarrow> int \<Rightarrow> string option" where
  "spspps_build_path outlen home_dir index is_h265 width height =
     (if outlen = 0 then None
      else
        let home = (case home_dir of None \<Rightarrow> [] | Some h \<Rightarrow> h) in
        case index of
          None \<Rightarrow> snprintf_fits outlen (home @ ''/.spspps'')
        | Some idx \<Rightarrow>
            (case escape_loop [] idx of
               None \<Rightarrow> None
             | Some key \<Rightarrow>
                 snprintf_fits outlen
                   (home @ ''/.spspps/'' @ key @ ''_'' @ codec_name is_h265 @ ''_'' @
                    dec_int width @ ''x'' @ dec_int height)))"


subsection \<open>Prefix codes\<close>

text \<open>
  What makes the escaped selector unambiguous: no code word is empty or a prefix of the
  continuation of another one. The decoding argument needs nothing else of the encoding.
\<close>

locale prefix_code =
  fixes enc :: "'a \<Rightarrow> 'b list"
  assumes enc_nonempty: "enc x \<noteq> []"
    and enc_prefix_free: "enc x @ r = enc y @ s \<Longrightarrow> x = y"
begin

lemma encode_inj: "concat (map enc xs) = concat (map enc ys) \<Longrightarrow> xs = ys"
proof (induction xs arbitrary: ys)
  case Nil
  then show ?case by (cases ys) (auto simp: enc_nonempty)
next
  case (Cons x xs)
  obtain y ys' where ys: "ys = y # ys'"
    using Cons.prems enc_nonempty [of x] by (cases ys) auto
  then have "x = y" using Cons.prems enc_prefix_free by auto
  with Cons ys show ?case by auto
qed

lemma encode_inj_iff: "concat (map enc xs) = concat (map enc ys) \<longleftrightarrow> xs = ys"
  using encode_inj by auto

end

lemma underscore_unsafe [simp]: "\<not> is_safe (CHR ''_'')"
  by (simp add: is_safe_def)

lemma length_hexd [simp]: "length hexd = 16"
  by (simp add: hexd_def)

lemma hexd_inj: "m < 16 \<Longrightarrow> n < 16 \<Longrightarrow> hexd ! m = hexd ! n \<longleftrightarrow> m = n"
  by (rule nth_eq_iff_index_eq) (simp_all add: hexd_def)

lemma hexd_safe: "n < 16 \<Longrightarrow> is_safe (hexd ! n)"
proof -
  have "\<forall>c \<in> set hexd. is_safe c" by (simp add: hexd_def is_safe_def)
  then show "n < 16 \<Longrightarrow> is_safe (hexd ! n)" by simp
qed

lemma of_char_bound: "of_char c < (256 :: nat)"
  using range_nat_of_char by auto

lemma escape_char_prefix_free: "escape_char c @ r = escape_char d @ s \<Longrightarrow> c = d"
proof -
  assume eq: "escape_char c @ r = escape_char d @ s"
  have "c = d" if "\<not> is_safe c" "\<not> is_safe d"
  proof -
    have "of_char c div 16 mod 16 = (of_char d div 16 mod 16 :: nat)"
        "of_char c mod 16 = (of_char d mod 16 :: nat)"
      using eq that by (simp_all add: escape_char_def hexd_inj)
    moreover have "of_char c div 16 < (16::nat)" "of_char d div 16 < (16::nat)"
      using of_char_bound [of c] of_char_bound [of d] by (simp_all add: less_mult_imp_div_less)
    ultimately have "of_char c = (of_char d :: nat)"
      by (metis div_mult_mod_eq mod_less)
    then show ?thesis by simp
  qed
  with eq show "c = d" by (auto simp: escape_char_def split: if_splits)
qed

interpretation escape: prefix_code escape_char
  by unfold_locales (auto simp: escape_char_def escape_char_prefix_free split: if_splits)

subsection \<open>The escaped key\<close>

definition escape_key :: "string \<Rightarrow> string" where
  "escape_key idx = concat (map escape_char idx)"

lemma escape_loop_eq:
  "length key < key_capacity \<Longrightarrow>
   escape_loop key cs =
     (if length (key @ escape_key cs) < key_capacity then Some (key @ escape_key cs) else None)"
proof (induction cs arbitrary: key)
  case (Cons c cs)
  then show ?case
    by (auto simp: escape_key_def escape_char_def Let_def)
qed (simp add: escape_key_def)

lemma escape_loop_Some:
  "escape_loop [] idx = Some key \<longleftrightarrow> key = escape_key idx \<and> length (escape_key idx) < 768"
  using escape_loop_eq [of "[]" idx] by (auto simp: key_capacity_def)

lemma escape_loop_None:
  "escape_loop [] idx = None \<longleftrightarrow> \<not> length (escape_key idx) < 768"
  using escape_loop_eq [of "[]" idx] by (auto simp: key_capacity_def)

lemma set_escape_key: "set (escape_key idx) \<subseteq> insert (CHR ''_'') {c. is_safe c}"
  by (auto simp: escape_key_def escape_char_def hexd_safe split: if_splits)

lemma length_escape_key: "length (escape_key idx) \<le> 3 * length idx"
  by (induction idx) (auto simp: escape_key_def escape_char_def)

lemma escape_key_safe: "\<forall>c \<in> set idx. is_safe c \<Longrightarrow> escape_key idx = idx"
  by (induction idx) (auto simp: escape_key_def escape_char_def)

lemma digits_safe: "set digits \<subseteq> {c. is_safe c}"
  by (simp add: digits_def is_safe_def)

definition cache_file_name :: "string \<Rightarrow> bool \<Rightarrow> int \<Rightarrow> int \<Rightarrow> string" where
  "cache_file_name idx is_h265 width height =
     escape_key idx @ ''_'' @ codec_name is_h265 @ ''_'' @ dec_int width @ ''x'' @ dec_int height"

lemma build_path_Some:
  "spspps_build_path n (Some home) (Some idx) c w h = Some p \<longleftrightarrow>
   p = home @ ''/.spspps/'' @ cache_file_name idx c w h \<and> length p < n \<and>
   length (escape_key idx) < 768"
  by (auto simp: spspps_build_path_def escape_loop_Some escape_loop_None snprintf_fits_def cache_file_name_def Let_def
      split: option.splits)

lemma split_at_last:
  assumes "xs @ x # ys = xs' @ x # ys'" "x \<notin> set ys" "x \<notin> set ys'"
  shows "xs = xs' \<and> ys = ys'"
  using assms
proof (induction ys arbitrary: ys' rule: rev_induct)
  case Nil
  then show ?case by (cases ys' rule: rev_cases) (auto simp flip: append_assoc append_Cons)
next
  case (snoc y ys)
  then show ?case
    by (cases ys' rule: rev_cases) (auto simp flip: append_assoc append_Cons)
qed

lemma dec_int_chars: "CHR ''_'' \<notin> set (dec_int i)" "CHR ''x'' \<notin> set (dec_int i)"
    "CHR ''/'' \<notin> set (dec_int i)" "CHR ''.'' \<notin> set (dec_int i)"
  using set_dec_int [of i] by (auto simp: digits_def)

lemma cache_file_name_inj:
  assumes "cache_file_name i c w h = cache_file_name i' c' w' h'"
  shows "i = i' \<and> c = c' \<and> w = w' \<and> h = h'"
proof -
  let ?d = "\<lambda>w h. dec_int w @ CHR ''x'' # dec_int h"
  have "(escape_key i @ CHR ''_'' # codec_name c) @ CHR ''_'' # ?d w h =
      (escape_key i' @ CHR ''_'' # codec_name c') @ CHR ''_'' # ?d w' h'"
    using assms by (simp add: cache_file_name_def)
  moreover have "CHR ''_'' \<notin> set (?d w h)" "CHR ''_'' \<notin> set (?d w' h')"
    by (simp_all add: dec_int_chars)
  ultimately have
      "escape_key i @ CHR ''_'' # codec_name c = escape_key i' @ CHR ''_'' # codec_name c' \<and>
       ?d w h = ?d w' h'"
    by (rule split_at_last)
  then have dims:
      "escape_key i @ CHR ''_'' # codec_name c = escape_key i' @ CHR ''_'' # codec_name c'"
      "?d w h = ?d w' h'"
    by simp_all
  have codec: "CHR ''_'' \<notin> set (codec_name b)" for b
    by (simp add: codec_name_def)
  have key: "escape_key i = escape_key i' \<and> codec_name c = codec_name c'"
    by (rule split_at_last [OF dims(1) codec codec])
  have dim: "dec_int w = dec_int w' \<and> dec_int h = dec_int h'"
    by (rule split_at_last [OF dims(2) dec_int_chars(2) dec_int_chars(2)])
  show ?thesis
    using key dim dec_int_inj escape.encode_inj [of i i']
    by (simp add: escape_key_def codec_name_def split: if_splits)
qed

subsection \<open>Properties of the path\<close>

text \<open>
  Claim C24. Two cameras or two modes never share a cache file: under one home directory the path
  determines the selector, the codec, the width and the height it was built from.
\<close>
theorem cache_path_injective:
  assumes "spspps_build_path n (Some home) (Some i) c w h = Some p"
    and "spspps_build_path n (Some home) (Some i') c' w' h' = Some p"
  shows "i = i' \<and> c = c' \<and> w = w' \<and> h = h'"
  using assms cache_file_name_inj [of i c w h i' c' w' h'] by (simp add: build_path_Some)

lemma cache_path_injective_witness:
  "spspps_build_path 4096 (Some ''/h'') (Some ''a_b'') True 1920 1080 \<noteq>
   spspps_build_path 4096 (Some ''/h'') (Some ''a'') True 1920 1080"
proof
  assume eq: "spspps_build_path 4096 (Some ''/h'') (Some ''a_b'') True 1920 1080 =
      spspps_build_path 4096 (Some ''/h'') (Some ''a'') True 1920 1080"
  have "spspps_build_path 4096 (Some ''/h'') (Some ''a_b'') True 1920 1080 =
      Some ''/h/.spspps/a_5Fb_h265_1920x1080''"
    by code_simp
  then show False
    using cache_path_injective [of 4096 "''/h''" "''a_b''" True 1920 1080 _ "''a''" True 1920 1080]
      eq by simp
qed

text \<open>
  Claim C25. A selector cannot escape the cache directory: whatever characters it holds, the file
  name below \<open>.spspps\<close> contains neither a slash nor a dot.
\<close>
theorem cache_path_confined:
  assumes "spspps_build_path n (Some home) (Some idx) c w h = Some p"
  shows "\<exists>name. p = home @ ''/.spspps/'' @ name \<and> CHR ''/'' \<notin> set name \<and> CHR ''.'' \<notin> set name
    \<and> length p < n"
proof -
  have "\<not> is_safe (CHR ''/'')" "\<not> is_safe (CHR ''.'')" by (simp_all add: is_safe_def)
  then have "CHR ''/'' \<notin> set (escape_key idx)" "CHR ''.'' \<notin> set (escape_key idx)"
    using set_escape_key [of idx] by auto
  then have "CHR ''/'' \<notin> set (cache_file_name idx c w h)"
      "CHR ''.'' \<notin> set (cache_file_name idx c w h)"
    by (auto simp: cache_file_name_def codec_name_def dec_int_chars)
  with assms show ?thesis by (auto simp: build_path_Some)
qed

lemma cache_path_confined_witness:
  "spspps_build_path 64 (Some ''/h'') (Some ''../x'') False 640 480 =
     Some ''/h/.spspps/_2E_2E_2Fx_h264_640x480'' \<and>
   (\<exists>name. ''/h/.spspps/_2E_2E_2Fx_h264_640x480'' = ''/h'' @ ''/.spspps/'' @ name \<and>
      CHR ''/'' \<notin> set name)"
proof -
  have "spspps_build_path 64 (Some ''/h'') (Some ''../x'') False 640 480 =
     Some ''/h/.spspps/_2E_2E_2Fx_h264_640x480''"
    by code_simp
  then show ?thesis using cache_path_confined by blast
qed

end
