(* ===== verification/PipelineState.thy ===== *)
theory PipelineState
  imports AccessUnit
begin

text \<open>
  The fields of \<open>struct _GstLibuvcH264Src\<close> the media path works on, the buffers it queues
  and the parameter-set arrays. A parameter set is a 1024-byte array and a \<open>gint\<close> length
  of which only the first \<open>length\<close> bytes mean anything, as in the C struct. A buffer's
  memory is a list of optional bytes: \<open>None\<close> is a byte nothing has written yet.
  \<open>GAsyncQueue\<close> is its documented contents, a list with the oldest item first.
\<close>

definition SPSPPSBUFSZ :: nat where "SPSPPSBUFSZ = 1024"

record param_set =
  psbuf :: "byte list"
  pslen :: int

definition set_bytes :: "param_set \<Rightarrow> byte list" where
  "set_bytes ps = take (nat (pslen ps)) (psbuf ps)"

definition set_wf :: "param_set \<Rightarrow> bool" where
  "set_wf ps \<longleftrightarrow> length (psbuf ps) = SPSPPSBUFSZ \<and> 0 \<le> pslen ps \<and> pslen ps \<le> int SPSPPSBUFSZ"

definition memcpy_set :: "param_set \<Rightarrow> byte list \<Rightarrow> param_set" where
  \<comment> \<open>\<open>memcpy(dst, ptr, len); *dst_len = len\<close>\<close>
  "memcpy_set ps bs = ps\<lparr>psbuf := bs @ drop (length bs) (psbuf ps), pslen := int (length bs)\<rparr>"

definition unit_storable :: "nal_unit \<Rightarrow> bool" where
  \<comment> \<open>not \<open>len == 0 || len > SPSPPSBUFSZ\<close>\<close>
  "unit_storable u \<longleftrightarrow> ulen u \<noteq> 0 \<and> ulen u \<le> SPSPPSBUFSZ"

record gst_buffer =
  content :: "byte option list"
  buf_pts :: u64
  buf_dts :: u64
  buf_duration :: u64
  buf_offset :: u64
  buf_offset_end :: u64

datatype queue_item = Frame gst_buffer | Flush_sentinel

record pipeline =
  frame_format :: uvc_frame_format
  index :: "string option"
  negotiated_width :: int
  negotiated_height :: int
  frame_queue :: "queue_item list"
  clock :: "nat option"
  base_time :: u64
  prev_pts :: u64
  frame_interval :: int
  frame_offset :: u64
  had_idr :: bool
  send_sps_pps :: bool
  vps :: param_set
  sps :: param_set
  pps :: param_set

definition sets_wf :: "pipeline \<Rightarrow> bool" where
  "sets_wf s \<longleftrightarrow> set_wf (vps s) \<and> set_wf (sps s) \<and> set_wf (pps s)"

definition array_of :: "byte list \<Rightarrow> byte list" where
  \<comment> \<open>a zero-initialised \<open>SPSPPSBUFSZ\<close> array whose front is overwritten\<close>
  "array_of bs = bs @ replicate (SPSPPSBUFSZ - length bs) 0"

definition default_sps :: "byte list" where
  "default_sps =
    [0x00, 0x00, 0x00, 0x01, 0x67, 0x64, 0x00, 0x34, 0xAC, 0x4D, 0x00, 0xF0, 0x04, 0x4F, 0xCB,
     0x35, 0x01, 0x01, 0x01, 0x40, 0x00, 0x00, 0xFA, 0x00, 0x00, 0x3A, 0x98, 0x03, 0xC7, 0x0C,
     0xA8]"

definition default_pps :: "byte list" where
  "default_pps = [0x00, 0x00, 0x00, 0x01, 0x68, 0xEE, 0x3C, 0xB0]"

definition pipeline_init :: "uvc_frame_format \<Rightarrow> pipeline" where
  \<comment> \<open>the media fields \<open>gst_libuvc_h264_src_init\<close> leaves, the rest zeroed by the
     allocation; \<open>frame_format\<close> is zero there and set by negotiation, so it is an argument\<close>
  "pipeline_init fmt =
     \<lparr>frame_format = fmt, index = Some ''0'', negotiated_width = 0, negotiated_height = 0,
      frame_queue = [], clock = None, base_time = G_MAXUINT64, prev_pts = G_MAXUINT64,
      frame_interval = 0, frame_offset = 0, had_idr = False, send_sps_pps = False,
      vps = \<lparr>psbuf = array_of [], pslen = 0\<rparr>,
      sps = \<lparr>psbuf = array_of default_sps, pslen = int (length default_sps)\<rparr>,
      pps = \<lparr>psbuf = array_of default_pps, pslen = int (length default_pps)\<rparr>\<rparr>"

subsection \<open>Parameter-set arrays\<close>

lemma set_bytes_memcpy [elem_simps]: "set_bytes (memcpy_set ps bs) = bs"
  by (simp add: set_bytes_def memcpy_set_def)

lemma set_wf_memcpy [inv_intros]:
  "set_wf ps \<Longrightarrow> length bs \<le> SPSPPSBUFSZ \<Longrightarrow> set_wf (memcpy_set ps bs)"
  by (simp add: set_wf_def memcpy_set_def)

lemma length_set_bytes: "set_wf ps \<Longrightarrow> length (set_bytes ps) = nat (pslen ps)"
  by (auto simp: set_wf_def set_bytes_def min_def nat_le_iff)

lemma set_wf_array_of:
  "length bs \<le> SPSPPSBUFSZ \<Longrightarrow> set_wf \<lparr>psbuf = array_of bs, pslen = int (length bs)\<rparr>"
  by (simp add: set_wf_def array_of_def)

lemma set_bytes_array_of: "set_bytes \<lparr>psbuf = array_of bs, pslen = int (length bs)\<rparr> = bs"
  by (simp add: set_bytes_def array_of_def)

lemma sets_wf_init: "sets_wf (pipeline_init fmt)"
  using set_wf_array_of [of "[]"] set_wf_array_of [of default_sps] set_wf_array_of [of default_pps]
  by (simp add: sets_wf_def pipeline_init_def default_sps_def default_pps_def SPSPPSBUFSZ_def)

end
