(* ===== verification/SpsPpsCache.thy ===== *)
theory SpsPpsCache
  imports PipelineState CachePath
begin

text \<open>
  The SPS/PPS disk cache of \<open>spspps_cache.c\<close>: the key snapshot, the path, creation of the
  cache directory, \<open>load_spspps\<close> and \<open>store_spspps\<close>.

  The file system is explicit state: regular files with their contents, directories, the
  \<open>HOME\<close> variable, and what the operating system answers to \<open>mkdir\<close> and \<open>fopen\<close>, which are
  arbitrary functions of the path (and, for \<open>fopen\<close>, of the directories and the mode).
  \<open>fopen\<close> with \<open>w\<close> truncates; \<open>fread\<close> returns up to the buffer size; \<open>fwrite\<close> writes
  all bytes (a full disk is not modelled).
\<close>

definition SPSPPS_INDEX_MAX :: nat where "SPSPPS_INDEX_MAX = 256"
definition DIRBUFLEN :: nat where "DIRBUFLEN = 4096"

record spspps_key =
  key_index :: string
  have_index :: bool
  key_h265 :: bool
  key_width :: int
  key_height :: int

record fsys =
  files :: "string \<Rightarrow> byte list option"
  dirs :: "string list"
  home :: "string option"
  mkdir_ok :: "string \<Rightarrow> bool"
  fopen_ok :: "string list \<Rightarrow> string \<Rightarrow> char \<Rightarrow> bool"

definition spspps_clamp_len :: "int \<Rightarrow> nat" where
  "spspps_clamp_len len =
     (if len \<le> 0 then 0
      else if nat len > SPSPPSBUFSZ then SPSPPSBUFSZ else nat len)"

definition g_strlcpy :: "nat \<Rightarrow> string \<Rightarrow> string" where
  "g_strlcpy n src = take (n - 1) src"

definition spspps_key_snapshot :: "pipeline \<Rightarrow> spspps_key" where
  "spspps_key_snapshot self =
     (case index self of
        Some i \<Rightarrow>
          \<lparr>key_index = g_strlcpy SPSPPS_INDEX_MAX i, have_index = True,
           key_h265 = (frame_format self = UVC_FRAME_FORMAT_H265),
           key_width = negotiated_width self, key_height = negotiated_height self\<rparr>
      | None \<Rightarrow>
          \<lparr>key_index = [], have_index = False,
           key_h265 = (frame_format self = UVC_FRAME_FORMAT_H265),
           key_width = negotiated_width self, key_height = negotiated_height self\<rparr>)"

definition spspps_home_dir :: "fsys \<Rightarrow> string" where
  "spspps_home_dir fs = (case home fs of None \<Rightarrow> [] | Some h \<Rightarrow> h)"

definition get_spspps_path :: "fsys \<Rightarrow> spspps_key \<Rightarrow> string option" where
  "get_spspps_path fs key =
     spspps_build_path DIRBUFLEN (Some (spspps_home_dir fs))
       (if have_index key then Some (key_index key) else None)
       (key_h265 key) (key_width key) (key_height key)"

definition create_hidden_directory :: "fsys \<Rightarrow> fsys" where
  "create_hidden_directory fs =
     (case spspps_build_path DIRBUFLEN (Some (spspps_home_dir fs)) None False 0 0 of
        None \<Rightarrow> fs
      | Some hidden_dir \<Rightarrow>
          if hidden_dir \<in> set (dirs fs) \<or> files fs hidden_dir \<noteq> None then fs
          else if mkdir_ok fs hidden_dir then fs\<lparr>dirs := hidden_dir # dirs fs\<rparr>
          else fs)"

definition open_spspps_file :: "fsys \<Rightarrow> spspps_key \<Rightarrow> char \<Rightarrow> fsys \<times> string option" where
  \<comment> \<open>\<open>None\<close> is the \<open>NULL\<close> stream; opening for writing truncates\<close>
  "open_spspps_file fs key mode =
     (let fs1 = (if mode = CHR ''w'' \<or> mode = CHR ''a'' then create_hidden_directory fs else fs)
      in case get_spspps_path fs1 key of
           None \<Rightarrow> (fs1, None)
         | Some p \<Rightarrow>
             if \<not> fopen_ok fs1 (dirs fs1) p mode then (fs1, None)
             else if mode = CHR ''r'' then (fs1, if files fs1 p = None then None else Some p)
             else if mode = CHR ''w'' then (fs1\<lparr>files := (files fs1)(p := Some [])\<rparr>, Some p)
             else (fs1, Some p))"

definition load_unit :: "nal_unit \<Rightarrow> pipeline \<Rightarrow> pipeline" where
  \<comment> \<open>one turn of the \<open>switch\<close> in \<open>load_spspps\<close>\<close>
  "load_unit u self =
     (case utype u of
        UNIT_VPS \<Rightarrow> if \<not> unit_storable u then self
                    else self\<lparr>vps := memcpy_set (vps self) (ubytes u)\<rparr>
      | UNIT_SPS \<Rightarrow> if \<not> unit_storable u then self
                    else self\<lparr>sps := memcpy_set (sps self) (ubytes u)\<rparr>
      | UNIT_PPS \<Rightarrow> if \<not> unit_storable u then self
                    else self\<lparr>pps := memcpy_set (pps self) (ubytes u)\<rparr>
      | _ \<Rightarrow> self)"

definition load_spspps :: "fsys \<Rightarrow> spspps_key \<Rightarrow> pipeline \<Rightarrow> pipeline" where
  "load_spspps fs key self =
     (case open_spspps_file fs key (CHR ''r'') of
        (_, None) \<Rightarrow> self
      | (fs1, Some p) \<Rightarrow>
          let buf = take (SPSPPSBUFSZ * 3) (the (files fs1 p))
          in fold load_unit (parse_nal_units (frame_format self) 3 buf) self)"

definition fwrite_set :: "param_set \<Rightarrow> byte list" where
  \<comment> \<open>the bytes \<open>fwrite(self->xps, 1, spspps_clamp_len(self->xps_length), fp)\<close> writes\<close>
  "fwrite_set ps = take (spspps_clamp_len (pslen ps)) (psbuf ps)"

definition store_spspps :: "pipeline \<Rightarrow> spspps_key \<Rightarrow> fsys \<Rightarrow> fsys" where
  "store_spspps self key fs =
     (case open_spspps_file fs key (CHR ''w'') of
        (fs1, None) \<Rightarrow> fs1
      | (fs1, Some p) \<Rightarrow>
          fs1\<lparr>files := (files fs1)(p \<mapsto>
            (if key_h265 key then fwrite_set (vps self) else [])
            @ fwrite_set (sps self) @ fwrite_set (pps self))\<rparr>)"


subsection \<open>Loading keeps the arrays sound\<close>

lemma load_unit_frame [elem_simps]:
  "frame_format (load_unit u s) = frame_format s" "frame_queue (load_unit u s) = frame_queue s"
  "had_idr (load_unit u s) = had_idr s" "send_sps_pps (load_unit u s) = send_sps_pps s"
  "prev_pts (load_unit u s) = prev_pts s" "base_time (load_unit u s) = base_time s"
  "frame_offset (load_unit u s) = frame_offset s"
  by (cases "utype u"; simp add: load_unit_def)+

lemma load_unit_wf [inv_intros]: "sets_wf s \<Longrightarrow> sets_wf (load_unit u s)"
  by (cases "utype u") (auto simp: load_unit_def sets_wf_def unit_storable_def inv_intros)

lemma load_unit_queue [simp]: "frame_queue (load_unit u s) = frame_queue s"
  by (cases "utype u") (simp_all add: load_unit_def)

lemma load_spspps_queue [simp]: "frame_queue (load_spspps fs key s) = frame_queue s"
proof -
  have "frame_queue (fold load_unit us s) = frame_queue s" for us s
    by (induction us arbitrary: s) simp_all
  then show ?thesis by (auto simp: load_spspps_def Let_def split: prod.split option.split)
qed

lemma fold_load_unit_wf: "sets_wf s \<Longrightarrow> sets_wf (fold load_unit us s)"
  by (induction us arbitrary: s) (auto intro: inv_intros)

lemma load_spspps_wf [inv_intros]: "sets_wf s \<Longrightarrow> sets_wf (load_spspps fs key s)"
  by (auto simp: load_spspps_def Let_def fold_load_unit_wf split: prod.split option.split)

subsection \<open>What a store writes and a load reads back\<close>

lemma fwrite_set_bytes: "set_wf ps \<Longrightarrow> fwrite_set ps = set_bytes ps"
  by (auto simp: fwrite_set_def set_bytes_def set_wf_def spspps_clamp_len_def nat_le_iff)

lemma length_fwrite_set: "length (fwrite_set ps) \<le> SPSPPSBUFSZ"
  by (auto simp: fwrite_set_def spspps_clamp_len_def min_def)

definition cache_image :: "pipeline \<Rightarrow> bool \<Rightarrow> byte list" where
  "cache_image s is_h265 =
     (if is_h265 then fwrite_set (vps s) else []) @ fwrite_set (sps s) @ fwrite_set (pps s)"

lemma length_cache_image: "length (cache_image s b) \<le> SPSPPSBUFSZ * 3"
  using length_fwrite_set [of "vps s"] length_fwrite_set [of "sps s"]
    length_fwrite_set [of "pps s"]
  by (simp add: cache_image_def)

lemma home_create [elem_simps]:
  "spspps_home_dir (create_hidden_directory fs) = spspps_home_dir fs"
  "fopen_ok (create_hidden_directory fs) = fopen_ok fs"
  "files (create_hidden_directory fs) = files fs"
  by (simp_all add: create_hidden_directory_def spspps_home_dir_def split: option.split)

lemma get_path_create [elem_simps]:
  "get_spspps_path (create_hidden_directory fs) key = get_spspps_path fs key"
  by (simp add: get_spspps_path_def elem_simps)

definition cache_writable :: "fsys \<Rightarrow> spspps_key \<Rightarrow> string \<Rightarrow> bool" where
  \<comment> \<open>the path exists and can be created, then read\<close>
  "cache_writable fs key p \<longleftrightarrow>
     get_spspps_path fs key = Some p \<and>
     fopen_ok fs (dirs (create_hidden_directory fs)) p (CHR ''w'') \<and>
     fopen_ok fs (dirs (create_hidden_directory fs)) p (CHR ''r'')"

lemma store_spspps_files:
  assumes "cache_writable fs key p"
  shows "files (store_spspps s key fs) = (files fs)(p \<mapsto> cache_image s (key_h265 key))"
    "dirs (store_spspps s key fs) = dirs (create_hidden_directory fs)"
    "spspps_home_dir (store_spspps s key fs) = spspps_home_dir fs"
    "fopen_ok (store_spspps s key fs) = fopen_ok fs"
proof -
  have "open_spspps_file fs key (CHR ''w'') =
      ((create_hidden_directory fs)\<lparr>files := (files fs)(p := Some [])\<rparr>, Some p)"
    using assms by (simp add: open_spspps_file_def cache_writable_def elem_simps Let_def)
  then have "store_spspps s key fs = (create_hidden_directory fs)
      \<lparr>files := (files fs)(p \<mapsto> cache_image s (key_h265 key))\<rparr>"
    by (simp add: store_spspps_def cache_image_def)
  then show "files (store_spspps s key fs) = (files fs)(p \<mapsto> cache_image s (key_h265 key))"
    "dirs (store_spspps s key fs) = dirs (create_hidden_directory fs)"
    "spspps_home_dir (store_spspps s key fs) = spspps_home_dir fs"
    "fopen_ok (store_spspps s key fs) = fopen_ok fs"
    by (simp_all add: elem_simps spspps_home_dir_def)
      (simp_all add: create_hidden_directory_def split: option.split)
qed

lemma store_spspps_other_files:
  assumes "get_spspps_path fs key \<noteq> Some q"
  shows "files (store_spspps s key fs) q = files fs q"
proof (cases "get_spspps_path fs key")
  case None
  then show ?thesis
    by (simp add: store_spspps_def open_spspps_file_def elem_simps Let_def)
next
  case (Some p)
  with assms show ?thesis
    by (auto simp: store_spspps_def open_spspps_file_def elem_simps Let_def)
qed

lemma load_spspps_open:
  assumes "get_spspps_path fs key = Some p" "fopen_ok fs (dirs fs) p (CHR ''r'')"
    and "files fs p = Some bytes"
  shows "load_spspps fs key s =
    fold load_unit (take 3 (parse_ref (frame_format s) (take (SPSPPSBUFSZ * 3) bytes))) s"
  using assms by (simp add: load_spspps_def open_spspps_file_def parse_nal_units_ref Let_def)

text \<open>
  A set survives the round trip when its bytes are one clean unit of its own type, which is
  what the frame callback caches from a stream whose NAL units do not end in a zero byte.
\<close>

definition set_loadable :: "uvc_frame_format \<Rightarrow> nal_unit_type \<Rightarrow> param_set \<Rightarrow> bool" where
  "set_loadable fmt t ps \<longleftrightarrow>
     set_wf ps \<and> clean_unit fmt (set_bytes ps) \<and>
     header_type fmt (set_bytes ps ! code_len (set_bytes ps)) = t"

lemma set_loadable_unit:
  assumes "set_loadable fmt t ps"
  shows "utype (unit_of fmt (set_bytes ps)) = t" "ubytes (unit_of fmt (set_bytes ps)) = set_bytes ps"
    "unit_storable (unit_of fmt (set_bytes ps))" "clean_unit fmt (set_bytes ps)"
    "fwrite_set ps = set_bytes ps"
  using assms length_set_bytes [of ps]
  by (auto simp: set_loadable_def unit_of_def unit_storable_def clean_unit_def set_wf_def
      fwrite_set_bytes nat_le_iff)

lemma load_clean_image:
  assumes "set_loadable fmt UNIT_SPS (sps s)" "set_loadable fmt UNIT_PPS (pps s)"
    and "b \<Longrightarrow> set_loadable fmt UNIT_VPS (vps s)"
  shows "take 3 (parse_ref fmt (take (SPSPPSBUFSZ * 3) (cache_image s b))) =
    map (unit_of fmt)
      ((if b then [set_bytes (vps s)] else []) @ [set_bytes (sps s), set_bytes (pps s)])"
proof -
  let ?bss = "(if b then [set_bytes (vps s)] else []) @ [set_bytes (sps s), set_bytes (pps s)]"
  have "fwrite_set (sps s) = set_bytes (sps s)" "fwrite_set (pps s) = set_bytes (pps s)"
      "b \<Longrightarrow> fwrite_set (vps s) = set_bytes (vps s)"
    using assms set_loadable_unit(5) by blast+
  then have "cache_image s b = concat ?bss" by (simp add: cache_image_def)
  moreover have "parse_ref fmt (concat ?bss) = map (unit_of fmt) ?bss"
    using assms by (intro parse_ref_concat) (auto simp: set_loadable_unit(4) split: if_splits)
  ultimately show ?thesis
    using length_cache_image [of s b] by (simp split: if_splits)
qed


lemma load_units_sets:
  assumes "set_loadable fmt UNIT_SPS (sps s)" "set_loadable fmt UNIT_PPS (pps s)"
    and "b \<Longrightarrow> set_loadable fmt UNIT_VPS (vps s)"
  defines "us \<equiv> map (unit_of fmt)
      ((if b then [set_bytes (vps s)] else []) @ [set_bytes (sps s), set_bytes (pps s)])"
  shows "set_bytes (sps (fold load_unit us s2)) = set_bytes (sps s)"
    "set_bytes (pps (fold load_unit us s2)) = set_bytes (pps s)"
    "b \<Longrightarrow> set_bytes (vps (fold load_unit us s2)) = set_bytes (vps s)"
  using set_loadable_unit [OF assms(1)] set_loadable_unit [OF assms(2)]
    set_loadable_unit [OF assms(3)]
  by (cases b; simp add: us_def load_unit_def elem_simps)+

lemma store_then_load:
  assumes "set_loadable (frame_format s) UNIT_SPS (sps s)"
    and "set_loadable (frame_format s) UNIT_PPS (pps s)"
    and "frame_format s = UVC_FRAME_FORMAT_H265 \<Longrightarrow>
      set_loadable (frame_format s) UNIT_VPS (vps s)"
    and "key = spspps_key_snapshot s" "cache_writable fs key p"
    and "frame_format s2 = frame_format s"
  defines "s3 \<equiv> load_spspps (store_spspps s key fs) key s2"
  shows "set_bytes (sps s3) = set_bytes (sps s)" "set_bytes (pps s3) = set_bytes (pps s)"
    "frame_format s = UVC_FRAME_FORMAT_H265 \<Longrightarrow> set_bytes (vps s3) = set_bytes (vps s)"
proof -
  have b: "key_h265 key \<longleftrightarrow> frame_format s = UVC_FRAME_FORMAT_H265"
    by (simp add: assms(4) spspps_key_snapshot_def split: option.split)
  have "get_spspps_path (store_spspps s key fs) key = Some p"
    using assms(5) store_spspps_files(3) [OF assms(5)]
    by (simp add: get_spspps_path_def cache_writable_def)
  then have "s3 = fold load_unit
      (take 3 (parse_ref (frame_format s2)
        (take (SPSPPSBUFSZ * 3) (cache_image s (key_h265 key))))) s2"
    unfolding s3_def using assms(5) store_spspps_files [OF assms(5)]
    by (intro load_spspps_open) (auto simp: cache_writable_def)
  then have s3: "s3 = fold load_unit (map (unit_of (frame_format s))
      ((if key_h265 key then [set_bytes (vps s)] else []) @
       [set_bytes (sps s), set_bytes (pps s)])) s2"
    using assms(1-3,6) b by (simp add: load_clean_image)
  show "set_bytes (sps s3) = set_bytes (sps s)" "set_bytes (pps s3) = set_bytes (pps s)"
    "frame_format s = UVC_FRAME_FORMAT_H265 \<Longrightarrow> set_bytes (vps s3) = set_bytes (vps s)"
    unfolding s3 using load_units_sets [OF assms(1,2), of "key_h265 key" s2] assms(3) b by auto
qed

subsection \<open>Properties of the cache\<close>

text \<open>
  The \<open>key\<close> array of the path builder cannot overflow for a snapshot: an index is cut
  to 255 characters, which escape to at most 765, so with a short enough home directory the
  path of every key exists.
\<close>
theorem snapshot_key_fits:
  assumes "length (spspps_home_dir fs) + length (dec_int (negotiated_width s)) +
      length (dec_int (negotiated_height s)) + 790 < DIRBUFLEN"
  shows "get_spspps_path fs (spspps_key_snapshot s) \<noteq> None"
proof (cases "index s")
  case None
  then show ?thesis using assms
    by (simp add: get_spspps_path_def spspps_key_snapshot_def spspps_build_path_def
        snprintf_fits_def DIRBUFLEN_def)
next
  case (Some i)
  let ?k = "g_strlcpy SPSPPS_INDEX_MAX i"
  have "length ?k \<le> 255" by (simp add: g_strlcpy_def SPSPPS_INDEX_MAX_def)
  then have k: "length (escape_key ?k) \<le> 765" using length_escape_key [of ?k] by linarith
  then have "spspps_build_path DIRBUFLEN (Some (spspps_home_dir fs)) (Some ?k)
      (frame_format s = UVC_FRAME_FORMAT_H265) (negotiated_width s) (negotiated_height s) =
    Some (spspps_home_dir fs @ ''/.spspps/'' @ cache_file_name ?k
      (frame_format s = UVC_FRAME_FORMAT_H265) (negotiated_width s) (negotiated_height s))"
    using assms by (simp add: build_path_Some cache_file_name_def codec_name_def)
  then show ?thesis by (simp add: get_spspps_path_def spspps_key_snapshot_def Some)
qed

definition demo_cache_fs :: fsys where
  "demo_cache_fs = \<lparr>files = (\<lambda>_. None), dirs = [], home = Some ''/home/u'',
     mkdir_ok = (\<lambda>_. True), fopen_ok = (\<lambda>_ _ _. True)\<rparr>"

lemma snapshot_key_fits_witness:
  "get_spspps_path demo_cache_fs (spspps_key_snapshot
     ((pipeline_init UVC_FRAME_FORMAT_H264)\<lparr>index := Some (replicate 300 (CHR ''/''))\<rparr>)) \<noteq> None"
  by (rule snapshot_key_fits)
    (simp add: demo_cache_fs_def spspps_home_dir_def pipeline_init_def dec_int_def dec_nat.simps
      DIRBUFLEN_def)

text \<open>
  Loading a cache file is memory safe for any contents: whatever bytes the file holds,
  the three arrays keep their size and their lengths stay within them.
\<close>
theorem load_spspps_keeps_arrays:
  assumes "sets_wf s"
  shows "sets_wf (load_spspps fs key s)"
  using assms by (rule load_spspps_wf)

lemma load_spspps_keeps_arrays_witness:
  "sets_wf (load_spspps (demo_cache_fs\<lparr>files := (\<lambda>_. Some (replicate 5000 1))\<rparr>)
     (spspps_key_snapshot (pipeline_init UVC_FRAME_FORMAT_H264))
     (pipeline_init UVC_FRAME_FORMAT_H264))"
  by (rule load_spspps_keeps_arrays [OF sets_wf_init])

text \<open>
  Claim C26. What one run stores the next run loads: when every set is one clean NAL unit of its
  type, storing and then loading under the same key gives back the same sets, byte for byte,
  with the VPS for H.265.
\<close>
theorem cache_round_trip:
  assumes "set_loadable (frame_format s) UNIT_SPS (sps s)"
    and "set_loadable (frame_format s) UNIT_PPS (pps s)"
    and "frame_format s = UVC_FRAME_FORMAT_H265 \<longrightarrow>
      set_loadable (frame_format s) UNIT_VPS (vps s)"
    and "cache_writable fs (spspps_key_snapshot s) p" "frame_format s2 = frame_format s"
  defines "s3 \<equiv> load_spspps (store_spspps s (spspps_key_snapshot s) fs) (spspps_key_snapshot s) s2"
  shows "set_bytes (sps s3) = set_bytes (sps s) \<and> set_bytes (pps s3) = set_bytes (pps s) \<and>
    (frame_format s = UVC_FRAME_FORMAT_H265 \<longrightarrow> set_bytes (vps s3) = set_bytes (vps s))"
  using store_then_load [OF assms(1,2) _ refl assms(4,5)] assms(3) unfolding s3_def by auto

lemma cache_round_trip_witness:
  "set_bytes (sps (load_spspps
     (store_spspps (pipeline_init UVC_FRAME_FORMAT_H264)
        (spspps_key_snapshot (pipeline_init UVC_FRAME_FORMAT_H264)) demo_cache_fs)
     (spspps_key_snapshot (pipeline_init UVC_FRAME_FORMAT_H264))
     ((pipeline_init UVC_FRAME_FORMAT_H264)\<lparr>sps := \<lparr>psbuf = array_of [], pslen = 0\<rparr>\<rparr>))) =
   default_sps"
proof -
  let ?s = "pipeline_init UVC_FRAME_FORMAT_H264"
  have f: "frame_format ?s = UVC_FRAME_FORMAT_H264" by (simp add: pipeline_init_def)
  have sp: "set_bytes (sps ?s) = default_sps" "set_bytes (pps ?s) = default_pps"
    by (simp_all add: pipeline_init_def set_bytes_array_of)
  have c: "list_all (clean_unit UVC_FRAME_FORMAT_H264) [default_sps, default_pps]"
    unfolding clean_unit_scan [abs_def] by code_simp
  have h: "header_type UVC_FRAME_FORMAT_H264 (default_sps ! code_len default_sps) = UNIT_SPS"
      "header_type UVC_FRAME_FORMAT_H264 (default_pps ! code_len default_pps) = UNIT_PPS"
    by code_simp+
  have w: "cache_writable demo_cache_fs (spspps_key_snapshot ?s) ''/home/u/.spspps/0_h264_0x0''"
    by code_simp
  show ?thesis
    using cache_round_trip [OF _ _ _ w, of "?s\<lparr>sps := \<lparr>psbuf = array_of [], pslen = 0\<rparr>\<rparr>"]
      sets_wf_init [of UVC_FRAME_FORMAT_H264] c h
    by (simp add: set_loadable_def f sp sets_wf_def)
qed

text \<open>
  Storing for one key leaves the cache of every other camera, codec and size alone:
  a load under a key with another path reads what it would have read before.
\<close>
theorem store_isolated:
  assumes "get_spspps_path fs key' \<noteq> get_spspps_path fs key"
    and "create_hidden_directory fs = fs"
  shows "load_spspps (store_spspps s key fs) key' s2 = load_spspps fs key' s2"
proof -
  have home: "spspps_home_dir (store_spspps s key fs) = spspps_home_dir fs"
    "dirs (store_spspps s key fs) = dirs fs" "fopen_ok (store_spspps s key fs) = fopen_ok fs"
    using assms(2)
    by (auto simp: store_spspps_def open_spspps_file_def Let_def spspps_home_dir_def
        split: option.split)
  show ?thesis
  proof (cases "get_spspps_path fs key'")
    case None
    then show ?thesis
      using home by (simp add: load_spspps_def open_spspps_file_def Let_def get_spspps_path_def)
  next
    case (Some q)
    then have q: "files (store_spspps s key fs) q = files fs q"
      using assms(1) by (intro store_spspps_other_files) auto
    with Some home show ?thesis
      by (simp add: load_spspps_def open_spspps_file_def Let_def get_spspps_path_def)
  qed
qed


lemma store_isolated_witness:
  "load_spspps (store_spspps (pipeline_init UVC_FRAME_FORMAT_H264)
       (spspps_key_snapshot (pipeline_init UVC_FRAME_FORMAT_H264))
       (demo_cache_fs\<lparr>dirs := [''/home/u/.spspps'']\<rparr>))
     (spspps_key_snapshot ((pipeline_init UVC_FRAME_FORMAT_H264)\<lparr>negotiated_width := 640\<rparr>))
     (pipeline_init UVC_FRAME_FORMAT_H264) =
   load_spspps (demo_cache_fs\<lparr>dirs := [''/home/u/.spspps'']\<rparr>)
     (spspps_key_snapshot ((pipeline_init UVC_FRAME_FORMAT_H264)\<lparr>negotiated_width := 640\<rparr>))
     (pipeline_init UVC_FRAME_FORMAT_H264)"
proof (rule store_isolated)
  show "get_spspps_path (demo_cache_fs\<lparr>dirs := [''/home/u/.spspps'']\<rparr>)
      (spspps_key_snapshot ((pipeline_init UVC_FRAME_FORMAT_H264)\<lparr>negotiated_width := 640\<rparr>)) \<noteq>
    get_spspps_path (demo_cache_fs\<lparr>dirs := [''/home/u/.spspps'']\<rparr>)
      (spspps_key_snapshot (pipeline_init UVC_FRAME_FORMAT_H264))"
    by code_simp
  have "spspps_build_path DIRBUFLEN (Some ''/home/u'') None False 0 0 = Some ''/home/u/.spspps''"
    by code_simp
  then show "create_hidden_directory (demo_cache_fs\<lparr>dirs := [''/home/u/.spspps'']\<rparr>) =
      demo_cache_fs\<lparr>dirs := [''/home/u/.spspps'']\<rparr>"
    by (simp add: create_hidden_directory_def spspps_home_dir_def demo_cache_fs_def)
qed

end
