(* ===== verification/FramePipeline.thy ===== *)
theory FramePipeline
  imports SpsPpsCache
begin

text \<open>
  \<open>cache_parameter_set\<close> and \<open>frame_callback\<close> of \<open>frame_pipeline.c\<close>: what one delivery of
  libuvc does to the element. The two inner loops over an access unit (measure, then fill)
  are \<open>measure_au\<close> and \<open>emit_units\<close>; the body of the loop over access units is
  \<open>deliver_au\<close>. The clock's reading and the element's base time are GStreamer's and come
  in through \<open>clock_env\<close>. A \<open>NULL\<close> frame or \<open>NULL\<close> data is \<open>None\<close>.
\<close>

record clock_env =
  gst_clock_get_time :: "nat \<Rightarrow> u64"
  element_base_time :: u64

definition gsize_of_gint :: "int \<Rightarrow> nat" where
  "gsize_of_gint i = nat (i mod 18446744073709551616)"

subsection \<open>Latching parameter sets\<close>

definition latch_set :: "nal_unit \<Rightarrow> param_set \<Rightarrow> (param_set \<times> bool) option" where
  \<comment> \<open>\<open>None\<close>: refused; otherwise the set afterwards and whether it changed\<close>
  "latch_set unit ps =
     (if \<not> unit_storable unit then None
      else if pslen ps \<noteq> int (ulen unit) \<or> take (ulen unit) (psbuf ps) \<noteq> ubytes unit
        then Some (memcpy_set ps (ubytes unit), True)
      else Some (ps, False))"

definition cache_parameter_set :: "nal_unit \<Rightarrow> pipeline \<times> bool \<Rightarrow> pipeline \<times> bool" where
  "cache_parameter_set unit su =
     (case su of (self, updated) \<Rightarrow>
        (case utype unit of
           UNIT_VPS \<Rightarrow> (case latch_set unit (vps self) of
               None \<Rightarrow> su
             | Some (ps, ch) \<Rightarrow> (self\<lparr>vps := ps, send_sps_pps := True\<rparr>, updated \<or> ch))
         | UNIT_SPS \<Rightarrow> (case latch_set unit (sps self) of
               None \<Rightarrow> su
             | Some (ps, ch) \<Rightarrow> (self\<lparr>sps := ps, send_sps_pps := True\<rparr>, updated \<or> ch))
         | UNIT_PPS \<Rightarrow> (case latch_set unit (pps self) of
               None \<Rightarrow> su
             | Some (ps, ch) \<Rightarrow> (self\<lparr>pps := ps, send_sps_pps := True\<rparr>, updated \<or> ch))
         | _ \<Rightarrow> su))"

subsection \<open>Measuring an access unit\<close>

record au_scan =
  sc_su :: "pipeline \<times> bool"
  sc_has_idr :: bool
  sc_has_slice :: bool
  sc_payload :: nat

fun measure_au :: "nal_unit list \<Rightarrow> au_scan \<Rightarrow> au_scan" where
  "measure_au [] sc = sc"
| "measure_au (unit # units) sc =
     (if nal_is_parameter_set (utype unit) then
        measure_au units (sc\<lparr>sc_su := cache_parameter_set unit (sc_su sc)\<rparr>)
      else
        measure_au units
          (sc\<lparr>sc_has_idr := sc_has_idr sc \<or> utype unit = UNIT_FRAME_IDR,
              sc_has_slice := sc_has_slice sc \<or> nal_is_slice (utype unit),
              sc_payload := sc_payload sc + ulen unit\<rparr>))"

subsection \<open>Filling a buffer\<close>

definition gst_buffer_new_allocate :: "nat \<Rightarrow> gst_buffer" where
  "gst_buffer_new_allocate n =
     \<lparr>content = replicate n None, buf_pts = G_MAXUINT64, buf_dts = G_MAXUINT64,
      buf_duration = G_MAXUINT64, buf_offset = G_MAXUINT64, buf_offset_end = G_MAXUINT64\<rparr>"

definition gst_buffer_fill :: "byte option list \<Rightarrow> nat \<Rightarrow> byte list \<Rightarrow> byte option list" where
  \<comment> \<open>copies into the buffer at \<open>at\<close>, cut off at its end\<close>
  "gst_buffer_fill mem at src =
     take at mem @ map Some (take (length mem - at) src) @ drop (at + length src) mem"

record emit_state =
  em_self :: pipeline
  em_at :: nat
  em_prefixed :: bool
  em_mem :: "byte option list"

definition fill_bytes :: "byte list \<Rightarrow> emit_state \<Rightarrow> emit_state" where
  "fill_bytes src em =
     em\<lparr>em_mem := gst_buffer_fill (em_mem em) (em_at em) src, em_at := em_at em + length src\<rparr>"

definition fill_set :: "param_set \<Rightarrow> emit_state \<Rightarrow> emit_state" where
  "fill_set ps em = fill_bytes (take (gsize_of_gint (pslen ps)) (psbuf ps)) em"

definition insert_sets :: "emit_state \<Rightarrow> emit_state" where
  "insert_sets em =
     (let self = em_self em;
          em1 = (if frame_format self = UVC_FRAME_FORMAT_H265 then fill_set (vps self) em else em);
          em2 = fill_set (sps self) em1;
          em3 = fill_set (pps self) em2
      in em3\<lparr>em_prefixed := True, em_self := self\<lparr>send_sps_pps := False\<rparr>\<rparr>)"

fun emit_units :: "nat \<Rightarrow> nal_unit list \<Rightarrow> emit_state \<Rightarrow> emit_state" where
  "emit_units prefix_len [] em = em"
| "emit_units prefix_len (unit # units) em =
     (if nal_is_parameter_set (utype unit) then emit_units prefix_len units em
      else
        emit_units prefix_len units
          (fill_bytes (ubytes unit)
            (if \<not> em_prefixed em \<and> prefix_len > 0 \<and> utype unit = UNIT_FRAME_IDR
             then insert_sets em else em)))"

definition au_prefix_len :: "pipeline \<Rightarrow> bool \<Rightarrow> nat" where
  "au_prefix_len self has_idr =
     (if has_idr \<and> (\<not> had_idr self \<or> send_sps_pps self) then
        gsize_of_gint (pslen (sps self)) + gsize_of_gint (pslen (pps self)) +
        (if frame_format self = UVC_FRAME_FORMAT_H265 then gsize_of_gint (pslen (vps self)) else 0)
      else 0)"

subsection \<open>Stamping and queueing\<close>

definition clamp_pts :: "u64 \<Rightarrow> u64 \<Rightarrow> u64" where
  "clamp_pts prev ts = (if prev \<noteq> G_MAXUINT64 \<and> ts \<le> prev then prev + 1 else ts)"

definition nominal_duration :: "int \<Rightarrow> u64" where
  "nominal_duration interval = (if interval > 0 then word_of_int interval else G_MAXUINT64)"

definition stamp_buffer :: "u64 \<Rightarrow> gst_buffer \<Rightarrow> pipeline \<Rightarrow> gst_buffer \<times> pipeline" where
  "stamp_buffer ts buf self =
     (let timestamp = clamp_pts (prev_pts self) ts
      in (buf\<lparr>buf_pts := timestamp, buf_dts := timestamp,
              buf_duration := nominal_duration (frame_interval self)\<rparr>,
          self\<lparr>prev_pts := timestamp\<rparr>))"

definition push_buffer :: "gst_buffer \<Rightarrow> pipeline \<Rightarrow> pipeline" where
  "push_buffer buf self =
     (let off = frame_offset self
      in self\<lparr>frame_offset := off + 1,
              frame_queue := frame_queue self @
                [Frame (buf\<lparr>buf_offset := off, buf_offset_end := off + 1\<rparr>)]\<rparr>)"

definition deliver_au :: "u64 \<Rightarrow> nal_unit list \<Rightarrow> pipeline \<times> bool \<Rightarrow> pipeline \<times> bool" where
  "deliver_au ts units su =
     (let sc = measure_au units
            \<lparr>sc_su = su, sc_has_idr = False, sc_has_slice = False, sc_payload = 0\<rparr>;
          self = fst (sc_su sc); updated = snd (sc_su sc)
      in if (\<not> had_idr self \<and> \<not> sc_has_idr sc) \<or> sc_payload sc = 0 then (self, updated)
         else
           let prefix_len = au_prefix_len self (sc_has_idr sc);
               buffer = gst_buffer_new_allocate (prefix_len + sc_payload sc);
               em = emit_units prefix_len units
                 \<lparr>em_self = self, em_at = 0, em_prefixed = False, em_mem = content buffer\<rparr>;
               buf1 = buffer\<lparr>content := em_mem em\<rparr>;
               self1 = (if sc_has_idr sc then (em_self em)\<lparr>had_idr := True\<rparr> else em_self em);
               (buf2, self2) = (if sc_has_slice sc then stamp_buffer ts buf1 self1
                                else (buf1, self1))
           in (push_buffer buf2 self2, updated))"

subsection \<open>The callback\<close>

definition frame_units :: "uvc_frame_format \<Rightarrow> byte list \<Rightarrow> nal_unit list list" where
  \<comment> \<open>count, parse, split: the access units of one delivery\<close>
  "frame_units format data =
     (let units = parse_all format data;
          au_starts = split_access_units format units (length units)
      in cut au_starts (length units) units)"

definition latch_base_time :: "clock_env \<Rightarrow> pipeline \<Rightarrow> pipeline" where
  "latch_base_time env self =
     (if base_time self = G_MAXUINT64 then self\<lparr>base_time := element_base_time env\<rparr> else self)"

definition frame_accepted :: "byte list option \<Rightarrow> pipeline \<Rightarrow> bool" where
  \<comment> \<open>none of the early returns is taken\<close>
  "frame_accepted frame self \<longleftrightarrow>
     (case frame of
        None \<Rightarrow> False
      | Some data \<Rightarrow> data \<noteq> [] \<and> int (length data) \<le> G_MAXINT \<and> clock self \<noteq> None)"

definition process_frame :: "clock_env \<Rightarrow> byte list \<Rightarrow> pipeline \<Rightarrow> pipeline \<times> bool" where
  "process_frame env data self =
     (let now = gst_clock_get_time env (the (clock self));
          self1 = latch_base_time env self;
          ts = now - base_time self1
      in fold (deliver_au ts) (frame_units (frame_format self1) data) (self1, False))"

definition frame_callback ::
  "clock_env \<Rightarrow> byte list option \<Rightarrow> pipeline \<times> fsys \<Rightarrow> pipeline \<times> fsys" where
  "frame_callback env frame st =
     (case st of (self, fs) \<Rightarrow>
        if \<not> frame_accepted frame self then (self, fs)
        else
          let (self1, updated_sps_pps) = process_frame env (the frame) self
          in if updated_sps_pps
             then (self1, store_spspps self1 (spspps_key_snapshot self1) fs)
             else (self1, fs))"


subsection \<open>Parameter sets\<close>

abbreviation is_idr :: "nal_unit \<Rightarrow> bool" where "is_idr u \<equiv> utype u = UNIT_FRAME_IDR"
abbreviation is_pset :: "nal_unit \<Rightarrow> bool" where "is_pset u \<equiv> nal_is_parameter_set (utype u)"

lemma idr_not_pset [simp]: "nal_is_parameter_set UNIT_FRAME_IDR = False"
  by (simp add: nal_is_parameter_set_def)

lemma slice_not_pset: "nal_is_slice t \<Longrightarrow> \<not> nal_is_parameter_set t"
  by (auto simp: nal_is_slice_def nal_is_parameter_set_def)

lemma idr_slice [simp]: "nal_is_slice UNIT_FRAME_IDR"
  by (simp add: nal_is_slice_def)

lemma cache_parameter_set_id: "\<not> is_pset u \<Longrightarrow> cache_parameter_set u su = su"
  by (cases su; cases "utype u") (auto simp: cache_parameter_set_def nal_is_parameter_set_def)

lemma latch_set_Some:
  "latch_set u ps = Some (ps', ch) \<Longrightarrow>
     unit_storable u \<and> (set_wf ps \<longrightarrow> set_wf ps' \<and> set_bytes ps' = ubytes u) \<and>
     (\<not> ch \<longrightarrow> ps' = ps)"
  by (auto simp: latch_set_def unit_storable_def set_wf_memcpy memcpy_set_def set_bytes_def
      set_wf_def split: if_splits)

text \<open>Caching touches the three sets and the re-send flag, nothing else.\<close>

definition same_but_sets :: "pipeline \<Rightarrow> pipeline \<Rightarrow> bool" where
  "same_but_sets a b \<longleftrightarrow>
     b\<lparr>vps := vps a, sps := sps a, pps := pps a, send_sps_pps := send_sps_pps a\<rparr> = a"

lemma same_but_sets_refl [simp]: "same_but_sets a a"
  by (simp add: same_but_sets_def)

lemma same_but_sets_fields:
  assumes "same_but_sets a b"
  shows "frame_format b = frame_format a" "index b = index a" "frame_queue b = frame_queue a"
    "negotiated_width b = negotiated_width a" "negotiated_height b = negotiated_height a"
    "clock b = clock a" "base_time b = base_time a" "prev_pts b = prev_pts a"
    "frame_interval b = frame_interval a" "frame_offset b = frame_offset a"
    "had_idr b = had_idr a"
proof -
  have eq: "b\<lparr>vps := vps a, sps := sps a, pps := pps a, send_sps_pps := send_sps_pps a\<rparr> = a"
    using assms by (simp add: same_but_sets_def)
  show "frame_format b = frame_format a" "index b = index a" "frame_queue b = frame_queue a"
    "negotiated_width b = negotiated_width a" "negotiated_height b = negotiated_height a"
    "clock b = clock a" "base_time b = base_time a" "prev_pts b = prev_pts a"
    "frame_interval b = frame_interval a" "frame_offset b = frame_offset a"
    "had_idr b = had_idr a"
    by (subst eq [symmetric], simp)+
qed

lemma same_but_sets_trans: "same_but_sets a b \<Longrightarrow> same_but_sets b c \<Longrightarrow> same_but_sets a c"
  by (cases a; cases b; cases c) (simp add: same_but_sets_def)

lemma cache_parameter_set_same: "same_but_sets (fst su) (fst (cache_parameter_set u su))"
  by (cases su; cases "utype u")
    (auto simp: cache_parameter_set_def same_but_sets_def split: option.split prod.split)

lemma cache_parameter_set_wf [inv_intros]:
  "sets_wf (fst su) \<Longrightarrow> sets_wf (fst (cache_parameter_set u su))"
  by (cases su; cases "utype u")
    (auto simp: cache_parameter_set_def sets_wf_def split: option.split prod.split
      dest: latch_set_Some)

lemma fold_cache_same: "same_but_sets (fst su) (fst (fold cache_parameter_set us su))"
proof (induction us arbitrary: su)
  case (Cons u us)
  show ?case
    using same_but_sets_trans [OF cache_parameter_set_same [of su u]
        Cons.IH [of "cache_parameter_set u su"]] by simp
qed simp

lemma fold_cache_wf: "sets_wf (fst su) \<Longrightarrow> sets_wf (fst (fold cache_parameter_set us su))"
  by (induction us arbitrary: su) (simp_all add: cache_parameter_set_wf)

subsection \<open>Measuring\<close>

definition au_has_idr :: "nal_unit list \<Rightarrow> bool" where
  "au_has_idr us \<longleftrightarrow> (\<exists>u \<in> set us. is_idr u)"

definition au_slices :: "nal_unit list \<Rightarrow> bool" where
  "au_slices us \<longleftrightarrow> (\<exists>u \<in> set us. nal_is_slice (utype u))"

definition au_payload :: "nal_unit list \<Rightarrow> byte list" where
  "au_payload us = concat (map ubytes (filter (\<lambda>u. \<not> is_pset u) us))"

lemma measure_au_eq:
  "measure_au us sc =
     sc\<lparr>sc_su := fold cache_parameter_set us (sc_su sc),
        sc_has_idr := sc_has_idr sc \<or> au_has_idr us,
        sc_has_slice := sc_has_slice sc \<or> au_slices us,
        sc_payload := sc_payload sc + length (au_payload us)\<rparr>"
proof (induction us arbitrary: sc)
  case Nil
  then show ?case by (simp add: au_has_idr_def au_slices_def au_payload_def)
next
  case (Cons u us)
  show ?case
  proof (cases "is_pset u")
    case True
    then have "\<not> is_idr u" "\<not> nal_is_slice (utype u)"
      using slice_not_pset by auto
    with True Cons.IH show ?thesis
      by (simp add: au_has_idr_def au_slices_def au_payload_def)
  next
    case False
    then show ?thesis using Cons.IH
      by (simp add: au_has_idr_def au_slices_def au_payload_def cache_parameter_set_id
          disj_assoc)
  qed
qed

subsection \<open>Filling\<close>

text \<open>The bytes an access unit is forwarded as: the prefix goes before its first IDR.\<close>

fun weave :: "byte list \<Rightarrow> nal_unit list \<Rightarrow> byte list" where
  "weave p [] = []"
| "weave p (u # us) =
     (if is_pset u then weave p us
      else if p \<noteq> [] \<and> is_idr u then p @ ubytes u @ weave [] us
      else ubytes u @ weave p us)"

lemma weave_Nil: "weave [] us = au_payload us"
  by (induction us) (auto simp: au_payload_def)

lemma weave_no_idr: "\<not> au_has_idr us \<Longrightarrow> weave p us = au_payload us"
  by (induction us) (auto simp: au_payload_def au_has_idr_def)

lemma length_weave:
  "length (weave p us) = length (au_payload us) + (if au_has_idr us then length p else 0)"
  by (induction us) (auto simp: au_payload_def au_has_idr_def weave_Nil)

definition prefix_bytes :: "pipeline \<Rightarrow> byte list" where
  "prefix_bytes self =
     (if frame_format self = UVC_FRAME_FORMAT_H265 then set_bytes (vps self) else [])
     @ set_bytes (sps self) @ set_bytes (pps self)"

lemma gsize_nonneg: "0 \<le> i \<Longrightarrow> i \<le> int SPSPPSBUFSZ \<Longrightarrow> gsize_of_gint i = nat i"
  by (simp add: gsize_of_gint_def SPSPPSBUFSZ_def)

lemma fill_set_wf: "set_wf ps \<Longrightarrow> fill_set ps em = fill_bytes (set_bytes ps) em"
  by (simp add: fill_set_def set_bytes_def set_wf_def gsize_nonneg)

definition em_ready :: "emit_state \<Rightarrow> byte list \<Rightarrow> nat \<Rightarrow> bool" where
  \<comment> \<open>\<open>w\<close> is written, \<open>r\<close> bytes are still free\<close>
  "em_ready em w r \<longleftrightarrow> em_mem em = map Some w @ replicate r None \<and> em_at em = length w"

lemma fill_bytes_ready:
  "em_ready em w r \<Longrightarrow> length src \<le> r \<Longrightarrow>
   em_ready (fill_bytes src em) (w @ src) (r - length src)"
  by (simp add: em_ready_def fill_bytes_def gst_buffer_fill_def)

lemma fill_bytes_fields [simp]:
  "em_self (fill_bytes src em) = em_self em" "em_prefixed (fill_bytes src em) = em_prefixed em"
  by (simp_all add: fill_bytes_def)

lemma insert_sets_ready:
  assumes "em_ready em w r" "sets_wf (em_self em)" "length (prefix_bytes (em_self em)) \<le> r"
  shows "em_ready (insert_sets em) (w @ prefix_bytes (em_self em))
      (r - length (prefix_bytes (em_self em)))"
    "em_prefixed (insert_sets em)"
    "em_self (insert_sets em) = (em_self em)\<lparr>send_sps_pps := False\<rparr>"
proof -
  define v where "v = (if frame_format (em_self em) = UVC_FRAME_FORMAT_H265
    then set_bytes (vps (em_self em)) else [])"
  define e1 where "e1 = (if frame_format (em_self em) = UVC_FRAME_FORMAT_H265
    then fill_bytes (set_bytes (vps (em_self em))) em else em)"
  let ?s = "set_bytes (sps (em_self em))" and ?p = "set_bytes (pps (em_self em))"
  have p: "prefix_bytes (em_self em) = v @ ?s @ ?p"
    by (simp add: prefix_bytes_def v_def)
  have e1: "em_ready e1 (w @ v) (r - length v)"
    using assms p fill_bytes_ready [OF assms(1), of v]
    by (auto simp: e1_def v_def)
  have e2: "em_ready (fill_bytes ?s e1) ((w @ v) @ ?s) (r - length v - length ?s)"
    using assms(3) p by (intro fill_bytes_ready [OF e1]) simp
  have e3: "em_ready (fill_bytes ?p (fill_bytes ?s e1)) (((w @ v) @ ?s) @ ?p)
      (r - length v - length ?s - length ?p)"
    using assms(3) p by (intro fill_bytes_ready [OF e2]) simp
  have ins: "insert_sets em = (fill_bytes ?p (fill_bytes ?s e1))
      \<lparr>em_prefixed := True, em_self := (em_self em)\<lparr>send_sps_pps := False\<rparr>\<rparr>"
    using assms(2) by (simp add: insert_sets_def Let_def fill_set_wf sets_wf_def e1_def)
  show "em_ready (insert_sets em) (w @ prefix_bytes (em_self em))
      (r - length (prefix_bytes (em_self em)))"
    using e3 by (simp add: ins p em_ready_def)
  show "em_prefixed (insert_sets em)"
    "em_self (insert_sets em) = (em_self em)\<lparr>send_sps_pps := False\<rparr>"
    by (simp_all add: ins)
qed

text \<open>What the emission loop leaves: the woven bytes, and the re-send flag down iff a prefix went in.\<close>

lemma emit_units_ready:
  assumes "em_ready em w r" "sets_wf (em_self em)"
    and "plen = 0 \<or> plen = length (prefix_bytes (em_self em))"
  defines "p \<equiv> if em_prefixed em \<or> plen = 0 then [] else prefix_bytes (em_self em)"
  assumes "length (weave p us) \<le> r"
  shows "em_ready (emit_units plen us em) (w @ weave p us) (r - length (weave p us)) \<and>
    em_self (emit_units plen us em) =
      (if p \<noteq> [] \<and> au_has_idr us then (em_self em)\<lparr>send_sps_pps := False\<rparr> else em_self em)"
  using assms(1-3,5) unfolding p_def
proof (induction us arbitrary: em w r)
  case Nil
  then show ?case by (simp add: au_has_idr_def)
next
  case (Cons u us)
  let ?q = "if em_prefixed em \<or> plen = 0 then [] else prefix_bytes (em_self em)"
  consider (ps) "is_pset u" | (ins) "\<not> is_pset u" "?q \<noteq> []" "is_idr u"
    | (plain) "\<not> is_pset u" "\<not> (?q \<noteq> [] \<and> is_idr u)" by blast
  then show ?case
  proof cases
    case ps
    moreover have "au_has_idr (u # us) = au_has_idr us" using ps by (auto simp: au_has_idr_def)
    ultimately show ?thesis using Cons by simp
  next
    case ins
    then have np: "\<not> em_prefixed em" "plen > 0" "plen = length (prefix_bytes (em_self em))"
      using Cons.prems(3) by (auto split: if_splits)
    have q: "?q = prefix_bytes (em_self em)" using np by simp
    let ?em = "fill_bytes (ubytes u) (insert_sets em)"
    have len: "length (prefix_bytes (em_self em)) + ulen u + length (weave [] us) \<le> r"
      using Cons.prems(4) ins q by simp
    note i = insert_sets_ready [OF Cons.prems(1,2)]
    have r1: "em_ready ?em ((w @ prefix_bytes (em_self em)) @ ubytes u)
        (r - length (prefix_bytes (em_self em)) - ulen u)"
      by (rule fill_bytes_ready [OF i(1)]) (use len in simp_all)
    have self: "em_self (insert_sets em) = (em_self em)\<lparr>send_sps_pps := False\<rparr>"
        "em_prefixed (insert_sets em)"
      using i(2,3) len by simp_all
    have eu: "emit_units plen (u # us) em = emit_units plen us ?em"
      using ins np by simp
    have w: "weave ?q (u # us) = prefix_bytes (em_self em) @ ubytes u @ weave [] us"
      using ins q by simp
    have pe: "prefix_bytes (em_self ?em) = prefix_bytes (em_self em)"
      by (simp add: self prefix_bytes_def)
    have wf: "sets_wf (em_self ?em)" using Cons.prems(2) by (simp add: self sets_wf_def)
    note IH = Cons.IH [OF r1 wf]
    have "em_ready (emit_units plen us ?em)
          (((w @ prefix_bytes (em_self em)) @ ubytes u) @ weave [] us)
          (r - length (prefix_bytes (em_self em)) - ulen u - length (weave [] us)) \<and>
        em_self (emit_units plen us ?em) = em_self ?em"
      using IH Cons.prems(3) len self(2) pe by (simp split: if_splits)
    moreover have "au_has_idr (u # us)" using ins by (simp add: au_has_idr_def)
    ultimately show ?thesis
      unfolding eu w using ins(2) self(1) by (simp add: diff_diff_left add.assoc)
  next
    case plain
    let ?em = "fill_bytes (ubytes u) em"
    have "\<not> (\<not> em_prefixed em \<and> plen > 0 \<and> is_idr u)"
      using plain Cons.prems(3) by auto
    then have eu: "emit_units plen (u # us) em = emit_units plen us ?em"
      using plain by auto
    have w: "weave ?q (u # us) = ubytes u @ weave ?q us" using plain by auto
    have r1: "em_ready ?em (w @ ubytes u) (r - ulen u)"
      by (rule fill_bytes_ready [OF Cons.prems(1)]) (use Cons.prems(4) w in simp)
    have idr: "?q \<noteq> [] \<and> au_has_idr (u # us) \<longleftrightarrow> ?q \<noteq> [] \<and> au_has_idr us"
      using plain by (auto simp: au_has_idr_def)
    define q where "q = ?q"
    note IH = Cons.IH [OF r1, unfolded fill_bytes_fields, folded q_def, OF Cons.prems(2,3)]
    have "length (weave q us) \<le> r - ulen u" using Cons.prems(4) w by (simp add: q_def)
    from IH [OF this] show ?thesis
      unfolding eu w idr unfolding q_def [symmetric] by (simp add: diff_diff_left)
  qed
qed

end
