(* ===== verification/Delivery.thy ===== *)
theory Delivery
  imports FramePipeline
begin

text \<open>
  What one delivery does, stated without the loops: \<open>deliver_spec\<close> gives the buffer an
  access unit becomes and the fields it changes in closed form, and \<open>deliver_au\<close>, with its
  two passes over the units, its write cursor and its pre-sized buffer, is shown equal to
  it. The rest of the theory follows the fold over the access units of one delivery: which
  of them are forwarded, in which order, with which offsets and time stamps.
\<close>

subsection \<open>One access unit in closed form\<close>

definition au_prefix :: "pipeline \<Rightarrow> nal_unit list \<Rightarrow> byte list" where
  "au_prefix s us =
     (if au_has_idr us \<and> (\<not> had_idr s \<or> send_sps_pps s) then prefix_bytes s else [])"

definition au_stamp :: "u64 \<Rightarrow> nal_unit list \<Rightarrow> pipeline \<Rightarrow> u64" where
  "au_stamp ts us s = (if au_slices us then clamp_pts (prev_pts s) ts else G_MAXUINT64)"

definition au_buffer :: "u64 \<Rightarrow> nal_unit list \<Rightarrow> pipeline \<Rightarrow> gst_buffer" where
  "au_buffer ts us s =
     \<lparr>content = map Some (weave (au_prefix s us) us),
      buf_pts = au_stamp ts us s, buf_dts = au_stamp ts us s,
      buf_duration = (if au_slices us then nominal_duration (frame_interval s) else G_MAXUINT64),
      buf_offset = frame_offset s, buf_offset_end = frame_offset s + 1\<rparr>"

definition au_forwarded :: "bool \<Rightarrow> nal_unit list \<Rightarrow> bool" where
  "au_forwarded had us \<longleftrightarrow> (had \<or> au_has_idr us) \<and> au_payload us \<noteq> []"

definition au_pushed :: "u64 \<Rightarrow> nal_unit list \<Rightarrow> pipeline \<Rightarrow> pipeline" where
  "au_pushed ts us s =
     s\<lparr>had_idr := had_idr s \<or> au_has_idr us,
       send_sps_pps := send_sps_pps s \<and> au_prefix s us = [],
       prev_pts := if au_slices us then clamp_pts (prev_pts s) ts else prev_pts s,
       frame_offset := frame_offset s + 1,
       frame_queue := frame_queue s @ [Frame (au_buffer ts us s)]\<rparr>"

definition deliver_spec :: "u64 \<Rightarrow> nal_unit list \<Rightarrow> pipeline \<times> bool \<Rightarrow> pipeline \<times> bool" where
  "deliver_spec ts us su =
     (let (s, updated) = fold cache_parameter_set us su
      in (if au_forwarded (had_idr s) us then au_pushed ts us s else s, updated))"

lemma au_prefix_len_eq:
  assumes "sets_wf s"
  shows "au_prefix_len s (au_has_idr us) = length (au_prefix s us)"
proof -
  have g: "gsize_of_gint (pslen ps) = length (set_bytes ps)" if "set_wf ps" for ps
    using that length_set_bytes [OF that] gsize_nonneg [of "pslen ps"] by (simp add: set_wf_def)
  show ?thesis
    using assms by (auto simp: au_prefix_len_def au_prefix_def prefix_bytes_def sets_wf_def g)
qed

lemma emit_au:
  fixes us :: "nal_unit list"
  assumes "sets_wf s"
    and "em = emit_units (length (au_prefix s us)) us
      \<lparr>em_self = s, em_at = 0, em_prefixed = False,
       em_mem = replicate (length (au_prefix s us) + length (au_payload us)) None\<rparr>"
  shows "em_mem em = map Some (weave (au_prefix s us) us)"
    "em_self em = (if au_prefix s us = [] then s else s\<lparr>send_sps_pps := False\<rparr>)"
proof -
  let ?em = "\<lparr>em_self = s, em_at = 0, em_prefixed = False,
       em_mem = replicate (length (au_prefix s us) + length (au_payload us)) None\<rparr>"
  have pre: "au_prefix s us = [] \<or> au_prefix s us = prefix_bytes s"
    by (simp add: au_prefix_def)
  have idr: "au_prefix s us \<noteq> [] \<Longrightarrow> au_has_idr us"
    by (simp add: au_prefix_def split: if_splits)
  have p: "(if em_prefixed ?em \<or> length (au_prefix s us) = 0 then [] else prefix_bytes (em_self ?em))
      = au_prefix s us"
    using pre by auto
  have len: "length (weave (au_prefix s us) us) = length (au_prefix s us) + length (au_payload us)"
    using idr by (auto simp: length_weave)
  have r: "em_ready ?em [] (length (au_prefix s us) + length (au_payload us))"
    by (simp add: em_ready_def)
  have pl: "length (au_prefix s us) = 0 \<or>
      length (au_prefix s us) = length (prefix_bytes (em_self ?em))"
    using pre by auto
  note E = emit_units_ready [OF r, of "length (au_prefix s us)" us, unfolded p, OF _ pl]
  have E': "em_ready em (weave (au_prefix s us) us) 0 \<and>
      em_self em = (if au_prefix s us \<noteq> [] \<and> au_has_idr us then s\<lparr>send_sps_pps := False\<rparr> else s)"
    using E assms len by simp
  show "em_mem em = map Some (weave (au_prefix s us) us)"
    using E' by (simp add: em_ready_def)
  show "em_self em = (if au_prefix s us = [] then s else s\<lparr>send_sps_pps := False\<rparr>)"
    using E' idr by auto
qed

lemma deliver_au_eq:
  assumes "sets_wf (fst su)"
  shows "deliver_au ts us su = deliver_spec ts us su"
proof -
  obtain s updated where f: "fold cache_parameter_set us su = (s, updated)" by fastforce
  have wf: "sets_wf s" using fold_cache_wf [OF assms, of us] f by simp
  note e = emit_au [OF wf refl, of us]
  show ?thesis
    using wf
    by (auto simp: deliver_au_def deliver_spec_def measure_au_eq f Let_def au_prefix_len_eq
        gst_buffer_new_allocate_def e au_forwarded_def au_pushed_def au_buffer_def au_stamp_def
        stamp_buffer_def push_buffer_def)
qed

lemma deliver_spec_wf [inv_intros]:
  "sets_wf (fst su) \<Longrightarrow> sets_wf (fst (deliver_spec ts us su))"
  using fold_cache_wf [of su us]
  by (auto simp: deliver_spec_def au_pushed_def sets_wf_def split: prod.split)

subsection \<open>All access units of a delivery\<close>

fun pushed_buffers :: "u64 \<Rightarrow> nal_unit list list \<Rightarrow> pipeline \<times> bool \<Rightarrow> gst_buffer list" where
  "pushed_buffers ts [] su = []"
| "pushed_buffers ts (us # aus) su =
     (let s = fst (fold cache_parameter_set us su)
      in (if au_forwarded (had_idr s) us then [au_buffer ts us s] else []) @
         pushed_buffers ts aus (deliver_spec ts us su))"

lemma fold_deliver_spec:
  "sets_wf (fst su) \<Longrightarrow> fold (deliver_au ts) aus su = fold (deliver_spec ts) aus su"
  by (induction aus arbitrary: su) (auto simp: deliver_au_eq inv_intros)

lemma fold_deliver_wf: "sets_wf (fst su) \<Longrightarrow> sets_wf (fst (fold (deliver_spec ts) aus su))"
  by (induction aus arbitrary: su) (auto simp: inv_intros)

text \<open>Fields of the state after one access unit.\<close>

lemma deliver_spec_fields:
  fixes su :: "pipeline \<times> bool" and us :: "nal_unit list"
  defines "s \<equiv> fst (fold cache_parameter_set us su)"
  shows "had_idr s = had_idr (fst su)" "frame_offset s = frame_offset (fst su)"
    "frame_queue s = frame_queue (fst su)" "prev_pts s = prev_pts (fst su)"
    "frame_interval s = frame_interval (fst su)" "frame_format s = frame_format (fst su)"
    "fst (deliver_spec ts us su) = (if au_forwarded (had_idr (fst su)) us then au_pushed ts us s else s)"
    "snd (deliver_spec ts us su) = snd (fold cache_parameter_set us su)"
  using fold_cache_same [of su us]
  by (auto simp: s_def deliver_spec_def same_but_sets_fields split: prod.split)

lemma fold_deliver_queue:
  "frame_queue (fst (fold (deliver_spec ts) aus su)) =
     frame_queue (fst su) @ map Frame (pushed_buffers ts aus su)"
  by (induction aus arbitrary: su) (simp_all add: Let_def deliver_spec_fields au_pushed_def)

lemma fold_deliver_offset:
  "frame_offset (fst (fold (deliver_spec ts) aus su)) =
     frame_offset (fst su) + word_of_nat (length (pushed_buffers ts aus su))"
  by (induction aus arbitrary: su) (simp_all add: Let_def deliver_spec_fields au_pushed_def)

lemma pushed_offsets:
  "k < length (pushed_buffers ts aus su) \<Longrightarrow>
   buf_offset (pushed_buffers ts aus su ! k) = frame_offset (fst su) + word_of_nat k \<and>
   buf_offset_end (pushed_buffers ts aus su ! k) = frame_offset (fst su) + word_of_nat k + 1"
proof (induction aus arbitrary: su k)
  case (Cons us aus)
  show ?case
  proof (cases "au_forwarded (had_idr (fst su)) us \<and> k \<noteq> 0")
    case True
    then obtain j where k: "k = Suc j" by (cases k) auto
    with True Cons.prems have j: "j < length (pushed_buffers ts aus (deliver_spec ts us su))"
      by (simp add: Let_def deliver_spec_fields)
    show ?thesis
      using Cons.IH [OF j] True by (simp add: k Let_def deliver_spec_fields au_pushed_def)
  next
    case False
    then show ?thesis
      using Cons by (auto simp: Let_def deliver_spec_fields au_buffer_def nth_append)
  qed
qed simp

subsection \<open>The keyframe gate\<close>

definition forwarded_aus :: "bool \<Rightarrow> nal_unit list list \<Rightarrow> nal_unit list list" where
  \<comment> \<open>everything from the first keyframe on, without the units that carried only sets\<close>
  "forwarded_aus had aus =
     filter (\<lambda>us. au_payload us \<noteq> [])
       (if had then aus else dropWhile (\<lambda>us. \<not> au_has_idr us) aus)"

definition units_nonempty :: "nal_unit list list \<Rightarrow> bool" where
  "units_nonempty aus \<longleftrightarrow> (\<forall>us \<in> set aus. \<forall>u \<in> set us. ubytes u \<noteq> [])"

lemma idr_payload: "\<forall>u \<in> set us. ubytes u \<noteq> [] \<Longrightarrow> au_has_idr us \<Longrightarrow> au_payload us \<noteq> []"
  by (fastforce simp: au_has_idr_def au_payload_def)

definition carries :: "nal_unit list \<Rightarrow> gst_buffer \<Rightarrow> bool" where
  "carries us b \<longleftrightarrow> (\<exists>p. content b = map Some (weave p us) \<and> (p = [] \<or> au_has_idr us))"

lemma carries_au_buffer: "carries us (au_buffer ts us s)"
  unfolding carries_def by (rule exI [of _ "au_prefix s us"]) (simp add: au_buffer_def au_prefix_def)

lemma pushed_carries:
  "units_nonempty aus \<Longrightarrow>
   list_all2 carries (forwarded_aus (had_idr (fst su)) aus) (pushed_buffers ts aus su)"
proof (induction aus arbitrary: su)
  case (Cons us aus)
  have ne: "\<forall>u \<in> set us. ubytes u \<noteq> []" and "units_nonempty aus"
    using Cons.prems by (auto simp: units_nonempty_def)
  then have IH: "list_all2 carries (forwarded_aus (had_idr (fst (deliver_spec ts us su))) aus)
      (pushed_buffers ts aus (deliver_spec ts us su))"
    using Cons.IH by blast
  have fw: "forwarded_aus (had_idr (fst su)) (us # aus) =
      (if au_forwarded (had_idr (fst su)) us then [us] else []) @
      forwarded_aus (had_idr (fst (deliver_spec ts us su))) aus"
    using idr_payload [OF ne]
    by (auto simp: forwarded_aus_def au_forwarded_def deliver_spec_fields au_pushed_def)
  show ?case
    unfolding fw using IH
    by (simp add: Let_def deliver_spec_fields carries_au_buffer split: if_splits)
qed (simp add: forwarded_aus_def)

lemma had_idr_fold:
  "units_nonempty aus \<Longrightarrow>
   had_idr (fst (fold (deliver_spec ts) aus su)) \<longleftrightarrow>
     had_idr (fst su) \<or> (\<exists>us \<in> set aus. au_has_idr us)"
proof (induction aus arbitrary: su)
  case (Cons us aus)
  have ne: "\<forall>u \<in> set us. ubytes u \<noteq> []" "units_nonempty aus"
    using Cons.prems by (auto simp: units_nonempty_def)
  have "had_idr (fst (deliver_spec ts us su)) \<longleftrightarrow> had_idr (fst su) \<or> au_has_idr us"
    using idr_payload [OF ne(1)] by (auto simp: deliver_spec_fields au_pushed_def au_forwarded_def)
  with Cons.IH [OF ne(2)] show ?case by auto
qed simp

subsection \<open>Time stamps\<close>

definition stamps :: "u64 \<Rightarrow> nal_unit list list \<Rightarrow> pipeline \<times> bool \<Rightarrow> u64 list" where
  \<comment> \<open>the time stamps of the buffers that carry a picture\<close>
  "stamps ts aus su = filter (\<lambda>t. t \<noteq> G_MAXUINT64) (map buf_pts (pushed_buffers ts aus su))"

definition pts_floor :: "u64 \<Rightarrow> nat" where
  \<comment> \<open>the least time stamp the next picture may carry\<close>
  "pts_floor prev = (if prev = G_MAXUINT64 then 0 else Suc (unat prev))"

lemma unat_max64: "unat (G_MAXUINT64) = 18446744073709551615"
  by (simp add: unsigned_minus_1_eq_mask mask_eq_exp_minus_1)

lemma unat_below_max: "x \<noteq> G_MAXUINT64 \<Longrightarrow> unat x < 18446744073709551615"
proof -
  assume "x \<noteq> G_MAXUINT64"
  then have "x < G_MAXUINT64" using word_order.not_eq_extremum by auto
  then show ?thesis by (simp add: word_less_nat_alt unat_max64)
qed

lemma clamp_pts_value:
  assumes "unat ts < 18446744073709551615" "pts_floor prev < 18446744073709551615"
  shows "unat (clamp_pts prev ts) = max (unat ts) (pts_floor prev)"
    "clamp_pts prev ts \<noteq> G_MAXUINT64"
    "pts_floor (clamp_pts prev ts) = Suc (max (unat ts) (pts_floor prev))"
proof -
  have ts: "ts \<noteq> G_MAXUINT64" using assms(1) unat_max64 by auto
  have "unat (clamp_pts prev ts) = max (unat ts) (pts_floor prev) \<and>
      clamp_pts prev ts \<noteq> G_MAXUINT64"
  proof (cases "prev \<noteq> G_MAXUINT64 \<and> ts \<le> prev")
    case True
    then have "Suc (unat prev) < 18446744073709551615"
      using assms(2) by (simp add: pts_floor_def)
    have s: "unat (prev + 1) = Suc (unat prev)"
      using \<open>Suc (unat prev) < _\<close> unat_add_lem [of prev 1] by simp
    then have "prev + 1 \<noteq> G_MAXUINT64"
      using \<open>Suc (unat prev) < _\<close> unat_max64 by (metis less_irrefl)
    with True s show ?thesis
      by (simp add: clamp_pts_def pts_floor_def word_le_nat_alt)
  next
    case False
    then show ?thesis using ts
      by (auto simp: clamp_pts_def pts_floor_def word_le_nat_alt max_def)
  qed
  then show "unat (clamp_pts prev ts) = max (unat ts) (pts_floor prev)"
    "clamp_pts prev ts \<noteq> G_MAXUINT64"
    "pts_floor (clamp_pts prev ts) = Suc (max (unat ts) (pts_floor prev))"
    by (simp_all add: pts_floor_def)
qed

lemma stamps_increase:
  assumes "unat ts + length aus < 18446744073709551615"
    and "pts_floor (prev_pts (fst su)) + length aus < 18446744073709551615"
  shows "sorted_wrt (<) (stamps ts aus su) \<and>
    (\<forall>t \<in> set (stamps ts aus su). unat ts \<le> unat t \<and> pts_floor (prev_pts (fst su)) \<le> unat t)"
  using assms
proof (induction aus arbitrary: su)
  case (Cons us aus)
  let ?su = "deliver_spec ts us su" and ?s = "fst (fold cache_parameter_set us su)"
  note c = clamp_pts_value [of ts "prev_pts (fst su)"]
  have small: "unat ts < 18446744073709551615"
      "pts_floor (prev_pts (fst su)) < 18446744073709551615"
    using Cons.prems by simp_all
  show ?case
  proof (cases "au_forwarded (had_idr (fst su)) us \<and> au_slices us")
    case False
    then have "stamps ts (us # aus) su = stamps ts aus ?su"
        "prev_pts (fst ?su) = prev_pts (fst su)"
      by (auto simp: stamps_def Let_def deliver_spec_fields au_buffer_def au_stamp_def au_pushed_def)
    then show ?thesis using Cons.IH [of ?su] Cons.prems by simp
  next
    case True
    let ?t = "clamp_pts (prev_pts (fst su)) ts"
    have st: "stamps ts (us # aus) su = ?t # stamps ts aus ?su" "prev_pts (fst ?su) = ?t"
      using True c(2) [OF small]
      by (auto simp: stamps_def Let_def deliver_spec_fields au_buffer_def au_stamp_def au_pushed_def)
    have fl: "pts_floor ?t = Suc (unat ?t)" using c [OF small] by simp
    have "pts_floor (prev_pts (fst ?su)) + length aus < 18446744073709551615"
      using c(3) [OF small] Cons.prems by (simp add: st)
    with Cons.IH [of ?su] Cons.prems(1)
    have IH: "sorted_wrt (<) (stamps ts aus ?su) \<and>
        (\<forall>t \<in> set (stamps ts aus ?su). unat ts \<le> unat t \<and> Suc (unat ?t) \<le> unat t)"
      by (simp add: st fl)
    then show ?thesis
      using c(1) [OF small] word_less_nat_alt [of ?t] by (fastforce simp: st)
  qed
qed (simp add: stamps_def)

subsection \<open>The access units of a buffer\<close>

lemma concat_frame_units: "concat (frame_units format data) = parse_all format data"
proof -
  let ?us = "parse_all format data"
  let ?st = "split_access_units format ?us (length ?us)"
  note S = split_access_units_sorted [of ?us "length ?us" format]
  show ?thesis
  proof (cases "?us = []")
    case True
    then show ?thesis using S by (simp add: frame_units_def Let_def)
  next
    case False
    then obtain st where st: "?st = 0 # st" using S by (cases ?st) auto
    have "concat (cut (0 # st) (length ?us) ?us) = segment 0 (length ?us) ?us"
      using S(1,2) st
      by (intro concat_cut) (auto simp: strict_sorted_imp_sorted less_imp_le intro: order.strict_implies_order)
    then show ?thesis by (simp add: frame_units_def Let_def st)
  qed
qed

lemma frame_units_nonempty: "units_nonempty (frame_units format data)"
proof -
  have "\<forall>u \<in> set (concat (frame_units format data)). ubytes u \<noteq> []"
    unfolding concat_frame_units using frame_nals.unit_length by fastforce
  then show ?thesis by (auto simp: units_nonempty_def)
qed

lemma length_frame_units: "3 * length (frame_units format data) \<le> length data"
proof -
  let ?us = "parse_all format data"
  have "length (frame_units format data) \<le> length ?us"
    using split_access_units_sorted(1,2) [of ?us "length ?us" format]
    by (auto simp: frame_units_def Let_def intro: strict_sorted_le_upper)
  then show ?thesis using frame_nals.unit_count [of format data] by simp
qed

subsection \<open>The whole callback\<close>

definition arrival_ts :: "clock_env \<Rightarrow> pipeline \<Rightarrow> u64" where
  "arrival_ts env s = gst_clock_get_time env (the (clock s)) - base_time (latch_base_time env s)"

lemma latch_base_time_fields [elem_simps]:
  "frame_format (latch_base_time env s) = frame_format s"
  "frame_queue (latch_base_time env s) = frame_queue s"
  "frame_offset (latch_base_time env s) = frame_offset s"
  "had_idr (latch_base_time env s) = had_idr s" "prev_pts (latch_base_time env s) = prev_pts s"
  "sets_wf (latch_base_time env s) = sets_wf s" "sps (latch_base_time env s) = sps s"
  "pps (latch_base_time env s) = pps s" "vps (latch_base_time env s) = vps s"
  by (simp_all add: latch_base_time_def sets_wf_def)

lemma process_frame_eq:
  "sets_wf s \<Longrightarrow> process_frame env data s =
    fold (deliver_spec (arrival_ts env s)) (frame_units (frame_format s) data)
      (latch_base_time env s, False)"
  by (simp add: process_frame_def Let_def arrival_ts_def fold_deliver_spec elem_simps)

lemma frame_callback_accepted:
  "frame_accepted (Some data) s \<Longrightarrow>
   frame_callback env (Some data) (s, fs) =
     (let (s', updated) = process_frame env data s
      in (s', if updated then store_spspps s' (spspps_key_snapshot s') fs else fs))"
  by (auto simp: frame_callback_def Let_def split: prod.split)

lemma fst_frame_callback:
  "frame_accepted (Some data) s \<Longrightarrow>
   fst (frame_callback env (Some data) (s, fs)) = fst (process_frame env data s)"
  by (simp add: frame_callback_accepted split: prod.split)

lemma frame_callback_refused:
  "\<not> frame_accepted frame s \<Longrightarrow> frame_callback env frame (s, fs) = (s, fs)"
  by (simp add: frame_callback_def)

text \<open>The buffers one accepted delivery appends to the queue.\<close>

definition frame_buffers :: "clock_env \<Rightarrow> byte list \<Rightarrow> pipeline \<Rightarrow> gst_buffer list" where
  "frame_buffers env data s =
     pushed_buffers (arrival_ts env s) (frame_units (frame_format s) data)
       (latch_base_time env s, False)"

lemma callback_queue:
  assumes "sets_wf s" "frame_accepted (Some data) s"
  shows "frame_queue (fst (frame_callback env (Some data) (s, fs))) =
    frame_queue s @ map Frame (frame_buffers env data s)"
  by (simp add: fst_frame_callback [OF assms(2)] process_frame_eq [OF assms(1)] frame_buffers_def
      fold_deliver_queue elem_simps)

lemma callback_carries:
  "list_all2 carries (forwarded_aus (had_idr s) (frame_units (frame_format s) data))
     (frame_buffers env data s)"
  using pushed_carries [OF frame_units_nonempty, of "(latch_base_time env s, False)"]
  by (simp add: frame_buffers_def elem_simps)

lemma callback_offsets:
  assumes "sets_wf s" "frame_accepted (Some data) s"
  shows "frame_offset (fst (frame_callback env (Some data) (s, fs))) =
      frame_offset s + word_of_nat (length (frame_buffers env data s))"
    "k < length (frame_buffers env data s) \<Longrightarrow>
      buf_offset (frame_buffers env data s ! k) = frame_offset s + word_of_nat k \<and>
      buf_offset_end (frame_buffers env data s ! k) = frame_offset s + word_of_nat k + 1"
proof -
  show "frame_offset (fst (frame_callback env (Some data) (s, fs))) =
      frame_offset s + word_of_nat (length (frame_buffers env data s))"
    by (simp add: fst_frame_callback [OF assms(2)] process_frame_eq [OF assms(1)]
        frame_buffers_def fold_deliver_offset elem_simps)
qed (use pushed_offsets in \<open>auto simp: frame_buffers_def elem_simps\<close>)

lemma callback_had_idr:
  assumes "sets_wf s" "frame_accepted (Some data) s"
  shows "had_idr (fst (frame_callback env (Some data) (s, fs))) \<longleftrightarrow>
    had_idr s \<or> (\<exists>us \<in> set (frame_units (frame_format s) data). au_has_idr us)"
  using had_idr_fold [OF frame_units_nonempty, of "arrival_ts env s" _ _
      "(latch_base_time env s, False)"]
  by (simp add: fst_frame_callback [OF assms(2)] process_frame_eq [OF assms(1)] elem_simps)

lemma callback_appends:
  assumes "sets_wf s"
  shows "\<exists>bs. frame_queue (fst (frame_callback env frame (s, fs))) = frame_queue s @ map Frame bs"
proof (cases "frame_accepted frame s")
  case True
  then obtain data where d: "frame = Some data" by (cases frame) (auto simp: frame_accepted_def)
  then show ?thesis using callback_queue [OF assms, of data] True by blast
qed (auto simp: frame_callback_refused)

subsection \<open>Which sets a keyframe carries\<close>

definition latest :: "nal_unit_type \<Rightarrow> nal_unit list \<Rightarrow> byte list \<Rightarrow> byte list" where
  \<comment> \<open>the last unit of that type that fits the array, or the bytes held before\<close>
  "latest t us held = foldl (\<lambda>bs u. if utype u = t \<and> unit_storable u then ubytes u else bs) held us"

lemma latch_set_eq:
  assumes "set_wf ps"
  shows "latch_set u ps =
    (if \<not> unit_storable u then None
     else if set_bytes ps = ubytes u then Some (ps, False)
     else Some (memcpy_set ps (ubytes u), True))"
proof -
  have "set_bytes ps = ubytes u \<longleftrightarrow>
      pslen ps = int (ulen u) \<and> take (ulen u) (psbuf ps) = ubytes u"
  proof
    assume eq: "set_bytes ps = ubytes u"
    then have "nat (pslen ps) = ulen u" using length_set_bytes [OF assms] by simp
    then show "pslen ps = int (ulen u) \<and> take (ulen u) (psbuf ps) = ubytes u"
      using eq assms by (auto simp: set_bytes_def set_wf_def)
  qed (auto simp: set_bytes_def)
  then show ?thesis by (auto simp: latch_set_def)
qed

lemma cache_parameter_set_bytes:
  assumes "sets_wf (fst su)"
  shows "set_bytes (vps (fst (cache_parameter_set u su))) = latest UNIT_VPS [u] (set_bytes (vps (fst su)))"
    "set_bytes (sps (fst (cache_parameter_set u su))) = latest UNIT_SPS [u] (set_bytes (sps (fst su)))"
    "set_bytes (pps (fst (cache_parameter_set u su))) = latest UNIT_PPS [u] (set_bytes (pps (fst su)))"
    "send_sps_pps (fst (cache_parameter_set u su)) \<longleftrightarrow>
       send_sps_pps (fst su) \<or> is_pset u \<and> unit_storable u"
proof -
  obtain s b where su: "su = (s, b)" by (cases su)
  have wf: "set_wf (vps s)" "set_wf (sps s)" "set_wf (pps s)"
    using assms by (simp_all add: su sets_wf_def)
  show "set_bytes (vps (fst (cache_parameter_set u su))) = latest UNIT_VPS [u] (set_bytes (vps (fst su)))"
    "set_bytes (sps (fst (cache_parameter_set u su))) = latest UNIT_SPS [u] (set_bytes (sps (fst su)))"
    "set_bytes (pps (fst (cache_parameter_set u su))) = latest UNIT_PPS [u] (set_bytes (pps (fst su)))"
    "send_sps_pps (fst (cache_parameter_set u su)) \<longleftrightarrow>
       send_sps_pps (fst su) \<or> is_pset u \<and> unit_storable u"
    by (cases "utype u";
        simp add: su cache_parameter_set_def latch_set_eq wf latest_def set_bytes_memcpy
          nal_is_parameter_set_def)+
qed

lemma fold_cache_bytes:
  assumes "sets_wf (fst su)"
  shows "set_bytes (vps (fst (fold cache_parameter_set us su))) = latest UNIT_VPS us (set_bytes (vps (fst su)))"
    "set_bytes (sps (fst (fold cache_parameter_set us su))) = latest UNIT_SPS us (set_bytes (sps (fst su)))"
    "set_bytes (pps (fst (fold cache_parameter_set us su))) = latest UNIT_PPS us (set_bytes (pps (fst su)))"
    "send_sps_pps (fst (fold cache_parameter_set us su)) \<longleftrightarrow>
       send_sps_pps (fst su) \<or> (\<exists>u \<in> set us. is_pset u \<and> unit_storable u)"
  using assms
  by (induction us arbitrary: su)
    (auto simp: cache_parameter_set_bytes cache_parameter_set_wf latest_def)

subsection \<open>When the disk cache is written\<close>

lemma cache_image_wf:
  "sets_wf s \<Longrightarrow> cache_image s b =
     (if b then set_bytes (vps s) else []) @ set_bytes (sps s) @ set_bytes (pps s)"
  by (simp add: cache_image_def sets_wf_def fwrite_set_bytes)

lemma cache_parameter_set_clean:
  "\<not> snd (cache_parameter_set u su) \<Longrightarrow> \<not> snd su \<and>
   vps (fst (cache_parameter_set u su)) = vps (fst su) \<and>
   sps (fst (cache_parameter_set u su)) = sps (fst su) \<and>
   pps (fst (cache_parameter_set u su)) = pps (fst su)"
  by (cases su; cases "utype u")
    (auto simp: cache_parameter_set_def dest: latch_set_Some split: option.splits)

lemma fold_cache_clean:
  "\<not> snd (fold cache_parameter_set us su) \<Longrightarrow> \<not> snd su \<and>
   vps (fst (fold cache_parameter_set us su)) = vps (fst su) \<and>
   sps (fst (fold cache_parameter_set us su)) = sps (fst su) \<and>
   pps (fst (fold cache_parameter_set us su)) = pps (fst su)"
proof (induction us arbitrary: su)
  case (Cons u us)
  then show ?case using cache_parameter_set_clean [of u su] by simp
qed simp

lemma deliver_spec_sets:
  "vps (fst (deliver_spec ts us su)) = vps (fst (fold cache_parameter_set us su))"
  "sps (fst (deliver_spec ts us su)) = sps (fst (fold cache_parameter_set us su))"
  "pps (fst (deliver_spec ts us su)) = pps (fst (fold cache_parameter_set us su))"
  by (simp_all add: deliver_spec_def au_pushed_def split: prod.split)

lemma fold_deliver_clean:
  "\<not> snd (fold (deliver_spec ts) aus su) \<Longrightarrow> \<not> snd su \<and>
   vps (fst (fold (deliver_spec ts) aus su)) = vps (fst su) \<and>
   sps (fst (fold (deliver_spec ts) aus su)) = sps (fst su) \<and>
   pps (fst (fold (deliver_spec ts) aus su)) = pps (fst su)"
proof (induction aus arbitrary: su)
  case (Cons us aus)
  then show ?case
    using fold_cache_clean [of us su] Cons.IH [of "deliver_spec ts us su"]
    by (simp add: deliver_spec_sets deliver_spec_fields(8))
qed simp

text \<open>What the cache key is made of never changes in a callback.\<close>

lemma fold_deliver_key:
  "spspps_key_snapshot (fst (fold (deliver_spec ts) aus su)) = spspps_key_snapshot (fst su)"
proof (induction aus arbitrary: su)
  case (Cons us aus)
  have "spspps_key_snapshot (fst (deliver_spec ts us su)) = spspps_key_snapshot (fst su)"
    using fold_cache_same [of su us]
    by (auto simp: deliver_spec_def au_pushed_def spspps_key_snapshot_def same_but_sets_fields
        split: prod.split option.split)
  with Cons show ?case by simp
qed simp

lemma key_latch [elem_simps]:
  "spspps_key_snapshot (latch_base_time env s) = spspps_key_snapshot s"
  by (simp add: latch_base_time_def spspps_key_snapshot_def split: option.split)

subsection \<open>Properties of the callback\<close>

definition demo_env :: clock_env where
  "demo_env = \<lparr>gst_clock_get_time = (\<lambda>_. 5000), element_base_time = 1000\<rparr>"

definition demo_source :: "uvc_frame_format \<Rightarrow> pipeline" where
  "demo_source fmt = (pipeline_init fmt)\<lparr>clock := Some 0, frame_interval := 33333333\<rparr>"

definition demo_fs :: fsys where
  "demo_fs = \<lparr>files = (\<lambda>_. None), dirs = [], home = Some ''/h'', mkdir_ok = (\<lambda>_. True),
     fopen_ok = (\<lambda>_ _ _. True)\<rparr>"

definition demo_idr :: "byte list" where
  "demo_idr = [0, 0, 0, 1, 0x65, 0x88, 0x84]"

lemma demo_wf: "sets_wf (demo_source fmt)"
  using sets_wf_init [of fmt] by (simp add: demo_source_def sets_wf_def)

lemma demo_accepted: "frame_accepted (Some demo_idr) (demo_source fmt)"
  by (simp add: frame_accepted_def demo_idr_def demo_source_def)

text \<open>
  Claim C1. The body of the access-unit loop, which measures the units, allocates a buffer of
  the measured length and fills it behind a write cursor, is the closed-form step: every byte
  of the buffer is written exactly once, nothing is cut off, the parameter sets stand right
  before the first IDR, and only the fields the step names change.
\<close>
theorem deliver_au_refines:
  assumes "sets_wf s"
  shows "deliver_au ts us (s, updated) = deliver_spec ts us (s, updated)"
  using assms by (simp add: deliver_au_eq)

lemma deliver_au_refines_witness:
  "frame_queue (fst (deliver_au 7 [\<lparr>utype = UNIT_FRAME_IDR, ubytes = demo_idr\<rparr>]
      (demo_source UVC_FRAME_FORMAT_H264, False))) =
   [Frame \<lparr>content = map Some (default_sps @ default_pps @ demo_idr), buf_pts = 7, buf_dts = 7,
      buf_duration = 33333333, buf_offset = 0, buf_offset_end = 1\<rparr>]"
  unfolding deliver_au_refines [OF demo_wf]
  by (simp add: deliver_spec_def cache_parameter_set_def au_forwarded_def au_has_idr_def
      au_payload_def demo_idr_def au_pushed_def au_buffer_def au_prefix_def demo_source_def
      pipeline_init_def prefix_bytes_def set_bytes_array_of set_bytes_def array_of_def au_stamp_def au_slices_def
      clamp_pts_def nominal_duration_def)

text \<open>
  Claim C7. An accepted delivery appends one buffer for each access unit from the first
  keyframe on that carries more than parameter sets, in stream order; each buffer holds all
  bytes of its access unit's other NAL units, with a prefix only in front of a keyframe; the
  queue's older items are untouched and the buffer offsets count on without a gap.
\<close>
theorem frame_callback_queue:
  assumes "sets_wf s" "frame_accepted (Some data) s"
  shows "\<exists>bs. frame_queue (fst (frame_callback env (Some data) (s, fs))) =
        frame_queue s @ map Frame bs \<and>
      list_all2 carries (forwarded_aus (had_idr s) (frame_units (frame_format s) data)) bs \<and>
      (\<forall>k < length bs. buf_offset (bs ! k) = frame_offset s + word_of_nat k \<and>
         buf_offset_end (bs ! k) = frame_offset s + word_of_nat k + 1) \<and>
      frame_offset (fst (frame_callback env (Some data) (s, fs))) =
        frame_offset s + word_of_nat (length bs)"
proof (intro exI conjI allI impI)
  show "frame_queue (fst (frame_callback env (Some data) (s, fs))) =
      frame_queue s @ map Frame (frame_buffers env data s)"
    by (rule callback_queue [OF assms])
  show "frame_offset (fst (frame_callback env (Some data) (s, fs))) =
      frame_offset s + word_of_nat (length (frame_buffers env data s))"
    by (rule callback_offsets(1) [OF assms])
qed (use callback_carries callback_offsets(2) [OF assms] in blast)+

lemma frame_callback_queue_witness:
  "\<exists>b. frame_queue (fst (frame_callback demo_env (Some demo_idr)
     (demo_source UVC_FRAME_FORMAT_H264, demo_fs))) = [Frame b] \<and> buf_offset b = 0"
proof -
  have f: "forwarded_aus False (frame_units UVC_FRAME_FORMAT_H264 demo_idr) =
      [[\<lparr>utype = UNIT_FRAME_IDR, ubytes = demo_idr\<rparr>]]"
    by code_simp
  obtain bs where "frame_queue (fst (frame_callback demo_env (Some demo_idr)
        (demo_source UVC_FRAME_FORMAT_H264, demo_fs))) = map Frame bs"
      "list_all2 carries [[\<lparr>utype = UNIT_FRAME_IDR, ubytes = demo_idr\<rparr>]] bs"
      "\<forall>k < length bs. buf_offset (bs ! k) = word_of_nat k"
    using frame_callback_queue [OF demo_wf demo_accepted, of demo_env UVC_FRAME_FORMAT_H264 demo_fs]
    by (auto simp: demo_source_def pipeline_init_def f)
  then show ?thesis
    by (cases bs) auto
qed

text \<open>
  Claim C14. Within a delivery, and after whatever was delivered before it, the time stamps of
  the pictures increase strictly, never fall behind the delivery's arrival time and never
  repeat or go behind the last stamp, as long as the 64-bit counter has room for them.
\<close>
theorem frame_callback_pts_increase:
  assumes "sets_wf s" "frame_accepted (Some data) s"
    and "unat (arrival_ts env s) + length data < 18446744073709551615"
    and "pts_floor (prev_pts s) + length data < 18446744073709551615"
  shows "\<exists>bs. frame_queue (fst (frame_callback env (Some data) (s, fs))) =
        frame_queue s @ map Frame bs \<and>
      sorted_wrt (<) (filter (\<lambda>t. t \<noteq> G_MAXUINT64) (map buf_pts bs)) \<and>
      (\<forall>t \<in> set (map buf_pts bs). arrival_ts env s \<le> t \<and>
         (prev_pts s \<noteq> G_MAXUINT64 \<longrightarrow> prev_pts s < t))"
proof -
  let ?aus = "frame_units (frame_format s) data"
  let ?su = "(latch_base_time env s, False)"
  have n: "length ?aus \<le> length data" using length_frame_units [of "frame_format s" data] by simp
  have S: "sorted_wrt (<) (stamps (arrival_ts env s) ?aus ?su) \<and>
      (\<forall>t \<in> set (stamps (arrival_ts env s) ?aus ?su).
        unat (arrival_ts env s) \<le> unat t \<and> pts_floor (prev_pts s) \<le> unat t)"
    using stamps_increase [of "arrival_ts env s" ?aus ?su] n assms(3,4) by (simp add: elem_simps)
  have "arrival_ts env s \<le> t \<and> (prev_pts s \<noteq> G_MAXUINT64 \<longrightarrow> prev_pts s < t)"
    if "t \<in> set (map buf_pts (frame_buffers env data s))" for t
  proof (cases "t = G_MAXUINT64")
    case True
    then show ?thesis using word_order.not_eq_extremum by auto
  next
    case False
    then have "t \<in> set (stamps (arrival_ts env s) ?aus ?su)"
      using that by (auto simp: stamps_def frame_buffers_def)
    with S show ?thesis
      by (auto simp: pts_floor_def word_le_nat_alt word_less_nat_alt split: if_splits)
  qed
  with S show ?thesis
    by (intro exI [of _ "frame_buffers env data s"])
      (simp add: callback_queue [OF assms(1,2)] stamps_def frame_buffers_def)
qed

lemma frame_callback_pts_increase_witness:
  "\<exists>bs. frame_queue (fst (frame_callback demo_env (Some demo_idr)
       (demo_source UVC_FRAME_FORMAT_H264, demo_fs))) = map Frame bs \<and>
     (\<forall>t \<in> set (map buf_pts bs). 4000 \<le> t)"
proof -
  have ts: "arrival_ts demo_env (demo_source UVC_FRAME_FORMAT_H264) = 4000"
    by (simp add: arrival_ts_def latch_base_time_def demo_env_def demo_source_def pipeline_init_def)
  have st: "frame_queue (demo_source UVC_FRAME_FORMAT_H264) = []"
      "prev_pts (demo_source UVC_FRAME_FORMAT_H264) = G_MAXUINT64"
    by (simp_all add: demo_source_def pipeline_init_def)
  obtain bs where "frame_queue (fst (frame_callback demo_env (Some demo_idr)
        (demo_source UVC_FRAME_FORMAT_H264, demo_fs))) = map Frame bs"
      "\<forall>t \<in> set (map buf_pts bs). 4000 \<le> t"
    using frame_callback_pts_increase [OF demo_wf demo_accepted,
        of demo_env UVC_FRAME_FORMAT_H264 demo_fs]
    unfolding ts st by (auto simp: pts_floor_def demo_idr_def)
  then show ?thesis by blast
qed

text \<open>
  Until a keyframe arrives nothing is queued: a delivery without an IDR picture leaves
  the queue, the offset counter and the gate as they were.
\<close>
theorem no_keyframe_no_output:
  assumes "sets_wf s" "\<not> had_idr s"
    and "\<forall>u \<in> set (parse_all (frame_format s) data). utype u \<noteq> UNIT_FRAME_IDR"
  shows "frame_queue (fst (frame_callback env (Some data) (s, fs))) = frame_queue s \<and>
    \<not> had_idr (fst (frame_callback env (Some data) (s, fs)))"
proof (cases "frame_accepted (Some data) s")
  case True
  have no: "\<not> au_has_idr us" if "us \<in> set (frame_units (frame_format s) data)" for us
    using assms(3) that concat_frame_units [of "frame_format s" data, symmetric]
    by (auto simp: au_has_idr_def)
  then have dw: "dropWhile (\<lambda>us. \<not> au_has_idr us) (frame_units (frame_format s) data) = []"
    by simp
  have "forwarded_aus (had_idr s) (frame_units (frame_format s) data) = []"
    unfolding forwarded_aus_def using assms(2) dw by (simp del: dropWhile_eq_Nil_conv)
  then have "frame_buffers env data s = []"
    using callback_carries [of s data env] by simp
  then show ?thesis
    using no assms(2) by (simp add: callback_queue [OF assms(1) True] callback_had_idr [OF assms(1) True])
qed (simp add: frame_callback_refused assms)

lemma no_keyframe_no_output_witness:
  "frame_queue (fst (frame_callback demo_env (Some [0, 0, 0, 1, 0x41, 0x9A])
     (demo_source UVC_FRAME_FORMAT_H264, demo_fs))) = []"
proof -
  have "\<forall>u \<in> set (parse_all UVC_FRAME_FORMAT_H264 [0, 0, 0, 1, 0x41, 0x9A]).
      utype u \<noteq> UNIT_FRAME_IDR"
    by code_simp
  then show ?thesis
    using no_keyframe_no_output [OF demo_wf, of UVC_FRAME_FORMAT_H264 "[0, 0, 0, 1, 0x41, 0x9A]"
        demo_env demo_fs]
    by (simp add: demo_source_def pipeline_init_def)
qed

text \<open>
  Claim C23. The first keyframe, and every keyframe after a parameter set was seen, is forwarded
  with the current sets in front of its IDR picture: for each type the last set of the access
  unit that fits, or else the one held before (with a VPS for H.265).
\<close>
theorem keyframe_carries_sets:
  assumes "sets_wf s" "au_has_idr us" "\<forall>u \<in> set us. ubytes u \<noteq> []"
    and "\<not> had_idr s \<or> send_sps_pps s \<or> (\<exists>u \<in> set us. is_pset u \<and> unit_storable u)"
  shows "\<exists>b. frame_queue (fst (deliver_au ts us (s, updated))) = frame_queue s @ [Frame b] \<and>
    content b = map Some (weave
      ((if frame_format s = UVC_FRAME_FORMAT_H265
        then latest UNIT_VPS us (set_bytes (vps s)) else [])
       @ latest UNIT_SPS us (set_bytes (sps s)) @ latest UNIT_PPS us (set_bytes (pps s))) us)"
proof -
  have wf: "sets_wf (fst (s, updated))" using assms(1) by simp
  let ?s = "fst (fold cache_parameter_set us (s, updated))"
  note d = deliver_spec_fields [where us = us and su = "(s, updated)"]
  have fw: "au_forwarded (had_idr s) us"
    using assms(2) idr_payload [OF assms(3,2)] by (simp add: au_forwarded_def)
  have pre: "au_prefix ?s us = prefix_bytes ?s"
    using assms(2,4) fold_cache_bytes(4) [OF wf, of us] d(1) by (auto simp: au_prefix_def)
  show ?thesis
    by (rule exI [of _ "au_buffer ts us ?s"])
      (simp add: deliver_au_eq assms(1) d fw au_pushed_def au_buffer_def pre prefix_bytes_def
        fold_cache_bytes)
qed

lemma keyframe_carries_sets_witness:
  "\<exists>b. frame_queue (fst (deliver_au 7
      [\<lparr>utype = UNIT_SPS, ubytes = [0, 0, 1, 0x67, 9]\<rparr>, \<lparr>utype = UNIT_FRAME_IDR, ubytes = demo_idr\<rparr>]
      ((demo_source UVC_FRAME_FORMAT_H264)\<lparr>had_idr := True\<rparr>, False))) = [Frame b] \<and>
    content b = map Some ([0, 0, 1, 0x67, 9] @ default_pps @ demo_idr)"
  using keyframe_carries_sets [of "(demo_source UVC_FRAME_FORMAT_H264)\<lparr>had_idr := True\<rparr>"
      "[\<lparr>utype = UNIT_SPS, ubytes = [0, 0, 1, 0x67, 9]\<rparr>, \<lparr>utype = UNIT_FRAME_IDR, ubytes = demo_idr\<rparr>]"
      7 False] demo_wf [of UVC_FRAME_FORMAT_H264]
  by (simp add: sets_wf_def au_has_idr_def demo_idr_def nal_is_parameter_set_def unit_storable_def
      SPSPPSBUFSZ_def latest_def demo_source_def pipeline_init_def set_bytes_array_of)

text \<open>
  The disk cache follows the sets in memory: a callback either leaves all three
  parameter sets and the file system alone, or leaves the file of the current device and mode
  with exactly the new sets and no other file changed.
\<close>
theorem frame_callback_store:
  assumes "sets_wf s" "frame_accepted (Some data) s"
    and "cache_writable fs (spspps_key_snapshot s) p"
    and "frame_callback env (Some data) (s, fs) = (s', fs')"
  shows "fs' = fs \<and> vps s' = vps s \<and> sps s' = sps s \<and> pps s' = pps s \<or>
    files fs' = (files fs)(p \<mapsto>
      (if frame_format s = UVC_FRAME_FORMAT_H265 then set_bytes (vps s') else [])
      @ set_bytes (sps s') @ set_bytes (pps s'))"
proof -
  let ?r = "fold (deliver_spec (arrival_ts env s)) (frame_units (frame_format s) data)
      (latch_base_time env s, False)"
  have wf: "sets_wf (fst ?r)" using assms(1) by (intro fold_deliver_wf) (simp add: elem_simps)
  have key: "spspps_key_snapshot (fst ?r) = spspps_key_snapshot s"
    by (simp add: fold_deliver_key elem_simps)
  have h: "key_h265 (spspps_key_snapshot s) \<longleftrightarrow> frame_format s = UVC_FRAME_FORMAT_H265"
    by (simp add: spspps_key_snapshot_def split: option.split)
  have s': "s' = fst ?r"
    using assms(4) by (simp add: frame_callback_accepted [OF assms(2)] process_frame_eq [OF assms(1)]
        split: prod.splits)
  have fs': "fs' = (if snd ?r then store_spspps s' (spspps_key_snapshot s) fs else fs)"
    using assms(4) key by (simp add: frame_callback_accepted [OF assms(2)]
        process_frame_eq [OF assms(1)] s' split: prod.splits if_splits)
  show ?thesis
  proof (cases "snd ?r")
    case True
    then show ?thesis
      using store_spspps_files(1) [OF assms(3), of s'] wf
      by (simp add: fs' cache_image_wf h s' [symmetric])
  next
    case False
    then show ?thesis using fold_deliver_clean [OF False] by (simp add: fs' s' elem_simps)
  qed
qed

lemma frame_callback_store_witness:
  "files (snd (frame_callback demo_env (Some [0, 0, 1, 0x67, 9, 0, 0, 1, 0x65, 0x88])
     (demo_source UVC_FRAME_FORMAT_H264, demo_fs))) ''/h/.spspps/0_h264_0x0'' =
   Some ([0, 0, 1, 0x67, 9] @ default_pps)"
proof -
  let ?d = "[0, 0, 1, 0x67, 9, 0, 0, 1, 0x65, 0x88]" and ?p = "''/h/.spspps/0_h264_0x0''"
  obtain s' fs' where r: "frame_callback demo_env (Some ?d)
      (demo_source UVC_FRAME_FORMAT_H264, demo_fs) = (s', fs')" by fastforce
  have acc: "frame_accepted (Some ?d) (demo_source UVC_FRAME_FORMAT_H264)"
    by (simp add: frame_accepted_def demo_source_def)
  have w: "cache_writable demo_fs (spspps_key_snapshot (demo_source UVC_FRAME_FORMAT_H264)) ?p"
    by code_simp
  have sets: "set_bytes (sps (fst (process_frame demo_env ?d (demo_source UVC_FRAME_FORMAT_H264)))) =
        [0, 0, 1, 0x67, 9]"
      "set_bytes (pps (fst (process_frame demo_env ?d (demo_source UVC_FRAME_FORMAT_H264)))) =
        default_pps"
    by code_simp+
  have s': "s' = fst (process_frame demo_env ?d (demo_source UVC_FRAME_FORMAT_H264))"
    using fst_frame_callback [OF acc, of demo_env demo_fs] r by simp
  have "set_bytes (sps (demo_source UVC_FRAME_FORMAT_H264)) = default_sps"
    by (simp add: demo_source_def pipeline_init_def set_bytes_array_of)
  then have "sps s' \<noteq> sps (demo_source UVC_FRAME_FORMAT_H264)"
    using sets(1) by (auto simp: s' default_sps_def)
  moreover have "frame_format (demo_source UVC_FRAME_FORMAT_H264) = UVC_FRAME_FORMAT_H264"
    by (simp add: demo_source_def pipeline_init_def)
  ultimately show ?thesis
    using frame_callback_store [OF demo_wf acc w r] sets by (simp add: r s' [symmetric])
qed

lemma callback_wf:
  assumes "sets_wf s"
  shows "sets_wf (fst (frame_callback env frame (s, fs)))"
proof (cases "frame_accepted frame s")
  case True
  then obtain data where d: "frame = Some data" by (cases frame) (auto simp: frame_accepted_def)
  show ?thesis
    using assms fst_frame_callback [of data s env fs] True
    by (simp add: d process_frame_eq fold_deliver_wf elem_simps)
qed (simp add: frame_callback_refused assms)

text \<open>
  Memory safety of the parameter-set arrays: whatever the camera delivers, each of the
  three arrays keeps its 1024 bytes and a length between 0 and 1024.
\<close>
theorem frame_callback_sets_wf:
  assumes "sets_wf s"
  shows "sets_wf (fst (frame_callback env frame (s, fs)))"
  using assms by (rule callback_wf)

lemma frame_callback_sets_wf_witness:
  "sets_wf (fst (frame_callback demo_env (Some demo_idr)
     (demo_source UVC_FRAME_FORMAT_H265, demo_fs)))"
  by (rule frame_callback_sets_wf [OF demo_wf])

subsection \<open>An H.265 stream without parameter sets\<close>

definition defaults_held :: "pipeline \<Rightarrow> bool" where
  \<comment> \<open>negotiated for H.265, no keyframe yet, and the sets the constructor installed\<close>
  "defaults_held s \<longleftrightarrow> sets_wf s \<and> frame_format s = UVC_FRAME_FORMAT_H265 \<and> \<not> had_idr s \<and>
     set_bytes (vps s) = [] \<and> set_bytes (sps s) = default_sps \<and> set_bytes (pps s) = default_pps"

lemma init_defaults: "defaults_held ((pipeline_init UVC_FRAME_FORMAT_H265)\<lparr>clock := c\<rparr>)"
  using sets_wf_init [of UVC_FRAME_FORMAT_H265]
  by (simp add: defaults_held_def pipeline_init_def set_bytes_array_of sets_wf_def)
    (simp add: set_bytes_def)

definition setless :: "nal_unit list \<Rightarrow> bool" where
  "setless us \<longleftrightarrow> (\<forall>u \<in> set us. \<not> is_pset u)"

lemma latest_setless:
  "setless us \<Longrightarrow> t \<in> {UNIT_VPS, UNIT_SPS, UNIT_PPS} \<Longrightarrow> latest t us held = held"
  unfolding latest_def setless_def
  by (induction us arbitrary: held) (auto simp: nal_is_parameter_set_def)

lemma cache_keeps_defaults:
  assumes "defaults_held (fst su)" "setless us"
  shows "defaults_held (fst (fold cache_parameter_set us su))"
  using assms fold_cache_bytes [of su us] fold_cache_wf [of su us]
  by (simp add: defaults_held_def latest_setless deliver_spec_fields(1,6))

lemma deliver_keeps_defaults:
  assumes "defaults_held (fst su)" "setless us" "\<not> au_has_idr us"
  shows "defaults_held (fst (deliver_spec ts us su)) \<and>
    frame_queue (fst (deliver_spec ts us su)) = frame_queue (fst su)"
proof -
  have "\<not> au_forwarded (had_idr (fst su)) us"
    using assms by (simp add: au_forwarded_def defaults_held_def)
  then show ?thesis using cache_keeps_defaults [OF assms(1,2)] by (simp add: deliver_spec_fields)
qed

lemma fold_keeps_defaults:
  "defaults_held (fst su) \<Longrightarrow> \<forall>us \<in> set aus. setless us \<and> \<not> au_has_idr us \<Longrightarrow>
   defaults_held (fst (fold (deliver_spec ts) aus su)) \<and>
   frame_queue (fst (fold (deliver_spec ts) aus su)) = frame_queue (fst su)"
proof (induction aus arbitrary: su)
  case (Cons us aus)
  then show ?case using deliver_keeps_defaults [of su us ts] Cons.IH [of "deliver_spec ts us su"] by simp
qed simp

lemma first_idr_pushed:
  "defaults_held (fst su) \<Longrightarrow> \<forall>us \<in> set aus. setless us \<Longrightarrow> units_nonempty aus \<Longrightarrow>
   \<exists>us \<in> set aus. au_has_idr us \<Longrightarrow>
   \<exists>b bs. pushed_buffers ts aus su = b # bs \<and>
     content b = map Some (weave (default_sps @ default_pps) (hd (dropWhile (\<lambda>us. \<not> au_has_idr us) aus)))"
proof (induction aus arbitrary: su)
  case (Cons us aus)
  let ?s = "fst (fold cache_parameter_set us su)"
  have us: "setless us" "\<forall>u \<in> set us. ubytes u \<noteq> []" "\<not> had_idr (fst su)"
    using Cons.prems by (auto simp: units_nonempty_def defaults_held_def)
  have held: "defaults_held ?s" using cache_keeps_defaults [OF Cons.prems(1) us(1)] .
  show ?case
  proof (cases "au_has_idr us")
    case True
    then have "au_forwarded (had_idr ?s) us" using idr_payload [OF us(2)] by (simp add: au_forwarded_def)
    then show ?thesis using True held
      by (simp add: Let_def au_buffer_def au_prefix_def prefix_bytes_def defaults_held_def)
  next
    case False
    then have "\<not> au_forwarded (had_idr ?s) us" using held by (simp add: au_forwarded_def defaults_held_def)
    then show ?thesis
      using False Cons.IH [of "deliver_spec ts us su"] Cons.prems
        deliver_keeps_defaults [OF Cons.prems(1) us(1) False]
      by (simp add: Let_def units_nonempty_def)
  qed
qed simp

definition carries_no_set :: "byte list \<Rightarrow> bool" where
  "carries_no_set data \<longleftrightarrow> setless (parse_all UVC_FRAME_FORMAT_H265 data)"

definition carries_idr :: "byte list \<Rightarrow> bool" where
  "carries_idr data \<longleftrightarrow> au_has_idr (parse_all UVC_FRAME_FORMAT_H265 data)"

lemma units_of_frame:
  assumes "carries_no_set data"
  shows "\<forall>us \<in> set (frame_units UVC_FRAME_FORMAT_H265 data). setless us"
    "carries_idr data \<longleftrightarrow> (\<exists>us \<in> set (frame_units UVC_FRAME_FORMAT_H265 data). au_has_idr us)"
  using assms concat_frame_units [of UVC_FRAME_FORMAT_H265 data, symmetric]
  by (auto simp: carries_no_set_def carries_idr_def setless_def au_has_idr_def)

lemma no_cache_file: "snd (open_spspps_file fs key (CHR ''r'')) = None \<Longrightarrow> load_spspps fs key s = s"
  by (cases "open_spspps_file fs key (CHR ''r'')") (simp add: load_spspps_def)

lemma early_keeps_defaults:
  assumes "defaults_held s" "carries_no_set data" "\<not> carries_idr data"
    "frame_callback env (Some data) (s, fs) = (s', fs')"
  shows "defaults_held s' \<and> frame_queue s' = frame_queue s"
proof (cases "frame_accepted (Some data) s")
  case True
  have l: "defaults_held (latch_base_time env s)"
    using assms(1) by (simp add: defaults_held_def elem_simps)
  have "s' = fst (fold (deliver_spec (arrival_ts env s)) (frame_units UVC_FRAME_FORMAT_H265 data)
      (latch_base_time env s, False))"
    using fst_frame_callback [OF True, of env fs] process_frame_eq [of s env data] assms(1,4)
    by (simp add: defaults_held_def)
  then show ?thesis
    using fold_keeps_defaults [of "(latch_base_time env s, False)"] l units_of_frame [OF assms(2)] assms(3)
    by (simp add: elem_simps)
qed (use assms in \<open>simp add: frame_callback_refused\<close>)

lemma stream_keeps_defaults:
  "defaults_held (fst sf) \<Longrightarrow> \<forall>(env, d) \<in> set early. carries_no_set d \<and> \<not> carries_idr d \<Longrightarrow>
   defaults_held (fst (fold (\<lambda>(env, d). frame_callback env (Some d)) early sf)) \<and>
   frame_queue (fst (fold (\<lambda>(env, d). frame_callback env (Some d)) early sf)) = frame_queue (fst sf)"
proof (induction early arbitrary: sf)
  case (Cons e early)
  obtain env d s fs s' fs' where e: "e = (env, d)" "sf = (s, fs)" "frame_callback env (Some d) (s, fs) = (s', fs')"
    by (metis prod.exhaust)
  have "defaults_held s' \<and> frame_queue s' = frame_queue s"
    using early_keeps_defaults [OF _ _ _ e(3)] Cons.prems e by auto
  then show ?case using Cons.IH [of "(s', fs')"] Cons.prems e by simp
qed simp

text \<open>
  Claim C40. An H.265 stream that sends no parameter set up to its first keyframe, with no cache file to
  open, gets that keyframe sent out behind the H.264 defaults that the element's constructor
  installs: whatever came before it was dropped, and the prefix is chosen by the lengths of the
  arrays, never by the codec of their contents.
\<close>
theorem h265_keyframe_gets_h264_defaults:
  assumes "defaults_held s0" "snd (open_spspps_file fs key (CHR ''r'')) = None"
    and "fold (\<lambda>(env, d). frame_callback env (Some d)) early (load_spspps fs key s0, fs0) = (s, fs1)"
    and "\<forall>(env, d) \<in> set early. carries_no_set d \<and> \<not> carries_idr d"
    and "carries_no_set data" "carries_idr data" "frame_accepted (Some data) s"
  shows "\<exists>b bs. frame_queue (fst (frame_callback env (Some data) (s, fs1))) =
      frame_queue s0 @ Frame b # map Frame bs \<and>
    content b = map Some (weave (default_sps @ default_pps)
      (hd (dropWhile (\<lambda>us. \<not> au_has_idr us) (frame_units UVC_FRAME_FORMAT_H265 data))))"
proof -
  have s: "defaults_held s" "frame_queue s = frame_queue s0"
    using stream_keeps_defaults [of "(s0, fs0)" early] assms(1,3,4) no_cache_file [OF assms(2)]
    by simp_all
  have "defaults_held (fst (latch_base_time env s, False))"
    using s(1) by (simp add: defaults_held_def elem_simps)
  from first_idr_pushed [OF this units_of_frame(1) [OF assms(5)] frame_units_nonempty
      units_of_frame(2) [OF assms(5), THEN iffD1, OF assms(6)], of "arrival_ts env s"]
  obtain b bs where b: "frame_buffers env data s = b # bs"
      "content b = map Some (weave (default_sps @ default_pps)
        (hd (dropWhile (\<lambda>us. \<not> au_has_idr us) (frame_units UVC_FRAME_FORMAT_H265 data))))"
    using s(1) unfolding frame_buffers_def defaults_held_def by (simp only:) blast
  have "sets_wf s" using s(1) by (simp add: defaults_held_def)
  from callback_queue [OF this assms(7), of env fs1] show ?thesis
    by (intro exI [of _ b] exI [of _ bs] conjI b(2)) (simp only: s(2) b(1) list.map)
qed

lemma h265_keyframe_gets_h264_defaults_witness:
  "\<exists>b bs. frame_queue (fst (frame_callback demo_env (Some [0, 0, 0, 1, 0x26, 0x01, 0x80])
      (frame_callback demo_env (Some [0, 0, 0, 1, 0x02, 0x01, 0x80])
         ((pipeline_init UVC_FRAME_FORMAT_H265)\<lparr>clock := Some 0\<rparr>, demo_fs)))) = Frame b # map Frame bs \<and>
    content b = map Some (default_sps @ default_pps @ [0, 0, 0, 1, 0x26, 0x01, 0x80])"
proof -
  let ?s0 = "(pipeline_init UVC_FRAME_FORMAT_H265)\<lparr>clock := Some 0\<rparr>"
  let ?key = "spspps_key_snapshot ?s0"
  obtain s fs where r: "frame_callback demo_env (Some [0, 0, 0, 1, 0x02, 0x01, 0x80]) (?s0, demo_fs) = (s, fs)"
    by fastforce
  have none: "snd (open_spspps_file demo_fs ?key (CHR ''r'')) = None" by code_simp
  note l = no_cache_file [OF none, of ?s0]
  have "frame_accepted (Some [0, 0, 0, 1, 0x26, 0x01, 0x80])
      (fst (frame_callback demo_env (Some [0, 0, 0, 1, 0x02, 0x01, 0x80]) (?s0, demo_fs)))"
    by code_simp
  then have acc: "frame_accepted (Some [0, 0, 0, 1, 0x26, 0x01, 0x80]) s" by (simp add: r)
  have d: "carries_no_set [0, 0, 0, 1, 0x02, 0x01, 0x80]" "\<not> carries_idr [0, 0, 0, 1, 0x02, 0x01, 0x80]"
    "carries_no_set [0, 0, 0, 1, 0x26, 0x01, 0x80]" "carries_idr [0, 0, 0, 1, 0x26, 0x01, 0x80]"
    by code_simp+
  have w: "weave (default_sps @ default_pps) (hd (dropWhile (\<lambda>us. \<not> au_has_idr us)
      (frame_units UVC_FRAME_FORMAT_H265 [0, 0, 0, 1, 0x26, 0x01, 0x80]))) =
      default_sps @ default_pps @ [0, 0, 0, 1, 0x26, 0x01, 0x80]"
    by code_simp
  have f: "fold (\<lambda>(env, d). frame_callback env (Some d)) [(demo_env, [0, 0, 0, 1, 0x02, 0x01, 0x80])]
      (load_spspps demo_fs ?key ?s0, demo_fs) = (s, fs)"
    by (simp add: l r)
  have e: "\<forall>(env, d) \<in> set [(demo_env, [0, 0, 0, 1, 0x02, 0x01, 0x80])].
      carries_no_set d \<and> \<not> carries_idr d"
    using d(1,2) by simp
  from h265_keyframe_gets_h264_defaults [OF init_defaults none f e d(3,4) acc, of demo_env]
  show ?thesis unfolding w r by (simp add: pipeline_init_def)
qed

end
