(* ===== verification/Quirks.thy ===== *)
theory Quirks
  imports Base
begin

text \<open>
  The per-device limits of \<open>quirks.c\<close>: the table lookup, the pixel-rate arithmetic and the
  filter that cuts advertised caps down to the deliverable ones. \<open>guint\<close> is a 32-bit and
  \<open>guint64\<close> a 64-bit word, so the pixel product wraps where the C product does. Caps are the
  list of their structures; a structure keeps its name, the two geometry fields (absent when
  \<open>gst_structure_get_int\<close> would fail) and the frame rate as a \<open>GValue\<close>. A \<open>NULL\<close> table or
  \<open>NULL\<close> limits are \<open>None\<close>.

  Writing a frame-rate range into a structure is GStreamer's \<open>gst_structure_set\<close>; it is the
  parameter \<open>set_range\<close>, and what its documentation promises is \<open>range_setter\<close>: a range
  whose start lies below its end is stored, any other call leaves the field as it was.
\<close>

subsection \<open>Rows and limits\<close>

record quirk_entry =
  vid :: u16
  pid :: u16
  row_flags :: u32
  row_max_pixel_rate :: u64

record quirk_limits =
  flags :: u32
  max_pixel_rate :: u64

definition QUIRK_MAX_PIXEL_RATE :: u32 where "QUIRK_MAX_PIXEL_RATE = push_bit 1 1"

definition quirks_find_row :: "quirk_entry list option \<Rightarrow> u16 \<Rightarrow> u16 \<Rightarrow> quirk_entry option" where
  "quirks_find_row table v p =
     (case table of
        None \<Rightarrow> None
      | Some rows \<Rightarrow> find (\<lambda>row. vid row = v \<and> pid row = p) rows)"

definition quirks_lookup_in :: "quirk_entry list option \<Rightarrow> u16 \<Rightarrow> u16 \<Rightarrow> u32" where
  "quirks_lookup_in table v p =
     (case quirks_find_row table v p of Some row \<Rightarrow> row_flags row | None \<Rightarrow> 0)"

definition quirks_limits_in :: "quirk_entry list option \<Rightarrow> u16 \<Rightarrow> u16 \<Rightarrow> quirk_limits" where
  "quirks_limits_in table v p =
     (case quirks_find_row table v p of
        None \<Rightarrow> \<lparr>flags = 0, max_pixel_rate = 0\<rparr>
      | Some row \<Rightarrow>
          \<lparr>flags = row_flags row,
           max_pixel_rate =
             (if and (row_flags row) QUIRK_MAX_PIXEL_RATE \<noteq> 0 then row_max_pixel_rate row else 0)\<rparr>)"

definition g_uvc_quirk_table :: "quirk_entry list" where
  "g_uvc_quirk_table =
     [\<lparr>vid = 0x2ca3, pid = 0x0023, row_flags = QUIRK_MAX_PIXEL_RATE,
       row_max_pixel_rate = 248832000\<rparr>]"

definition uvc_quirks_limits :: "u16 \<Rightarrow> u16 \<Rightarrow> quirk_limits" where
  "uvc_quirks_limits v p = quirks_limits_in (Some g_uvc_quirk_table) v p"

definition uvc_quirks_lookup :: "u16 \<Rightarrow> u16 \<Rightarrow> u32" where
  "uvc_quirks_lookup v p = flags (uvc_quirks_limits v p)"

subsection \<open>Pixel rates\<close>

definition no_cap :: "quirk_limits option \<Rightarrow> bool" where
  "no_cap limits = (case limits of None \<Rightarrow> True | Some l \<Rightarrow> max_pixel_rate l = 0)"

definition uvc_quirk_mode_selectable :: "quirk_limits option \<Rightarrow> u32 \<Rightarrow> u32 \<Rightarrow> u32 \<Rightarrow> bool" where
  "uvc_quirk_mode_selectable limits width height fps =
     (if no_cap limits then True
      else (ucast width :: u64) * ucast height * ucast fps \<le> max_pixel_rate (the limits))"

definition uvc_quirk_max_fps :: "quirk_limits option \<Rightarrow> u32 \<Rightarrow> u32 \<Rightarrow> u32" where
  "uvc_quirk_max_fps limits width height =
     (if no_cap limits then -1
      else
        let pixels = (ucast width :: u64) * ucast height in
        if pixels = 0 then -1
        else
          let max_fps = max_pixel_rate (the limits) div pixels in
          if max_fps > 4294967295 then -1 else ucast max_fps)"

subsection \<open>Frame-rate values\<close>

type_synonym fraction = "int \<times> int"

datatype gvalue =
    GFraction int int
  | GFractionRange fraction fraction
  | GList "gvalue list"
  | GOther string

fun fraction_numerator :: "gvalue \<Rightarrow> int" where
  "fraction_numerator (GFraction num den) = num"
| "fraction_numerator _ = 0"

fun fraction_denominator :: "gvalue \<Rightarrow> int" where
  "fraction_denominator (GFraction num den) = den"
| "fraction_denominator _ = 1"

definition fps_of :: "int \<Rightarrow> int \<Rightarrow> u32" where
  "fps_of num den =
     (if num \<le> 0 \<or> den \<le> 0 then 0 else word_of_int ((num + den - 1) div den))"

definition quirks_fraction_fps :: "gvalue \<Rightarrow> u32" where
  "quirks_fraction_fps v = fps_of (fraction_numerator v) (fraction_denominator v)"

record gstructure =
  gname :: string
  gwidth :: "int option"
  gheight :: "int option"
  framerate :: "gvalue option"

type_synonym caps = "gstructure list"

type_synonym range_fn = "fraction \<Rightarrow> fraction \<Rightarrow> gvalue option \<Rightarrow> gvalue option"
  \<comment> \<open>the two ends and the field before, absent or present, to the field after\<close>

definition range_setter :: "range_fn \<Rightarrow> bool" where
  "range_setter f \<longleftrightarrow>
     (\<forall>a b c d v. 0 < b \<longrightarrow> 0 < d \<longrightarrow>
        f (a, b) (c, d) v = (if a * d < c * b then Some (GFractionRange (a, b) (c, d)) else v))"

subsection \<open>The filter\<close>

definition filter_rate :: "range_fn \<Rightarrow> quirk_limits option \<Rightarrow> u32 \<Rightarrow> u32 \<Rightarrow> gvalue \<Rightarrow> gvalue option"
  where
  \<comment> \<open>the three cases of the frame-rate field; \<open>None\<close> drops the structure\<close>
  "filter_rate set_range limits width height rates =
     (case rates of
        GFractionRange (min_num, min_den) (max_num, max_den) \<Rightarrow>
          (let cap = uvc_quirk_max_fps limits width height
           in if cap = -1 \<or> fps_of max_num max_den \<le> cap then Some rates
              else if min_den \<le> 0 \<or> fps_of min_num min_den > cap then None
              else set_range (min_num, min_den) (sint cap, 1) (Some rates)) \<comment> \<open>never removes it\<close>
      | GFraction num den \<Rightarrow>
          (if uvc_quirk_mode_selectable limits width height (quirks_fraction_fps rates)
           then Some rates else None)
      | GList vs \<Rightarrow>
          (let kept = filter (\<lambda>r. uvc_quirk_mode_selectable limits width height
                                (quirks_fraction_fps r)) vs
           in if kept = [] then None else Some (GList kept))
      | GOther t \<Rightarrow> Some rates)"

definition quirks_filter_structure ::
  "range_fn \<Rightarrow> quirk_limits option \<Rightarrow> gstructure \<Rightarrow> gstructure option" where
  "quirks_filter_structure set_range limits s =
     (case (gwidth s, gheight s) of
        (Some width, Some height) \<Rightarrow>
          (case framerate s of
             None \<Rightarrow> Some s
           | Some rates \<Rightarrow>
               (case filter_rate set_range limits (word_of_int width) (word_of_int height) rates of
                  None \<Rightarrow> None
                | Some v \<Rightarrow> Some (s\<lparr>framerate := Some v\<rparr>)))
      | _ \<Rightarrow> Some s)"

function filter_loop :: "(gstructure \<Rightarrow> gstructure option) \<Rightarrow> caps \<Rightarrow> nat \<Rightarrow> caps" where
  "filter_loop f deliverable i =
     (if i < length deliverable then
        (case f (deliverable ! i) of
           Some s \<Rightarrow> filter_loop f (deliverable[i := s]) (i + 1)
         | None \<Rightarrow> filter_loop f (take i deliverable @ drop (i + 1) deliverable) i)
      else deliverable)"
  by pat_completeness auto
termination
  by (relation "measure (\<lambda>(f, deliverable, i). length deliverable - i)") auto

declare filter_loop.simps [simp del]

definition uvc_quirks_filter_caps :: "range_fn \<Rightarrow> quirk_limits option \<Rightarrow> caps \<Rightarrow> caps" where
  "uvc_quirks_filter_caps set_range limits advertised =
     (if no_cap limits then advertised
      else filter_loop (quirks_filter_structure set_range limits) advertised 0)"

subsection \<open>The loop is a partial map\<close>

lemma filter_loop_eq:
  "i \<le> length caps \<Longrightarrow>
   filter_loop f caps i = take i caps @ List.map_filter f (drop i caps)"
proof (induction f caps i rule: filter_loop.induct)
  case (1 f caps i)
  show ?case
  proof (cases "i < length caps")
    case True
    note dr = Cons_nth_drop_Suc [OF True, symmetric]
    show ?thesis
    proof (cases "f (caps ! i)")
      case None
      then have "filter_loop f caps i = filter_loop f (take i caps @ drop (i + 1) caps) i"
        using True by (subst filter_loop.simps) simp
      also have "\<dots> = take i caps @ List.map_filter f (drop (Suc i) caps)"
        using "1.IH"(1) [OF True None] True by simp
      finally show ?thesis by (simp add: dr None List.map_filter_simps)
    next
      case (Some s)
      then have "filter_loop f caps i = filter_loop f (caps[i := s]) (i + 1)"
        using True by (subst filter_loop.simps) simp
      also have "\<dots> = take (Suc i) (caps[i := s]) @ List.map_filter f (drop (Suc i) caps)"
        using "1.IH"(2) [OF True Some] True by simp
      finally show ?thesis
        using True by (simp add: dr Some List.map_filter_simps take_Suc_conv_app_nth)
    qed
  next
    case False
    with "1.prems" show ?thesis by (simp add: filter_loop.simps List.map_filter_simps)
  qed
qed

lemma filter_caps_eq:
  "uvc_quirks_filter_caps set_range limits caps =
     (if no_cap limits then caps
      else List.map_filter (quirks_filter_structure set_range limits) caps)"
  by (simp add: uvc_quirks_filter_caps_def filter_loop_eq)

subsection \<open>Arithmetic\<close>

lemma unat_u32: "unat (w :: u32) < 4294967296"
  using unsigned_less [of w] by simp

lemma unat_ucast_u64 [simp]: "unat (ucast (w :: u32) :: u64) = unat w"
  using unat_u32 [of w] by (simp add: unsigned_ucast_eq take_bit_nat_eq_self)

lemma unat_ucast_u32: "unat (x :: u64) < 4294967296 \<Longrightarrow> unat (ucast x :: u32) = unat x"
  by (simp add: unsigned_ucast_eq take_bit_nat_eq_self)

lemma unat_pixels: "unat ((ucast (w :: u32) :: u64) * ucast (h :: u32)) = unat w * unat h"
proof -
  have "unat w * unat h < 4294967296 * 4294967296"
    using unat_u32 [of w] unat_u32 [of h] by (intro mult_strict_mono) auto
  then show ?thesis
    by (simp add: unat_word_ariths)
qed

lemma unat_pixel_rate:
  fixes w h f :: u32
  assumes "unat w * unat h * unat f < 2 ^ 64"
  shows "unat ((ucast w :: u64) * ucast h * ucast f) = unat w * unat h * unat f"
  using assms unat_pixels [of w h]
  by (simp add: unat_word_ariths(2) [of "ucast w * ucast h"])

lemma selectable_nat:
  assumes "unat w * unat h * unat f < 2 ^ 64" "max_pixel_rate l \<noteq> 0"
  shows "uvc_quirk_mode_selectable (Some l) w h f \<longleftrightarrow>
    unat w * unat h * unat f \<le> unat (max_pixel_rate l)"
  using assms unat_pixel_rate [OF assms(1)]
  by (simp add: uvc_quirk_mode_selectable_def no_cap_def word_le_nat_alt)

lemma max_fps_nat:
  assumes "max_pixel_rate l \<noteq> 0" "w \<noteq> 0" "h \<noteq> 0"
  shows "unat (uvc_quirk_max_fps (Some l) w h) =
    min (unat (max_pixel_rate l) div (unat w * unat h)) 4294967295"
proof -
  let ?p = "(ucast w :: u64) * ucast h" and ?q = "max_pixel_rate l div ((ucast w :: u64) * ucast h)"
  have pos: "0 < unat w * unat h" using assms(2,3) by (simp add: unat_gt_0)
  then have "?p \<noteq> 0" using unat_pixels [of w h] by (metis less_irrefl unat_0)
  moreover have q: "unat ?q = unat (max_pixel_rate l) div (unat w * unat h)"
    by (simp add: unat_div unat_pixels)
  moreover have "unat (ucast ?q :: u32) = unat ?q" if "\<not> ?q > 4294967295"
    using that by (intro unat_ucast_u32) (simp add: word_less_nat_alt)
  moreover have "unat (- 1 :: u32) = 4294967295"
    by (simp add: unsigned_minus_1_eq_mask mask_eq_exp_minus_1)
  ultimately show ?thesis
    using assms(1)
    by (auto simp: uvc_quirk_max_fps_def no_cap_def Let_def word_less_nat_alt min_def)
qed

text \<open>
  Claim C28. \<open>uvc_quirk_max_fps\<close> is exactly the frontier of \<open>uvc_quirk_mode_selectable\<close>: at every
  geometry the rates that may be selected are those up to it, so the clamp of a rate range and
  the filter of a rate list agree (as long as the 64-bit product does not wrap).
\<close>
theorem max_fps_is_frontier:
  assumes "max_pixel_rate l \<noteq> 0" "width \<noteq> 0" "height \<noteq> 0"
    and "unat width * unat height * unat fps < 2 ^ 64"
  shows "uvc_quirk_mode_selectable (Some l) width height fps \<longleftrightarrow>
    fps \<le> uvc_quirk_max_fps (Some l) width height"
proof -
  have pos: "0 < unat width * unat height" using assms(2,3) by (simp add: unat_gt_0)
  have "unat fps \<le> 4294967295" using unat_u32 [of fps] by simp
  then have "fps \<le> uvc_quirk_max_fps (Some l) width height \<longleftrightarrow>
      unat fps \<le> unat (max_pixel_rate l) div (unat width * unat height)"
    by (simp add: word_le_nat_alt max_fps_nat [OF assms(1-3)])
  also have "\<dots> \<longleftrightarrow> unat fps * (unat width * unat height) \<le> unat (max_pixel_rate l)"
    by (rule less_eq_div_iff_mult_less_eq [OF pos])
  finally show ?thesis
    using selectable_nat [OF assms(4,1)] by (simp add: mult.commute mult.left_commute)
qed

lemma max_fps_is_frontier_witness:
  "uvc_quirk_mode_selectable (Some (uvc_quirks_limits 0x2ca3 0x0023)) 3840 2160 30 \<and>
   \<not> uvc_quirk_mode_selectable (Some (uvc_quirks_limits 0x2ca3 0x0023)) 3840 2160 31"
proof -
  have c: "max_pixel_rate (uvc_quirks_limits 0x2ca3 0x0023) = 248832000"
    by code_simp
  then have m: "uvc_quirk_max_fps (Some (uvc_quirks_limits 0x2ca3 0x0023)) 3840 2160 = 30"
    by (simp add: uvc_quirk_max_fps_def no_cap_def)
  show ?thesis
    using max_fps_is_frontier [of "uvc_quirks_limits 0x2ca3 0x0023" 3840 2160 30]
      max_fps_is_frontier [of "uvc_quirks_limits 0x2ca3 0x0023" 3840 2160 31]
    by (simp add: c m)
qed

subsection \<open>What the filter keeps\<close>

fun rates_of :: "gvalue option \<Rightarrow> gvalue list" where
  "rates_of (Some (GFraction num den)) = [GFraction num den]"
| "rates_of (Some (GList vs)) = vs"
| "rates_of _ = []"

definition structure_modes :: "gstructure \<Rightarrow> (string \<times> int \<times> int \<times> gvalue) list" where
  \<comment> \<open>the discrete modes of one structure: its geometry with each of its rates\<close>
  "structure_modes s =
     (case (gwidth s, gheight s) of
        (Some w, Some h) \<Rightarrow> map (\<lambda>r. (gname s, w, h, r)) (rates_of (framerate s))
      | _ \<Rightarrow> [])"

definition caps_modes :: "caps \<Rightarrow> (string \<times> int \<times> int \<times> gvalue) list" where
  "caps_modes cs = concat (map structure_modes cs)"

definition mode_ok :: "quirk_limits option \<Rightarrow> string \<times> int \<times> int \<times> gvalue \<Rightarrow> bool" where
  "mode_ok limits m =
     (case m of (n, w, h, r) \<Rightarrow>
        uvc_quirk_mode_selectable limits (word_of_int w) (word_of_int h) (quirks_fraction_fps r))"

lemma map_filter_mem: "y \<in> set (List.map_filter f xs) \<Longrightarrow> \<exists>x \<in> set xs. f x = Some y"
  by (induction xs) (auto simp: List.map_filter_simps split: option.splits)

lemma concat_map_filter:
  assumes "\<And>x. x \<in> set xs \<Longrightarrow> (case f x of None \<Rightarrow> [] | Some y \<Rightarrow> g y) = filter P (g x)"
  shows "concat (map g (List.map_filter f xs)) = filter P (concat (map g xs))"
  using assms
proof (induction xs)
  case (Cons x xs)
  then have "(case f x of None \<Rightarrow> [] | Some y \<Rightarrow> g y) = filter P (g x)" by simp
  with Cons show ?case by (cases "f x") (simp_all add: List.map_filter_simps)
qed (simp add: List.map_filter_simps)

lemma structure_modes_filtered:
  assumes "range_setter set_range"
  shows "(case quirks_filter_structure set_range limits s of None \<Rightarrow> [] | Some y \<Rightarrow> structure_modes y)
    = filter (mode_ok limits) (structure_modes s)"
proof (cases "\<exists>w h rates. gwidth s = Some w \<and> gheight s = Some h \<and> framerate s = Some rates")
  case False
  then show ?thesis
    by (auto simp: quirks_filter_structure_def structure_modes_def split: option.splits)
next
  case True
  then obtain w h rates where s: "gwidth s = Some w" "gheight s = Some h" "framerate s = Some rates"
    by auto
  have range: "set_range (a, b) (c, 1) (Some r) =
      Some (if a < c * b then GFractionRange (a, b) (c, 1) else r)" if "0 < b" for a b c r
    using assms that by (simp add: range_setter_def)
  show ?thesis
    using s range
    by (cases rates)
      (auto simp: quirks_filter_structure_def structure_modes_def filter_rate_def mode_ok_def
        Let_def filter_map comp_def split: prod.splits)
qed

definition discrete :: "gstructure \<Rightarrow> bool" where
  \<comment> \<open>a geometry with one rate or a list of rates\<close>
  "discrete s \<longleftrightarrow> gwidth s \<noteq> None \<and> gheight s \<noteq> None \<and>
     (case framerate s of Some (GFraction n d) \<Rightarrow> True | Some (GList vs) \<Rightarrow> True | _ \<Rightarrow> False)"

lemma discrete_kept:
  assumes "quirks_filter_structure set_range limits s = Some t" "discrete t" "range_setter set_range"
  shows "discrete s \<and> structure_modes t \<noteq> []"
proof -
  have "gwidth t = gwidth s" "gheight t = gheight s"
    using assms(1) by (auto simp: quirks_filter_structure_def split: option.splits)
  then obtain w h where wh: "gwidth s = Some w" "gheight s = Some h" "gwidth t = Some w" "gheight t = Some h"
    using assms(2) by (auto simp: discrete_def)
  obtain v where v: "framerate s = Some v"
    using assms(1,2) by (cases "framerate s") (auto simp: discrete_def quirks_filter_structure_def wh)
  then obtain v' where v': "filter_rate set_range limits (word_of_int w) (word_of_int h) v = Some v'"
      "framerate t = Some v'"
    using assms(1) wh by (auto simp: quirks_filter_structure_def split: option.splits)
  show ?thesis
  proof (cases v)
    case (GFraction n d)
    then have "v' = v" using v'(1) by (simp add: filter_rate_def split: if_splits)
    then show ?thesis using GFraction v v' wh by (simp add: discrete_def structure_modes_def)
  next
    case (GList vs)
    then obtain ws where "v' = GList ws" "ws \<noteq> []"
      using v'(1) by (auto simp: filter_rate_def Let_def split: if_splits)
    then show ?thesis using GList v v' wh by (simp add: discrete_def structure_modes_def)
  next
    case (GFractionRange p q)
    obtain a b c d where pq: "p = (a, b)" "q = (c, d)" by (cases p; cases q)
    have r: "\<exists>p' q'. set_range (a, b) (k, 1) (Some v) = Some (GFractionRange p' q')" if "0 < b" for k
      using assms(3) that by (simp add: range_setter_def GFractionRange)
    have "\<exists>p' q'. v' = GFractionRange p' q'"
    proof (cases "v' = v")
      case False
      let ?k = "sint (uvc_quirk_max_fps limits (word_of_int w :: u32) (word_of_int h))"
      have "0 < b" "set_range (a, b) (?k, 1) (Some v) = Some v'"
        using False v'(1) by (simp_all add: GFractionRange pq filter_rate_def Let_def split: if_splits)
      then show ?thesis using r [of ?k] by simp
    qed (simp add: GFractionRange)
    then show ?thesis using v' assms(2) by (auto simp: discrete_def)
  next
    case (GOther x)
    then have "v' = GOther x" using v'(1) by (simp add: filter_rate_def)
    then show ?thesis using v' assms(2) by (simp add: discrete_def)
  qed
qed

text \<open>
  Claim C27. The filter keeps exactly the deliverable modes: in the caps it returns, the discrete
  modes (geometry and rate) are the advertised ones that \<open>uvc_quirk_mode_selectable\<close> accepts, in
  the order they were advertised; and for a camera with a limit nothing is left of a discrete
  geometry without such a mode, no structure with an empty list of rates either.
\<close>
theorem filter_caps_keeps_selectable:
  assumes "range_setter set_range"
  shows "caps_modes (uvc_quirks_filter_caps set_range limits advertised) =
      filter (mode_ok limits) (caps_modes advertised) \<and>
    (\<not> no_cap limits \<longrightarrow>
      (\<forall>s \<in> set (uvc_quirks_filter_caps set_range limits advertised).
         discrete s \<longrightarrow> structure_modes s \<noteq> [] \<and> (\<forall>m \<in> set (structure_modes s). mode_ok limits m)))"
proof (cases "no_cap limits")
  case True
  then have "mode_ok limits m" for m
    by (simp add: mode_ok_def uvc_quirk_mode_selectable_def split: prod.split)
  with True show ?thesis by (simp add: filter_caps_eq)
next
  case False
  have modes: "caps_modes (uvc_quirks_filter_caps set_range limits advertised) =
      filter (mode_ok limits) (caps_modes advertised)"
    unfolding filter_caps_eq caps_modes_def using False
      structure_modes_filtered [OF assms, of limits] by (simp add: concat_map_filter)
  have "structure_modes s \<noteq> [] \<and> (\<forall>m \<in> set (structure_modes s). mode_ok limits m)"
    if s: "s \<in> set (uvc_quirks_filter_caps set_range limits advertised)" and d: "discrete s" for s
  proof -
    obtain u where "quirks_filter_structure set_range limits u = Some s"
      using s False map_filter_mem by (fastforce simp: filter_caps_eq)
    moreover have "set (structure_modes s) \<subseteq>
        set (caps_modes (uvc_quirks_filter_caps set_range limits advertised))"
      using s by (auto simp: caps_modes_def)
    ultimately show ?thesis using discrete_kept [OF _ d assms] modes by auto
  qed
  with modes show ?thesis by blast
qed

definition collect_range :: range_fn where
  "collect_range mn mx v =
     (if fst mn * snd mx < fst mx * snd mn then Some (GFractionRange mn mx) else v)"

lemma collect_range_setter: "range_setter collect_range"
  by (simp add: range_setter_def collect_range_def)

definition demo_4k :: caps where
  "demo_4k =
     [\<lparr>gname = ''video/x-h264'', gwidth = Some 3840, gheight = Some 2160,
       framerate = Some (GList [GFraction 60 1, GFraction 50 1, GFraction 30000 1001,
         GFraction 25 1])\<rparr>,
      \<lparr>gname = ''video/x-h264'', gwidth = Some 7680, gheight = Some 4320,
       framerate = Some (GFraction 30 1)\<rparr>]"

lemma filter_caps_keeps_selectable_witness:
  "caps_modes (uvc_quirks_filter_caps collect_range (Some (uvc_quirks_limits 0x2ca3 0x0023)) demo_4k)
   = [(''video/x-h264'', 3840, 2160, GFraction 30000 1001),
      (''video/x-h264'', 3840, 2160, GFraction 25 1)]"
  unfolding filter_caps_keeps_selectable [OF collect_range_setter, THEN conjunct1] by code_simp

subsection \<open>Ranges, idempotence and the shipped table\<close>

lemma fps_of_le:
  fixes cap :: u32
  assumes "0 < d" "n \<le> int (unat cap) * d"
  shows "fps_of n d \<le> cap"
proof (cases "n \<le> 0")
  case False
  have "(n + d - 1) div d \<le> ((d - 1) + int (unat cap) * d) div d"
    using assms by (intro zdiv_mono1) auto
  also have "\<dots> = int (unat cap)" using assms(1) by (simp add: div_pos_pos_trivial)
  finally have "(n + d - 1) div d \<le> int (unat cap)" .
  moreover have "0 \<le> (n + d - 1) div d" using False assms(1) by (simp add: pos_imp_zdiv_nonneg_iff)
  ultimately show ?thesis
    using False assms(1) uint_lt2p [of cap]
    by (simp add: fps_of_def word_le_def uint_word_of_int mod_pos_pos_trivial)
qed (simp add: fps_of_def)

lemma fps_of_bound:
  assumes "num \<le> G_MAXINT" "0 < den"
  shows "unat (fps_of num den) \<le> 2147483647"
proof -
  have "fps_of num den \<le> (2147483647 :: u32)"
    using assms by (intro fps_of_le) (auto intro: order_trans [OF assms(1)])
  then show ?thesis by (simp add: word_le_nat_alt)
qed

lemma sint_small: "unat (x :: u32) < 2147483648 \<Longrightarrow> sint x = int (unat x)"
proof -
  assume "unat x < 2147483648"
  then have "int (unat x) < int 2147483648" by (simp only: of_nat_less_iff)
  then show "sint x = int (unat x)" by (simp add: sint_uint signed_take_bit_int_eq_self_iff order_trans [OF _ uint_ge_0])
qed

text \<open>
  Claim C29. A continuous range of rates is clamped to the ceiling: when part of the range lies
  below the cap, the field becomes the range from its minimum up to exactly the highest allowed
  rate, and every rate in it, fractional ones included, may be selected.
\<close>
theorem filter_clamps_range:
  fixes width height :: u32
  assumes "range_setter set_range" "max_pixel_rate l \<noteq> 0" "width \<noteq> 0" "height \<noteq> 0"
    and "0 < min_den" "0 < max_den" "max_num \<le> G_MAXINT"
    and "cap = uvc_quirk_max_fps (Some l) width height" "cap < fps_of max_num max_den"
    and "min_num < int (unat cap) * min_den"
  shows "filter_rate set_range (Some l) width height
      (GFractionRange (min_num, min_den) (max_num, max_den)) =
        Some (GFractionRange (min_num, min_den) (int (unat cap), 1)) \<and>
    (\<forall>n d. 0 < d \<longrightarrow> n \<le> int (unat cap) * d \<longrightarrow>
       uvc_quirk_mode_selectable (Some l) width height (fps_of n d))"
proof
  have small: "unat cap < 2147483648"
    using assms(9) fps_of_bound [OF assms(7,6)] by (simp add: word_less_nat_alt)
  have ge: "fps_of min_num min_den \<le> cap" using assms(5,10) by (intro fps_of_le) auto
  have "cap \<noteq> - 1" using small by (auto simp: unsigned_minus_1_eq_mask mask_eq_exp_minus_1)
  then show "filter_rate set_range (Some l) width height
      (GFractionRange (min_num, min_den) (max_num, max_den)) =
        Some (GFractionRange (min_num, min_den) (int (unat cap), 1))"
    using assms(1,5,8,9,10) ge small
    by (auto simp: filter_rate_def Let_def range_setter_def sint_small not_le not_less)
  have P: "0 < unat width * unat height" using assms(3,4) by (simp add: unat_gt_0)
  have "unat cap \<le> unat (max_pixel_rate l) div (unat width * unat height)"
    using max_fps_nat [OF assms(2-4)] assms(8) by simp
  then have R: "unat cap * (unat width * unat height) \<le> unat (max_pixel_rate l)"
    by (simp add: less_eq_div_iff_mult_less_eq [OF P])
  show "\<forall>n d. 0 < d \<longrightarrow> n \<le> int (unat cap) * d \<longrightarrow>
      uvc_quirk_mode_selectable (Some l) width height (fps_of n d)"
  proof (intro allI impI)
    fix n d :: int
    assume "0 < d" "n \<le> int (unat cap) * d"
    then have f: "unat (fps_of n d) \<le> unat cap" using fps_of_le by (simp add: word_le_nat_alt)
    have "unat (fps_of n d) * (unat width * unat height) \<le> unat (max_pixel_rate l)"
      by (rule le_trans [OF mult_le_mono1 [OF f] R])
    moreover have "unat (max_pixel_rate l) < 2 ^ 64"
      using unsigned_less [of "max_pixel_rate l"] by simp
    ultimately show "uvc_quirk_mode_selectable (Some l) width height (fps_of n d)"
      using selectable_nat [of width height "fps_of n d" l] assms(2)
      by (simp add: mult.commute mult.left_commute)
  qed
qed

lemma dji_cap: "max_pixel_rate (uvc_quirks_limits 0x2ca3 0x0023) = 248832000"
  by code_simp

lemma dji_4k_fps: "uvc_quirk_max_fps (Some (uvc_quirks_limits 0x2ca3 0x0023)) 3840 2160 = 30"
  by (simp add: uvc_quirk_max_fps_def no_cap_def dji_cap)

lemma filter_clamps_range_witness:
  "filter_rate collect_range (Some (uvc_quirks_limits 0x2ca3 0x0023)) 3840 2160
     (GFractionRange (15, 1) (60, 1)) = Some (GFractionRange (15, 1) (30, 1))"
  using filter_clamps_range [OF collect_range_setter, of "uvc_quirks_limits 0x2ca3 0x0023" 3840 2160
      1 1 60 30 15]
  by (simp add: dji_cap dji_4k_fps fps_of_def)

text \<open>
  At the boundary the clamp has no effect: a range that starts exactly at the cap passes
  through whole, with the rates above it, because the clamped range would be empty and
  \<open>gst_structure_set\<close> refuses it; on the capped camera 4K at 60 survives that way.
\<close>
theorem range_at_cap_passes_whole:
  assumes "range_setter set_range"
  shows "filter_rate set_range (Some (uvc_quirks_limits 0x2ca3 0x0023)) 3840 2160
      (GFractionRange (30, 1) (60, 1)) = Some (GFractionRange (30, 1) (60, 1)) \<and>
    \<not> uvc_quirk_mode_selectable (Some (uvc_quirks_limits 0x2ca3 0x0023)) 3840 2160 60"
proof -
  have "sint (30 :: u32) = 30" using sint_small [of 30] by simp
  then show ?thesis
    using assms
    by (simp add: filter_rate_def dji_4k_fps Let_def fps_of_def range_setter_def
        uvc_quirk_mode_selectable_def no_cap_def dji_cap)
qed

lemma range_at_cap_passes_whole_witness:
  "filter_rate collect_range (Some (uvc_quirks_limits 0x2ca3 0x0023)) 3840 2160
     (GFractionRange (30, 1) (60, 1)) = Some (GFractionRange (30, 1) (60, 1))"
  using range_at_cap_passes_whole [OF collect_range_setter] by simp

lemma filter_rate_stable:
  assumes "range_setter set_range" "filter_rate set_range l w h r = Some v"
  shows "filter_rate set_range l w h v = Some v"
proof (cases r)
  case (GFractionRange mn mx)
  obtain a b c d where mm: "mn = (a, b)" "mx = (c, d)" by (cases mn; cases mx)
  let ?cap = "uvc_quirk_max_fps l w h"
  have cap: "fps_of (sint ?cap) 1 \<le> ?cap"
    by (simp add: fps_of_def)
  consider "v = r" | "0 < b" "Some v = set_range (a, b) (sint ?cap, 1) (Some r)"
    using assms(2)
    by (auto simp: GFractionRange mm filter_rate_def Let_def split: if_splits)
  then show ?thesis
  proof cases
    case 1
    with assms(2) show ?thesis by simp
  next
    case 2
    then have "v = r \<or> v = GFractionRange (a, b) (sint ?cap, 1)"
      using assms(1) by (auto simp: range_setter_def split: if_splits)
    with assms(2) cap show ?thesis
      by (auto simp: filter_rate_def [of _ _ _ _ "GFractionRange (a, b) (sint ?cap, 1)"] Let_def)
  qed
qed (use assms in \<open>auto simp: filter_rate_def Let_def split: if_splits\<close>)

lemma filter_structure_stable:
  assumes "range_setter set_range" "quirks_filter_structure set_range l s = Some t"
  shows "quirks_filter_structure set_range l t = Some t"
  using assms(2) filter_rate_stable [OF assms(1)]
  by (auto simp: quirks_filter_structure_def split: option.splits)

lemma map_filter_stable:
  assumes "\<And>x y. f x = Some y \<Longrightarrow> f y = Some y"
  shows "List.map_filter f (List.map_filter f xs) = List.map_filter f xs"
  using assms by (induction xs) (auto simp: List.map_filter_simps split: option.split)

text \<open>
  Filtering is idempotent: what the element publishes as deliverable and then filters
  again before it negotiates is not cut a second time.
\<close>
theorem filter_caps_idempotent:
  assumes "range_setter set_range"
  shows "uvc_quirks_filter_caps set_range limits (uvc_quirks_filter_caps set_range limits advertised)
    = uvc_quirks_filter_caps set_range limits advertised"
  using filter_structure_stable [OF assms, of limits]
  by (simp add: filter_caps_eq map_filter_stable)

lemma filter_caps_idempotent_witness:
  "uvc_quirks_filter_caps collect_range (Some (uvc_quirks_limits 0x2ca3 0x0023))
     (uvc_quirks_filter_caps collect_range (Some (uvc_quirks_limits 0x2ca3 0x0023)) demo_4k) =
   uvc_quirks_filter_caps collect_range (Some (uvc_quirks_limits 0x2ca3 0x0023)) demo_4k"
  by (rule filter_caps_idempotent [OF collect_range_setter])

text \<open>
  A camera without a row is not limited: its flags are zero, every mode may be selected
  and its caps come back unchanged.
\<close>
theorem unlisted_camera_unlimited:
  assumes "\<not> (v = 0x2ca3 \<and> p = 0x0023)"
  shows "uvc_quirks_lookup v p = 0 \<and>
    uvc_quirk_mode_selectable (Some (uvc_quirks_limits v p)) width height fps \<and>
    uvc_quirk_max_fps (Some (uvc_quirks_limits v p)) width height = - 1 \<and>
    uvc_quirks_filter_caps set_range (Some (uvc_quirks_limits v p)) advertised = advertised"
proof -
  have "uvc_quirks_limits v p = \<lparr>flags = 0, max_pixel_rate = 0\<rparr>"
    using assms
    by (auto simp: uvc_quirks_limits_def quirks_limits_in_def quirks_find_row_def g_uvc_quirk_table_def)
  then show ?thesis
    by (simp add: uvc_quirks_lookup_def uvc_quirk_mode_selectable_def uvc_quirk_max_fps_def no_cap_def
        uvc_quirks_filter_caps_def)
qed

lemma unlisted_camera_unlimited_witness:
  "uvc_quirks_filter_caps collect_range (Some (uvc_quirks_limits 0x2ca3 0x0020)) demo_4k = demo_4k"
  using unlisted_camera_unlimited [of "0x2ca3" "0x0020"] by simp

end
