(* ===== verification/UsbRecovery.thy ===== *)
theory UsbRecovery
  imports Base
begin

text \<open>
  The USB port recovery of \<open>usb_port_recovery.c\<close>. The kernel is the record \<open>sysfs\<close>: what a
  file holds, what exists, what a directory lists, where a link leads and how a write is
  answered, each an arbitrary function of the history of effects so far, so a write may
  change everything that is read after it. The history, a list of completed writes and
  sleeps, is the state the operations pass on. \<open>g_strchomp\<close>, \<open>g_ascii_strtoull\<close>,
  \<open>g_build_filename\<close>, \<open>g_path_get_dirname\<close> and \<open>g_path_get_basename\<close> follow GLib's
  documentation for paths without repeated separators.
\<close>

subsection \<open>The kernel's side\<close>

datatype errno = EACCES | EPERM | ENOENT | EOTHER

datatype write_reply = Open_failed errno | Write_done | Write_failed errno

datatype os_event = Wrote string string | Slept nat

type_synonym history = "os_event list"

record sysfs =
  sys_read :: "history \<Rightarrow> string \<Rightarrow> string option"
  sys_exists :: "history \<Rightarrow> string \<Rightarrow> bool"
  sys_is_dir :: "history \<Rightarrow> string \<Rightarrow> bool"
  sys_list :: "history \<Rightarrow> string \<Rightarrow> string list option"
  sys_realpath :: "history \<Rightarrow> string \<Rightarrow> string option"
  sys_write :: "history \<Rightarrow> string \<Rightarrow> string \<Rightarrow> write_reply"

subsection \<open>Strings and paths\<close>

definition ascii_space :: "char \<Rightarrow> bool" where
  "ascii_space c \<longleftrightarrow> (of_char c :: nat) \<in> {32, 9, 10, 12, 13}"

definition g_strchomp :: "string \<Rightarrow> string" where
  "g_strchomp s = rev (dropWhile ascii_space (rev s))"

definition c_string :: "string \<Rightarrow> string" where
  \<comment> \<open>a NUL-terminated array read as a string\<close>
  "c_string s = takeWhile (\<lambda>c. (of_char c :: nat) \<noteq> 0) s"

definition digit_value :: "char \<Rightarrow> nat" where
  "digit_value c =
     (let n = of_char c in
      if 48 \<le> n \<and> n \<le> 57 then n - 48
      else if 97 \<le> n \<and> n \<le> 122 then n - 87
      else if 65 \<le> n \<and> n \<le> 90 then n - 55
      else 255)"

definition read_digits :: "nat \<Rightarrow> string \<Rightarrow> int" where
  "read_digits base ds = foldl (\<lambda>v c. v * int base + int (digit_value c)) 0 ds"

definition g_ascii_strtoull :: "nat \<Rightarrow> string \<Rightarrow> u64 \<times> string \<times> bool" where
  \<comment> \<open>the value, the rest of the string and whether \<open>errno\<close> is set; the rest is the whole
     string when nothing could be converted\<close>
  "g_ascii_strtoull base s =
     (let s1 = dropWhile ascii_space s;
          neg = (s1 \<noteq> [] \<and> hd s1 = CHR ''-'');
          s2 = (if s1 \<noteq> [] \<and> (hd s1 = CHR ''-'' \<or> hd s1 = CHR ''+'') then tl s1 else s1);
          hex = (base = 16 \<and> take 2 s2 \<in> {''0x'', ''0X''});
          s3 = (if hex then drop 2 s2 else s2);
          ds = takeWhile (\<lambda>c. digit_value c < base) s3;
          v = read_digits base ds
      in if ds = [] then (if hex then (0, drop 1 s2, False) else (0, s, False))
         else if v \<ge> 2 ^ 64 then (G_MAXUINT64, drop (length ds) s3, True)
         else (if neg then - word_of_int v else word_of_int v, drop (length ds) s3, False))"

definition build_filename :: "string \<Rightarrow> string \<Rightarrow> string" where
  "build_filename d a = rev (dropWhile (\<lambda>c. c = CHR ''/'') (rev d)) @ CHR ''/'' # a"

definition path_basename :: "string \<Rightarrow> string" where
  "path_basename p =
     (if p = [] then ''.''
      else let t = dropWhile (\<lambda>c. c = CHR ''/'') (rev p)
           in if t = [] then ''/'' else rev (takeWhile (\<lambda>c. c \<noteq> CHR ''/'') t))"

definition path_dirname :: "string \<Rightarrow> string" where
  "path_dirname p =
     (if CHR ''/'' \<notin> set p then ''.''
      else let d = rev (dropWhile (\<lambda>c. c = CHR ''/'') (dropWhile (\<lambda>c. c \<noteq> CHR ''/'') (rev p)))
           in if d = [] then ''/'' else d)"

fun strstr :: "string \<Rightarrow> string \<Rightarrow> bool" where
  "strstr [] needle = (needle = [])"
| "strstr (c # cs) needle = (prefix needle (c # cs) \<or> strstr cs needle)"

subsection \<open>Attributes\<close>

definition read_attr :: "sysfs \<Rightarrow> history \<Rightarrow> string \<Rightarrow> string \<Rightarrow> nat \<Rightarrow> string option" where
  "read_attr os h dir attr len =
     (case sys_read os h (build_filename dir attr) of
        None \<Rightarrow> None
      | Some bytes \<Rightarrow>
          (let got = take (len - 1) bytes in
           if got = [] then None
           else let buf = g_strchomp (c_string got) in if buf = [] then None else Some buf))"

definition read_attr_uint :: "sysfs \<Rightarrow> history \<Rightarrow> string \<Rightarrow> string \<Rightarrow> nat \<Rightarrow> u64 option" where
  "read_attr_uint os h dir attr base =
     (case read_attr os h dir attr 64 of
        None \<Rightarrow> None
      | Some buf \<Rightarrow>
          (case g_ascii_strtoull base buf of
             (v, rest, err) \<Rightarrow> if err \<or> rest = buf \<or> rest \<noteq> [] then None else Some v))"

datatype outcome =
    NO_TARGET
  | REFUSED_SHARED_HUB
  | REFUSED_IDENTITY
  | UNAVAILABLE
  | DENIED
  | FAILED
  | DEVICE_REPROBED
  | PORT_CYCLED

definition write_attr ::
  "sysfs \<Rightarrow> string \<Rightarrow> string \<Rightarrow> string \<Rightarrow> history \<Rightarrow> outcome option \<times> history" where
  \<comment> \<open>\<open>None\<close> is success, otherwise the value of \<open>*error\<close>\<close>
  "write_attr os dir attr val h =
     (case sys_write os h (build_filename dir attr) val of
        Open_failed e \<Rightarrow>
          (Some (if e = EACCES \<or> e = EPERM then DENIED
                 else if e = ENOENT then UNAVAILABLE else FAILED), h)
      | Write_done \<Rightarrow> (None, h @ [Wrote (build_filename dir attr) val])
      | Write_failed e \<Rightarrow> (Some (if e = EACCES \<or> e = EPERM then DENIED else FAILED), h))"

definition identity_matches :: "sysfs \<Rightarrow> history \<Rightarrow> string \<Rightarrow> u16 \<Rightarrow> u16 \<Rightarrow> bool" where
  "identity_matches os h device_path vendor product =
     (case (read_attr_uint os h device_path ''idVendor'' 16,
            read_attr_uint os h device_path ''idProduct'' 16) of
        (Some v, Some p) \<Rightarrow> v = ucast vendor \<and> p = ucast product
      | _ \<Rightarrow> False)"

subsection \<open>Capturing the target\<close>

record recovery_target =
  device_path :: "string option"
  port_path :: "string option"
  vendor_id :: u16
  product_id :: u16

definition cleared_target :: recovery_target where
  "cleared_target = \<lparr>device_path = None, port_path = None, vendor_id = 0, product_id = 0\<rparr>"

definition capture_entry ::
  "sysfs \<Rightarrow> history \<Rightarrow> string \<Rightarrow> u8 \<Rightarrow> u8 \<Rightarrow> string \<Rightarrow> recovery_target option" where
  \<comment> \<open>the loop body for one directory entry\<close>
  "capture_entry os h devices bus address name =
     (if CHR '':'' \<in> set name then None
      else
        let p = build_filename devices name in
        (case read_attr_uint os h p ''busnum'' 10 of
           None \<Rightarrow> None
         | Some busnum \<Rightarrow>
             if busnum \<noteq> ucast bus then None
             else (case read_attr_uint os h p ''devnum'' 10 of
               None \<Rightarrow> None
             | Some devnum \<Rightarrow>
                 if devnum \<noteq> ucast address then None
                 else (case (read_attr_uint os h p ''idVendor'' 16,
                             read_attr_uint os h p ''idProduct'' 16) of
                   (Some v, Some i) \<Rightarrow>
                     (case sys_realpath os h (build_filename p ''port'') of
                        None \<Rightarrow> None
                      | Some port \<Rightarrow>
                          Some \<lparr>device_path = Some p, port_path = Some port,
                                vendor_id = ucast v, product_id = ucast i\<rparr>)
                 | _ \<Rightarrow> None))))"

fun capture_loop :: "(string \<Rightarrow> recovery_target option) \<Rightarrow> string list \<Rightarrow> recovery_target option"
  where
  "capture_loop entry [] = None"
| "capture_loop entry (name # names) =
     (case entry name of Some t \<Rightarrow> Some t | None \<Rightarrow> capture_loop entry names)"

definition usb_recovery_target_capture ::
  "sysfs \<Rightarrow> history \<Rightarrow> string option \<Rightarrow> u8 \<Rightarrow> u8 \<Rightarrow> bool \<times> recovery_target" where
  "usb_recovery_target_capture os h sysfs_root bus address =
     (case sysfs_root of
        None \<Rightarrow> (False, cleared_target)
      | Some root \<Rightarrow>
          (let devices = build_filename (build_filename (build_filename root ''bus'') ''usb'') ''devices''
           in case sys_list os h devices of
                None \<Rightarrow> (False, cleared_target)
              | Some names \<Rightarrow>
                  (case capture_loop (capture_entry os h devices bus address) names of
                     None \<Rightarrow> (False, cleared_target)
                   | Some t \<Rightarrow> (True, t))))"

definition usb_recovery_target_clear :: "recovery_target \<Rightarrow> recovery_target" where
  "usb_recovery_target_clear t =
     t\<lparr>device_path := None, port_path := None, vendor_id := 0, product_id := 0\<rparr>"

subsection \<open>The escalation\<close>

definition hub_carries_other_devices :: "sysfs \<Rightarrow> history \<Rightarrow> string \<Rightarrow> bool" where
  "hub_carries_other_devices os h port =
     (let hub_iface = path_dirname port; self_name = path_basename port in
      case sys_list os h hub_iface of
        None \<Rightarrow> True
      | Some names \<Rightarrow>
          list_ex (\<lambda>name. strstr name ''-port'' \<and> name \<noteq> self_name \<and>
            sys_exists os h (build_filename (build_filename hub_iface name) ''device'')) names)"

definition toggle_attr ::
  "sysfs \<Rightarrow> string \<Rightarrow> string \<Rightarrow> string \<Rightarrow> string \<Rightarrow> history \<Rightarrow> history \<Rightarrow> outcome option \<times> history"
  where
  \<comment> \<open>write one value, let the given events pass, write the other one back\<close>
  "toggle_attr os dir attr v1 v2 pause h =
     (case write_attr os dir attr v1 h of
        (Some e, h1) \<Rightarrow> (Some e, h1)
      | (None, h1) \<Rightarrow> write_attr os dir attr v2 (h1 @ pause))"

definition usb_deep_recovery_run ::
  "sysfs \<Rightarrow> recovery_target option \<Rightarrow> nat \<Rightarrow> history \<Rightarrow> outcome \<times> history" where
  "usb_deep_recovery_run os target hold_ms h =
     (case target of
        None \<Rightarrow> (NO_TARGET, h)
      | Some t \<Rightarrow>
          (case (port_path t, device_path t) of
             (Some port, Some dev) \<Rightarrow>
               (let occupant = build_filename port ''device'';
                    port_occupied = sys_exists os h occupant;
                    occupant_is_ours = (port_occupied \<and>
                      identity_matches os h occupant (vendor_id t) (product_id t))
                in
                if port_occupied \<and> \<not> occupant_is_ours then (REFUSED_IDENTITY, h)
                else if sys_is_dir os h dev then
                  (if \<not> identity_matches os h dev (vendor_id t) (product_id t)
                   then (REFUSED_IDENTITY, h)
                   else (case toggle_attr os dev ''authorized'' ''0'' ''1'' [] h of
                           (Some e, h1) \<Rightarrow> (e, h1)
                         | (None, h1) \<Rightarrow> (DEVICE_REPROBED, h1)))
                else if hub_carries_other_devices os h port then (REFUSED_SHARED_HUB, h)
                else (case toggle_attr os port ''disable'' ''1'' ''0''
                             (if hold_ms > 0 then [Slept hold_ms] else []) h of
                        (Some e, h1) \<Rightarrow> (e, h1)
                      | (None, h1) \<Rightarrow> (PORT_CYCLED, h1)))
           | _ \<Rightarrow> (NO_TARGET, h)))"

fun usb_deep_recovery_outcome_name :: "outcome \<Rightarrow> string" where
  "usb_deep_recovery_outcome_name NO_TARGET = ''no-target''"
| "usb_deep_recovery_outcome_name REFUSED_SHARED_HUB = ''refused-shared-hub''"
| "usb_deep_recovery_outcome_name REFUSED_IDENTITY = ''refused-identity''"
| "usb_deep_recovery_outcome_name UNAVAILABLE = ''unavailable''"
| "usb_deep_recovery_outcome_name DENIED = ''denied''"
| "usb_deep_recovery_outcome_name FAILED = ''failed''"
| "usb_deep_recovery_outcome_name DEVICE_REPROBED = ''device-reprobed''"
| "usb_deep_recovery_outcome_name PORT_CYCLED = ''port-cycled''"

subsection \<open>What a run does to the kernel\<close>

definition failure :: "outcome \<Rightarrow> bool" where
  "failure e \<longleftrightarrow> e = UNAVAILABLE \<or> e = DENIED \<or> e = FAILED"

lemma write_attr_cases:
  "write_attr os dir attr v h = (None, h1) \<Longrightarrow> h1 = h @ [Wrote (build_filename dir attr) v]"
  "write_attr os dir attr v h = (Some e, h1) \<Longrightarrow> h1 = h \<and> failure e"
  by (auto simp: write_attr_def failure_def split: write_reply.splits if_splits)

lemma toggle_attr_done:
  "toggle_attr os dir attr v1 v2 pause h = (None, h1) \<Longrightarrow>
   h1 = h @ Wrote (build_filename dir attr) v1 # pause @ [Wrote (build_filename dir attr) v2]"
  by (auto simp: toggle_attr_def dest!: write_attr_cases(1) split: prod.splits option.splits)

lemma toggle_attr_failed:
  "toggle_attr os dir attr v1 v2 pause h = (Some e, h1) \<Longrightarrow>
   failure e \<and> (h1 = h \<or> h1 = h @ Wrote (build_filename dir attr) v1 # pause)"
  by (auto simp: toggle_attr_def dest!: write_attr_cases split: prod.splits option.splits)

definition authorized_of :: "string \<Rightarrow> string" where
  "authorized_of dev = build_filename dev ''authorized''"

definition disable_of :: "string \<Rightarrow> string" where
  "disable_of port = build_filename port ''disable''"

definition pause_of :: "nat \<Rightarrow> os_event list" where
  "pause_of hold_ms = (if hold_ms > 0 then [Slept hold_ms] else [])"

definition occupant_ok :: "sysfs \<Rightarrow> history \<Rightarrow> recovery_target \<Rightarrow> string \<Rightarrow> bool" where
  "occupant_ok os h t port \<longleftrightarrow>
     (sys_exists os h (build_filename port ''device'') \<longrightarrow>
      identity_matches os h (build_filename port ''device'') (vendor_id t) (product_id t))"

text \<open>The run, case by case: the rung that is taken, its effects and its outcome.\<close>

lemma run_cases:
  assumes "usb_deep_recovery_run os (Some t) hold_ms h = (out, h1)"
    and "device_path t = Some dev" "port_path t = Some port"
  obtains (refused) "out = REFUSED_IDENTITY \<or> out = REFUSED_SHARED_HUB" "h1 = h"
  | (reprobe) "occupant_ok os h t port" "sys_is_dir os h dev"
      "identity_matches os h dev (vendor_id t) (product_id t)"
      "out = DEVICE_REPROBED \<and> h1 = h @ [Wrote (authorized_of dev) ''0'', Wrote (authorized_of dev) ''1''] \<or>
       failure out \<and> (h1 = h \<or> h1 = h @ [Wrote (authorized_of dev) ''0''])"
  | (cycle) "occupant_ok os h t port" "\<not> sys_is_dir os h dev"
      "\<not> hub_carries_other_devices os h port"
      "out = PORT_CYCLED \<and> h1 = h @ Wrote (disable_of port) ''1'' # pause_of hold_ms @
         [Wrote (disable_of port) ''0''] \<or>
       failure out \<and> (h1 = h \<or> h1 = h @ Wrote (disable_of port) ''1'' # pause_of hold_ms)"
proof (cases "occupant_ok os h t port")
  case False
  with assms refused show ?thesis
    by (auto simp: usb_deep_recovery_run_def occupant_ok_def Let_def)
next
  case ok: True
  show ?thesis
  proof (cases "sys_is_dir os h dev")
    case dir: True
    show ?thesis
    proof (cases "identity_matches os h dev (vendor_id t) (product_id t)")
      case True
      let ?t = "toggle_attr os dev ''authorized'' ''0'' ''1'' [] h"
      have r: "usb_deep_recovery_run os (Some t) hold_ms h =
          (case ?t of (Some e, h1) \<Rightarrow> (e, h1) | (None, h1) \<Rightarrow> (DEVICE_REPROBED, h1))"
        using assms(2,3) ok dir True by (simp add: usb_deep_recovery_run_def occupant_ok_def Let_def)
      obtain e g where t: "?t = (e, g)" by fastforce
      show ?thesis
        using reprobe [OF ok dir True] assms(1) r t toggle_attr_done [of os dev "''authorized''"]
          toggle_attr_failed [of os dev "''authorized''"]
        by (cases e) (fastforce simp: authorized_of_def)+
    next
      case False
      with assms dir ok refused show ?thesis
        by (simp add: usb_deep_recovery_run_def occupant_ok_def Let_def)
    qed
  next
    case nodir: False
    show ?thesis
    proof (cases "hub_carries_other_devices os h port")
      case True
      with assms nodir ok refused show ?thesis
        by (simp add: usb_deep_recovery_run_def occupant_ok_def Let_def)
    next
      case False
      let ?t = "toggle_attr os port ''disable'' ''1'' ''0'' (pause_of hold_ms) h"
      have r: "usb_deep_recovery_run os (Some t) hold_ms h =
          (case ?t of (Some e, h1) \<Rightarrow> (e, h1) | (None, h1) \<Rightarrow> (PORT_CYCLED, h1))"
        using assms(2,3) ok nodir False
        by (simp add: usb_deep_recovery_run_def occupant_ok_def Let_def pause_of_def)
      obtain e g where t: "?t = (e, g)" by fastforce
      show ?thesis
        using cycle [OF ok nodir False] assms(1) r t toggle_attr_done [of os port "''disable''"]
          toggle_attr_failed [of os port "''disable''"]
        by (cases e) (fastforce simp: disable_of_def)+
    qed
  qed
qed

lemma run_no_target:
  "target = None \<or> device_path (the target) = None \<or> port_path (the target) = None \<Longrightarrow>
   usb_deep_recovery_run os target hold_ms h = (NO_TARGET, h)"
  by (cases target) (auto simp: usb_deep_recovery_run_def split: option.split)

subsection \<open>Properties of the recovery\<close>

definition demo_attrs :: "(string \<times> string) list" where
  "demo_attrs =
     [(''/sys/bus/usb/devices/1-1/busnum'', ''1'' @ [CHR 0x0A]),
      (''/sys/bus/usb/devices/1-1/devnum'', ''5'' @ [CHR 0x0A]),
      (''/sys/bus/usb/devices/1-1/idVendor'', ''2ca3'' @ [CHR 0x0A]),
      (''/sys/bus/usb/devices/1-1/idProduct'', ''0023'' @ [CHR 0x0A])]"

definition demo_os :: "bool \<Rightarrow> (string \<Rightarrow> string \<Rightarrow> write_reply) \<Rightarrow> sysfs" where
  \<comment> \<open>one camera on a hub of its own, present or lost\<close>
  "demo_os present reply =
     \<lparr>sys_read = (\<lambda>h. map_of demo_attrs), sys_exists = (\<lambda>h p. False),
      sys_is_dir = (\<lambda>h p. present \<and> p = ''/sys/bus/usb/devices/1-1''),
      sys_list = (\<lambda>h p. if p = ''/sys/bus/usb/devices'' then Some [''usb1'', ''1-1:1.0'', ''1-1'']
                        else Some [''1-1-port1'', ''power'']),
      sys_realpath = (\<lambda>h p. Some ''/sys/devices/hub/1-1-port1''), sys_write = (\<lambda>h. reply)\<rparr>"

definition demo_target :: recovery_target where
  "demo_target =
     \<lparr>device_path = Some ''/sys/bus/usb/devices/1-1'',
      port_path = Some ''/sys/devices/hub/1-1-port1'', vendor_id = 0x2ca3, product_id = 0x0023\<rparr>"

text \<open>
  Claim C30. A recovery touches nothing but the captured camera: every completed write goes either
  to \<open>authorized\<close> of the captured device, and then that path still holds a device with the
  captured vendor and product, or to \<open>disable\<close> of the captured port, and then the device is gone
  and no other port of the hub carries one; in both cases whatever sits on the port is ours.
\<close>
theorem recovery_writes_guarded:
  assumes "usb_deep_recovery_run os (Some t) hold_ms h = (out, h1)"
    and "device_path t = Some dev" "port_path t = Some port"
    and "Wrote p v \<in> set (drop (length h) h1)"
  shows "occupant_ok os h t port \<and>
    (p = authorized_of dev \<and> sys_is_dir os h dev \<and>
       identity_matches os h dev (vendor_id t) (product_id t) \<or>
     p = disable_of port \<and> \<not> sys_is_dir os h dev \<and> \<not> hub_carries_other_devices os h port)"
  using assms(1-3)
proof (cases rule: run_cases)
  case refused
  with assms(4) show ?thesis by simp
next
  case reprobe
  with assms(4) show ?thesis by auto
next
  case cycle
  with assms(4) show ?thesis by (auto simp: pause_of_def split: if_splits)
qed

lemma recovery_writes_guarded_witness:
  "Wrote ''/sys/devices/hub/1-1-port1/disable'' ''1'' \<in>
     set (snd (usb_deep_recovery_run (demo_os False (\<lambda>_ _. Write_done)) (Some demo_target) 500 []))
   \<and> \<not> hub_carries_other_devices (demo_os False (\<lambda>_ _. Write_done)) []
        ''/sys/devices/hub/1-1-port1''"
proof -
  let ?os = "demo_os False (\<lambda>_ _. Write_done)"
  have r: "usb_deep_recovery_run ?os (Some demo_target) 500 [] =
      (PORT_CYCLED, [Wrote ''/sys/devices/hub/1-1-port1/disable'' ''1'', Slept 500,
        Wrote ''/sys/devices/hub/1-1-port1/disable'' ''0''])"
    by code_simp
  have "authorized_of ''/sys/bus/usb/devices/1-1'' = ''/sys/bus/usb/devices/1-1/authorized''"
    by code_simp
  then show ?thesis
    unfolding r using recovery_writes_guarded [OF r, of "''/sys/bus/usb/devices/1-1''"
        "''/sys/devices/hub/1-1-port1''" "''/sys/devices/hub/1-1-port1/disable''" "''1''"]
    by (simp add: demo_target_def)
qed

definition captured :: "recovery_target option \<Rightarrow> (string \<times> string) option" where
  \<comment> \<open>the device and the port of a complete target\<close>
  "captured target =
     (case target of
        None \<Rightarrow> None
      | Some t \<Rightarrow> (case (device_path t, port_path t) of (Some d, Some p) \<Rightarrow> Some (d, p) | _ \<Rightarrow> None))"

text \<open>
  Claim C31. The outcome says exactly what was done: a reprobe means \<open>authorized\<close> went to \<open>0\<close> and
  back, a cycle means \<open>disable\<close> went to \<open>1\<close>, was held and went back to \<open>0\<close>, a refusal means
  nothing was written, an error means at most the first half of one of the two, and without a
  target, or with one that lacks its device or its port, the outcome is \<open>NO_TARGET\<close> and nothing
  was written.
\<close>
theorem recovery_outcome_truthful:
  assumes "usb_deep_recovery_run os target hold_ms h = (out, h1)"
  shows "case captured target of
      None \<Rightarrow> out = NO_TARGET \<and> h1 = h
    | Some (dev, port) \<Rightarrow>
        (case out of
           DEVICE_REPROBED \<Rightarrow> h1 = h @ [Wrote (authorized_of dev) ''0'', Wrote (authorized_of dev) ''1'']
         | PORT_CYCLED \<Rightarrow>
             h1 = h @ Wrote (disable_of port) ''1'' # pause_of hold_ms @ [Wrote (disable_of port) ''0'']
         | REFUSED_IDENTITY \<Rightarrow> h1 = h
         | REFUSED_SHARED_HUB \<Rightarrow> h1 = h
         | NO_TARGET \<Rightarrow> False
         | _ \<Rightarrow> h1 \<in> {h, h @ [Wrote (authorized_of dev) ''0''],
                    h @ Wrote (disable_of port) ''1'' # pause_of hold_ms})"
proof (cases "captured target")
  case None
  then show ?thesis using assms
    by (auto simp: captured_def usb_deep_recovery_run_def split: option.splits)
next
  case (Some dp)
  then obtain t dev port where t: "target = Some t" "device_path t = Some dev" "port_path t = Some port"
      "dp = (dev, port)"
    by (auto simp: captured_def split: option.splits)
  show ?thesis unfolding Some t(4) option.case prod.case
    using assms [unfolded t(1)] t(2,3) by (cases rule: run_cases) (auto simp: failure_def)
qed

lemma recovery_outcome_truthful_witness:
  "\<exists>h1. usb_deep_recovery_run (demo_os True (\<lambda>_ _. Write_done)) (Some demo_target) 500 [] =
       (DEVICE_REPROBED, h1) \<and>
     h1 = [Wrote (authorized_of ''/sys/bus/usb/devices/1-1'') ''0'',
           Wrote (authorized_of ''/sys/bus/usb/devices/1-1'') ''1'']"
proof -
  let ?run = "usb_deep_recovery_run (demo_os True (\<lambda>_ _. Write_done)) (Some demo_target) 500 []"
  have out: "fst ?run = DEVICE_REPROBED" by code_simp
  obtain h1 where r: "?run = (DEVICE_REPROBED, h1)" using out by (cases ?run) auto
  from recovery_outcome_truthful [OF r] r
  show ?thesis by (simp add: captured_def demo_target_def)
qed

text \<open>
  A port can be left disabled: when the write of \<open>disable\<close> \<open>1\<close> completes and the
  write that restores it fails, the run gives up after that one attempt, and the history ends
  with the port disabled.
\<close>
theorem failed_restore_leaves_port_disabled:
  assumes "port_path t = Some port" "device_path t = Some dev"
    and "\<not> sys_exists os h (build_filename port ''device'')" "\<not> sys_is_dir os h dev"
    and "\<not> hub_carries_other_devices os h port"
    and "sys_write os h (disable_of port) ''1'' = Write_done"
    and "sys_write os (h @ Wrote (disable_of port) ''1'' # pause_of hold_ms) (disable_of port) ''0'' =
      Write_failed e"
  shows "snd (usb_deep_recovery_run os (Some t) hold_ms h) =
      h @ Wrote (disable_of port) ''1'' # pause_of hold_ms \<and>
    failure (fst (usb_deep_recovery_run os (Some t) hold_ms h))"
  using assms
  by (simp add: usb_deep_recovery_run_def Let_def toggle_attr_def write_attr_def failure_def
      pause_of_def disable_of_def split: if_splits)

lemma failed_restore_leaves_port_disabled_witness:
  "snd (usb_deep_recovery_run
      (demo_os False (\<lambda>p v. if v = ''1'' then Write_done else Write_failed EOTHER))
      (Some demo_target) 0 []) = [Wrote (disable_of ''/sys/devices/hub/1-1-port1'') ''1'']"
proof -
  let ?os = "demo_os False (\<lambda>p v. if v = ''1'' then Write_done else Write_failed EOTHER)"
  have "\<not> hub_carries_other_devices ?os [] ''/sys/devices/hub/1-1-port1''" by code_simp
  then show ?thesis
    using failed_restore_leaves_port_disabled [of demo_target "''/sys/devices/hub/1-1-port1''"
        "''/sys/bus/usb/devices/1-1''" ?os "[]" 0 EOTHER]
    by (simp add: demo_target_def demo_os_def pause_of_def)
qed

text \<open>
  Capturing finds the right device: a captured target is a directory entry, not an
  interface, whose bus number and address are the camera's, with its port link resolved; and in
  the kernel state it was captured in, that device passes the identity check of a later run
  whenever its two ids fit in 16 bits.
\<close>
theorem capture_resolves_device:
  assumes "usb_recovery_target_capture os h (Some root) bus address = (True, t)"
    and "devices = build_filename (build_filename (build_filename root ''bus'') ''usb'') ''devices''"
  shows "\<exists>names name v p. sys_list os h devices = Some names \<and> name \<in> set names \<and>
      CHR '':'' \<notin> set name \<and> device_path t = Some (build_filename devices name) \<and>
      read_attr_uint os h (build_filename devices name) ''busnum'' 10 = Some (ucast bus) \<and>
      read_attr_uint os h (build_filename devices name) ''devnum'' 10 = Some (ucast address) \<and>
      port_path t = sys_realpath os h (build_filename (build_filename devices name) ''port'') \<and>
      read_attr_uint os h (build_filename devices name) ''idVendor'' 16 = Some v \<and>
      read_attr_uint os h (build_filename devices name) ''idProduct'' 16 = Some p \<and>
      (v = ucast (vendor_id t) \<and> p = ucast (product_id t) \<longleftrightarrow>
         identity_matches os h (build_filename devices name) (vendor_id t) (product_id t))"
proof -
  have loop: "capture_loop f ns = Some t \<Longrightarrow> \<exists>n \<in> set ns. f n = Some t" for f ns
    by (induction ns) (auto split: option.splits)
  obtain names where n: "sys_list os h devices = Some names"
      "capture_loop (capture_entry os h devices bus address) names = Some t"
    using assms by (auto simp: usb_recovery_target_capture_def Let_def split: option.splits)
  then obtain name where "name \<in> set names" "capture_entry os h devices bus address name = Some t"
    using loop by blast
  with n(1) show ?thesis
    by (intro exI [of _ names] exI [of _ name])
      (auto simp: capture_entry_def identity_matches_def Let_def split: if_splits option.splits)
qed

lemma capture_resolves_device_witness:
  "usb_recovery_target_capture (demo_os True (\<lambda>_ _. Write_done)) [] (Some ''/sys'') 1 5 =
     (True, demo_target) \<and>
   (\<exists>name. CHR '':'' \<notin> set name \<and> device_path demo_target =
      Some (build_filename ''/sys/bus/usb/devices'' name))"
proof -
  have c: "usb_recovery_target_capture (demo_os True (\<lambda>_ _. Write_done)) [] (Some ''/sys'') 1 5 =
     (True, demo_target)"
    by code_simp
  have d: "''/sys/bus/usb/devices'' =
      build_filename (build_filename (build_filename ''/sys'' ''bus'') ''usb'') ''devices''"
    by code_simp
  show ?thesis using capture_resolves_device [OF c d] c by blast
qed

text \<open>
  An attribute longer than the 63 characters the reader has room for is not rejected: it
  is cut there, and the number in its front part is taken for its value.
\<close>
theorem long_attribute_truncated:
  assumes "sys_read os h (build_filename dir attr) = Some (replicate 62 (CHR ''0'') @ ''7'' @ rest)"
  shows "read_attr_uint os h dir attr 10 = Some 7"
proof -
  let ?b = "replicate 62 (CHR ''0'') @ ''7''"
  have "take 63 (replicate 62 (CHR ''0'') @ ''7'' @ rest) = ?b" by simp
  moreover have "g_strchomp (c_string ?b) = ?b" "g_ascii_strtoull 10 ?b = (7, [], False)"
    by code_simp+
  ultimately show ?thesis using assms by (simp add: read_attr_uint_def read_attr_def)
qed

lemma long_attribute_truncated_witness:
  "read_attr_uint (demo_os True (\<lambda>_ _. Write_done)\<lparr>sys_read :=
     (\<lambda>_ _. Some (replicate 62 (CHR ''0'') @ ''7'' @ ''99''))\<rparr>) [] ''/d'' ''busnum'' 10 = Some 7"
  by (rule long_attribute_truncated [where rest = "''99''"]) simp

end
