(* ===== verification/UvcError.thy ===== *)
theory UvcError
  imports Base
begin

text \<open>
  libuvc's status codes and \<open>gstlibuvch264src_error.c\<close>, which turns one into the element
  error that is posted on the GStreamer bus. A bus message keeps what an application can
  branch on: the resource error code and the context that heads its text.
\<close>

datatype uvc_error =
    UVC_SUCCESS
  | UVC_ERROR_IO
  | UVC_ERROR_INVALID_PARAM
  | UVC_ERROR_ACCESS
  | UVC_ERROR_NO_DEVICE
  | UVC_ERROR_NOT_FOUND
  | UVC_ERROR_BUSY
  | UVC_ERROR_TIMEOUT
  | UVC_ERROR_OVERFLOW
  | UVC_ERROR_PIPE
  | UVC_ERROR_INTERRUPTED
  | UVC_ERROR_NO_MEM
  | UVC_ERROR_NOT_SUPPORTED
  | UVC_ERROR_INVALID_DEVICE
  | UVC_ERROR_INVALID_MODE
  | UVC_ERROR_CALLBACK_EXISTS
  | UVC_ERROR_OTHER

datatype resource_error =
    RESOURCE_NOT_FOUND
  | RESOURCE_BUSY
  | RESOURCE_SETTINGS
  | RESOURCE_OPEN_READ_WRITE
  | RESOURCE_FAILED
  | RESOURCE_READ

record bus_message =
  code :: resource_error
  about :: string

fun error_code :: "uvc_error \<Rightarrow> resource_error" where
  "error_code UVC_ERROR_NO_DEVICE = RESOURCE_NOT_FOUND"
| "error_code UVC_ERROR_BUSY = RESOURCE_BUSY"
| "error_code UVC_ERROR_NOT_SUPPORTED = RESOURCE_SETTINGS"
| "error_code UVC_ERROR_ACCESS = RESOURCE_OPEN_READ_WRITE"
| "error_code _ = RESOURCE_FAILED"

definition post_error :: "uvc_error \<Rightarrow> string option \<Rightarrow> bus_message list \<Rightarrow> bus_message list" where
  "post_error err ctx bus =
     bus @ [\<lparr>code = error_code err,
             about = (case ctx of Some c \<Rightarrow> c | None \<Rightarrow> ''UVC operation'')\<rparr>]"

definition post_disconnect_error :: "bus_message list \<Rightarrow> bus_message list" where
  "post_disconnect_error bus =
     bus @ [\<lparr>code = RESOURCE_READ, about = ''UVC device disconnected during streaming''\<rparr>]"

text \<open>Messages are only ever appended; \<open>posted\<close> are the new ones.\<close>

definition posted :: "bus_message list \<Rightarrow> bus_message list \<Rightarrow> bus_message list" where
  "posted before after = drop (length before) after"

lemma posted_post_error [elem_simps]:
  "posted bus (post_error err ctx bus) =
     [\<lparr>code = error_code err,
       about = (case ctx of Some c \<Rightarrow> c | None \<Rightarrow> ''UVC operation'')\<rparr>]"
  by (simp add: posted_def post_error_def)

lemma posted_disconnect [elem_simps]:
  "posted bus (post_disconnect_error bus) =
     [\<lparr>code = RESOURCE_READ, about = ''UVC device disconnected during streaming''\<rparr>]"
  by (simp add: posted_def post_disconnect_error_def)

end
