(* ===== verification/Selector.thy ===== *)
theory Selector
  imports CachePath UvcError
begin

text \<open>
  The \<open>index\<close> property: \<open>gst_libuvc_h264_src_parse_uint\<close>, \<open>_parse_selector\<close>,
  \<open>_selector_matches\<close> and \<open>_resolve_device\<close>. \<open>strtol\<close> is C's, with a 64-bit \<open>long\<close>. A device
  of libuvc's enumeration is what the calls on it return: its descriptor (\<open>None\<close> when it
  cannot be read), its bus number and its address. The world of \<open>resolve_device\<close>, a
  \<open>poll_env\<close>, gives for each attempt the enumeration, the clock and whether a flush has
  been requested by the end of the wait.
\<close>

subsection \<open>strtol\<close>

definition c_space :: "char \<Rightarrow> bool" where
  "c_space c \<longleftrightarrow> (let n = of_char c :: nat in n = 32 \<or> (9 \<le> n \<and> n \<le> 13))"

definition c_digit :: "char \<Rightarrow> nat" where
  "c_digit c =
     (let n = of_char c in
      if 48 \<le> n \<and> n \<le> 57 then n - 48
      else if 97 \<le> n \<and> n \<le> 122 then n - 87
      else if 65 \<le> n \<and> n \<le> 90 then n - 55
      else 255)"

definition digits_value :: "nat \<Rightarrow> string \<Rightarrow> int" where
  "digits_value base ds = foldl (\<lambda>v c. v * int base + int (c_digit c)) 0 ds"

definition hex_prefix :: "nat \<Rightarrow> string \<Rightarrow> bool" where
  "hex_prefix base s \<longleftrightarrow>
     base = 16 \<and> (take 2 s = ''0x'' \<or> take 2 s = ''0X'') \<and>
     (case drop 2 s of [] \<Rightarrow> False | c # _ \<Rightarrow> c_digit c < 16)"

definition strtol :: "nat \<Rightarrow> string \<Rightarrow> int \<times> string \<times> bool" where
  \<comment> \<open>the value, what \<open>end\<close> points to (the whole string when nothing converts), and whether
     \<open>errno\<close> is set\<close>
  "strtol base s =
     (let s1 = dropWhile c_space s;
          neg = (s1 \<noteq> [] \<and> hd s1 = CHR ''-'');
          s2 = (if s1 \<noteq> [] \<and> (hd s1 = CHR ''-'' \<or> hd s1 = CHR ''+'') then tl s1 else s1);
          s3 = (if hex_prefix base s2 then drop 2 s2 else s2);
          ds = takeWhile (\<lambda>c. c_digit c < base) s3;
          v = (if neg then - digits_value base ds else digits_value base ds)
      in if ds = [] then (0, s, False)
         else if v > 9223372036854775807 then (9223372036854775807, drop (length ds) s3, True)
         else if v < -9223372036854775808 then (-9223372036854775808, drop (length ds) s3, True)
         else (v, drop (length ds) s3, False))"

definition parse_uint :: "string option \<Rightarrow> nat \<Rightarrow> int \<Rightarrow> int \<Rightarrow> int option" where
  "parse_uint str base lo hi =
     (case str of
        None \<Rightarrow> None
      | Some s \<Rightarrow>
          if s = [] then None
          else (case strtol base s of
                  (v, rest, err) \<Rightarrow>
                    if rest = s \<or> rest \<noteq> [] \<or> err \<or> v < lo \<or> v > hi then None else Some v))"

subsection \<open>Parsing a selector\<close>

datatype selector =
    SEL_ORDINAL int
  | SEL_VID_PID u16 u16
  | SEL_SERIAL string
  | SEL_BUS_ADDR u8 u8

definition strchr :: "string \<Rightarrow> char \<Rightarrow> (string \<times> string) option" where
  \<comment> \<open>the strings before and after the first occurrence\<close>
  "strchr s c =
     (let pre = takeWhile (\<lambda>x. x \<noteq> c) s
      in if length pre = length s then None else Some (pre, drop (length pre + 1) s))"

definition parse_selector :: "string option \<Rightarrow> string + selector" where
  "parse_selector index =
     (case index of
        None \<Rightarrow> Inl ''index is NULL''
      | Some s \<Rightarrow>
          if prefix ''serial:'' s then
            (let sn = drop 7 s
             in if sn = [] then Inl ''serial selector requires a non-empty serial number''
                else Inr (SEL_SERIAL sn))
          else if prefix ''bus:'' s then
            (case strchr (drop 4 s) (CHR '':'') of
               None \<Rightarrow> Inl ''bus selector requires bus:<bus>:<addr>''
             | Some (bus_str, addr_str) \<Rightarrow>
                 (case (parse_uint (Some bus_str) 10 0 255, parse_uint (Some addr_str) 10 0 255) of
                    (Some b, Some a) \<Rightarrow> Inr (SEL_BUS_ADDR (word_of_int b) (word_of_int a))
                  | _ \<Rightarrow> Inl ''bus selector requires bus:<bus>:<addr> (decimal 0..255 each)''))
          else
            (case strchr s (CHR '':'') of
               Some (vid_str, pid_str) \<Rightarrow>
                 (case (parse_uint (Some vid_str) 16 0 65535, parse_uint (Some pid_str) 16 0 65535) of
                    (Some v, Some p) \<Rightarrow> Inr (SEL_VID_PID (word_of_int v) (word_of_int p))
                  | _ \<Rightarrow> Inl ''vid:pid selector requires hex <vid>:<pid> (0000..ffff each)'')
             | None \<Rightarrow>
                 (case parse_uint (Some s) 10 0 2147483647 of
                    Some ord \<Rightarrow> Inr (SEL_ORDINAL ord)
                  | None \<Rightarrow> Inl ''index must be a non-negative integer ordinal'')))"

subsection \<open>Matching and resolving\<close>

record uvc_descriptor =
  idVendor :: u16
  idProduct :: u16
  serialNumber :: "string option"

record uvc_device =
  dev_descriptor :: "uvc_descriptor option"
  dev_bus :: u8
  dev_address :: u8

fun selector_matches :: "selector \<Rightarrow> uvc_device \<Rightarrow> int \<Rightarrow> bool" where
  "selector_matches (SEL_ORDINAL n) dev ordinal = (ordinal = n)"
| "selector_matches (SEL_VID_PID v p) dev ordinal =
     (case dev_descriptor dev of
        None \<Rightarrow> False
      | Some desc \<Rightarrow> idVendor desc = v \<and> idProduct desc = p)"
| "selector_matches (SEL_SERIAL sn) dev ordinal =
     (case dev_descriptor dev of
        None \<Rightarrow> False
      | Some desc \<Rightarrow> (case serialNumber desc of None \<Rightarrow> False | Some n \<Rightarrow> n = sn))"
| "selector_matches (SEL_BUS_ADDR b a) dev ordinal = (dev_bus dev = b \<and> dev_address dev = a)"

fun match_loop :: "selector \<Rightarrow> nat \<Rightarrow> uvc_device list \<Rightarrow> (nat \<times> uvc_device) option" where
  "match_loop sel i [] = None"
| "match_loop sel i (dev # devs) =
     (if selector_matches sel dev (int i) then Some (i, dev) else match_loop sel (i + 1) devs)"

record poll_env =
  find_devices :: "nat \<Rightarrow> uvc_device list option"
  monotonic_time :: "nat \<Rightarrow> int"
  flush_after_wait :: "nat \<Rightarrow> bool"

definition RESET_POLL_INITIAL_MS :: nat where "RESET_POLL_INITIAL_MS = 25"
definition RESET_POLL_MAX_MS :: nat where "RESET_POLL_MAX_MS = 200"

record resolve_result =
  res_device :: "(nat \<times> uvc_device) option"
  res_enum_failed :: bool
  res_waits :: "nat list"

fun resolve_loop ::
  "poll_env \<Rightarrow> selector \<Rightarrow> int \<Rightarrow> nat \<Rightarrow> nat \<Rightarrow> nat \<Rightarrow> nat list \<Rightarrow> resolve_result option" where
  \<comment> \<open>fuel, then the attempt number, the current interval and the waits so far\<close>
  "resolve_loop env sel deadline 0 attempt interval_ms waits = None"
| "resolve_loop env sel deadline (Suc fuel) attempt interval_ms waits =
     (let dev_list = find_devices env attempt;
          hit = (case dev_list of None \<Rightarrow> None | Some devs \<Rightarrow> match_loop sel 0 devs)
      in case hit of
           Some found \<Rightarrow>
             Some \<lparr>res_device = Some found, res_enum_failed = False, res_waits = waits\<rparr>
         | None \<Rightarrow>
             if deadline = 0 \<or> monotonic_time env attempt \<ge> deadline
             then Some \<lparr>res_device = None, res_enum_failed = (dev_list = None), res_waits = waits\<rparr>
             else if flush_after_wait env attempt
             then Some \<lparr>res_device = None, res_enum_failed = (dev_list = None),
                        res_waits = waits @ [interval_ms]\<rparr>
             else resolve_loop env sel deadline fuel (attempt + 1)
                    (min (interval_ms * 2) RESET_POLL_MAX_MS) (waits @ [interval_ms]))"

definition resolve_device :: "poll_env \<Rightarrow> selector \<Rightarrow> int \<Rightarrow> nat \<Rightarrow> resolve_result option" where
  "resolve_device env sel deadline fuel =
     resolve_loop env sel deadline fuel 0 RESET_POLL_INITIAL_MS []"

subsection \<open>Reading back printed numbers\<close>

lemma digits_value_append: "digits_value b (xs @ [c]) = digits_value b xs * int b + int (c_digit c)"
  by (simp add: digits_value_def)

lemma digits_value_Nil [simp]: "digits_value b [] = 0"
  by (simp add: digits_value_def)

lemma c_digit_digits: "n < 10 \<Longrightarrow> c_digit (digits ! n) = n"
proof -
  have "map c_digit digits = [0..<10]" by code_simp
  then show "n < 10 \<Longrightarrow> c_digit (digits ! n) = n"
    by (metis add_0 diff_zero length_digits length_map nth_map nth_upt)
qed

lemma c_digit_hexd: "n < 16 \<Longrightarrow> c_digit (hexd ! n) = n"
proof -
  have "map c_digit hexd = [0..<16]" by code_simp
  then show "n < 16 \<Longrightarrow> c_digit (hexd ! n) = n"
    by (metis add_0 diff_zero length_hexd length_map nth_map nth_upt)
qed

lemma digits_value_dec: "digits_value 10 (dec_nat n) = int n"
proof (induction n rule: dec_nat.induct)
  case (1 n)
  show ?case
  proof (cases "n < 10")
    case True
    then show ?thesis
      by (subst dec_nat.simps) (simp add: digits_value_def c_digit_digits)
  next
    case False
    have "int (n div 10) * 10 + int (n mod 10) = int n"
      by (metis of_nat_add of_nat_mult of_nat_numeral div_mult_mod_eq)
    then show ?thesis using 1 False
      by (subst dec_nat.simps) (simp add: digits_value_append c_digit_digits)
  qed
qed

lemma dec_nat_digits: "c \<in> set (dec_nat n) \<Longrightarrow> c_digit c < 10"
proof -
  have "\<forall>c \<in> set digits. c_digit c < 10" by code_simp
  then show "c \<in> set (dec_nat n) \<Longrightarrow> c_digit c < 10" using set_dec_nat by blast
qed

definition hex4 :: "nat \<Rightarrow> string" where
  "hex4 v = [hexd ! (v div 4096 mod 16), hexd ! (v div 256 mod 16), hexd ! (v div 16 mod 16),
     hexd ! (v mod 16)]"

lemma digits_value_hex4:
  assumes "v < 65536"
  shows "digits_value 16 (hex4 v) = int v"
proof -
  have a: "v div 4096 mod 16 = v div 256 div 16"
    using assms by (simp add: div_mult2_eq [of v 256 16, simplified])
  have b: "v div 256 = v div 16 div 16" by (simp add: div_mult2_eq [of v 16 16, simplified])
  have step: "int (x div 16) * 16 + int (x mod 16) = int x" for x :: nat
    by (metis of_nat_add of_nat_mult of_nat_numeral div_mult_mod_eq)
  have "int (v div 4096 mod 16) * 16 + int (v div 256 mod 16) = int (v div 256)"
    unfolding a by (rule step)
  moreover have "int (v div 256) * 16 + int (v div 16 mod 16) = int (v div 16)"
    unfolding b by (rule step)
  ultimately show ?thesis
    using step [of v] by (simp add: digits_value_def hex4_def c_digit_hexd)
qed

lemma digit_char:
  assumes "c_digit c < 16"
  shows "\<not> c_space c" "c \<noteq> CHR ''-''" "c \<noteq> CHR ''+''" "c \<noteq> CHR '':''" "c \<noteq> CHR ''s''"
    "c \<noteq> CHR ''u''" "c \<noteq> CHR ''x''" "c \<noteq> CHR ''X''"
  using assms by (auto simp: c_digit_def c_space_def Let_def split: if_splits)

lemma hex_prefix_x: "hex_prefix base s \<Longrightarrow> \<exists>c \<in> set s. c = CHR ''x'' \<or> c = CHR ''X''"
proof -
  assume "hex_prefix base s"
  then have "s ! 1 = CHR ''x'' \<or> s ! 1 = CHR ''X''" "1 < length s"
    by (cases s; cases "tl s"; auto simp: hex_prefix_def split: list.splits)+
  then show ?thesis by (metis nth_mem)
qed

lemma strtol_digits:
  assumes "ds \<noteq> []" "\<forall>c \<in> set ds. c_digit c < base" "base \<le> 16"
    and "digits_value base ds \<le> 9223372036854775807" "0 \<le> digits_value base ds"
  shows "strtol base ds = (digits_value base ds, [], False)"
proof -
  have d: "c_digit c < 16" if "c \<in> set ds" for c
    using assms(2,3) that by (metis le_trans not_le)
  have hd: "\<not> c_space (hd ds)" "hd ds \<noteq> CHR ''-''" "hd ds \<noteq> CHR ''+''"
    using digit_char d assms(1) by auto
  have nohex: "\<not> hex_prefix base ds"
    using hex_prefix_x [of base ds] digit_char(7,8) d by blast
  have "dropWhile c_space ds = ds" using hd(1) assms(1) by (cases ds) auto
  moreover have "takeWhile (\<lambda>c. c_digit c < base) ds = ds"
    using assms(2) by (simp add: takeWhile_eq_all_conv)
  ultimately show ?thesis
    using assms(1,4,5) hd(2,3) nohex
    by (simp add: strtol_def Let_def del: takeWhile_eq_all_conv)
qed

lemma parse_uint_digits:
  assumes "ds \<noteq> []" "\<forall>c \<in> set ds. c_digit c < base" "base \<le> 16"
    and "digits_value base ds = int n" "lo \<le> int n" "int n \<le> hi" "hi \<le> 9223372036854775807"
  shows "parse_uint (Some ds) base lo hi = Some (int n)"
  using assms strtol_digits [OF assms(1-3)] by (simp add: parse_uint_def)

lemma parse_uint_dec:
  "lo \<le> int n \<Longrightarrow> int n \<le> hi \<Longrightarrow> hi \<le> 9223372036854775807 \<Longrightarrow>
   parse_uint (Some (dec_nat n)) 10 lo hi = Some (int n)"
  by (rule parse_uint_digits) (auto simp: dec_nat_digits digits_value_dec)

lemma hex4_digits: "\<forall>c \<in> set (hex4 v). c_digit c < 16"
  by (simp add: hex4_def c_digit_hexd)

lemma hex4_nonempty [simp]: "hex4 v \<noteq> []"
  by (simp add: hex4_def)

lemma parse_uint_hex4:
  assumes "v < 65536"
  shows "parse_uint (Some (hex4 v)) 16 0 65535 = Some (int v)"
proof (rule parse_uint_digits)
  show "hex4 v \<noteq> []" by (simp add: hex4_def)
qed (use hex4_digits [of v] assms in \<open>simp_all add: digits_value_hex4\<close>)

lemma strchr_found:
  assumes "c \<notin> set a"
  shows "strchr (a @ c # b) c = Some (a, b)"
proof -
  have "takeWhile (\<lambda>x. x \<noteq> c) (a @ c # b) = a"
    using assms by (induction a) auto
  then show ?thesis by (simp add: strchr_def Let_def)
qed

lemma strchr_absent:
  assumes "c \<notin> set a"
  shows "strchr a c = None"
proof -
  have "takeWhile (\<lambda>x. x \<noteq> c) a = a" using assms by (induction a) auto
  then show ?thesis by (simp add: strchr_def Let_def del: takeWhile_eq_all_conv)
qed

subsection \<open>Properties\<close>

fun show_selector :: "selector \<Rightarrow> string" where
  "show_selector (SEL_ORDINAL n) = dec_nat (nat n)"
| "show_selector (SEL_VID_PID v p) = hex4 (unat v) @ CHR '':'' # hex4 (unat p)"
| "show_selector (SEL_SERIAL sn) = ''serial:'' @ sn"
| "show_selector (SEL_BUS_ADDR b a) = ''bus:'' @ dec_nat (unat b) @ CHR '':'' # dec_nat (unat a)"

fun selector_ok :: "selector \<Rightarrow> bool" where
  "selector_ok (SEL_ORDINAL n) = (0 \<le> n \<and> n \<le> 2147483647)"
| "selector_ok (SEL_SERIAL sn) = (sn \<noteq> [])"
| "selector_ok _ = True"

lemma unat_small: "unat (v :: u16) < 65536" "unat (b :: u8) < 256"
  using unsigned_less [of v] unsigned_less [of b] by simp_all

lemma byte_dec: "parse_uint (Some (dec_nat (unat (b :: u8)))) 10 0 255 = Some (uint b)"
proof -
  have "int (unat b) \<le> int 255" using unat_small(2) [of b] by (simp only: of_nat_le_iff)
  then show ?thesis using parse_uint_dec [of 0 "unat b" 255] by simp
qed

lemma no_prefix_s:
  assumes "\<forall>c \<in> set s. c_digit c < 16" "s \<noteq> []"
  shows "\<not> prefix (CHR ''s'' # p) (s @ r)"
proof -
  obtain c cs where s: "s = c # cs" using assms(2) by (cases s) auto
  then have "c \<noteq> CHR ''s''" using assms(1) digit_char(5) by auto
  then show ?thesis by (simp add: s)
qed

lemma no_prefix_bu:
  assumes "\<forall>c \<in> set s. c_digit c < 16" "s \<noteq> []" "r = [] \<or> hd r = CHR '':''"
  shows "\<not> prefix (x # CHR ''u'' # q) (s @ r)"
proof -
  obtain c cs where s: "s = c # cs" using assms(2) by (cases s) auto
  show ?thesis
  proof (cases cs)
    case Nil
    then show ?thesis using assms(3) by (cases r) (auto simp: s)
  next
    case (Cons d ds)
    then have "d \<noteq> CHR ''u''" using assms(1) digit_char(6) by (auto simp: s)
    then show ?thesis by (simp add: s Cons)
  qed
qed

text \<open>
  Claim C32. Every device can be named: printing a selector in its documented form (\<open>N\<close>, four hex
  digits \<open>vid:pid\<close>, \<open>serial:<sn>\<close>, \<open>bus:<b>:<a>\<close>) and parsing it gives the selector back, for
  every ordinal up to \<open>INT_MAX\<close>, every pair of ids, every non-empty serial number and every bus
  and address.
\<close>
theorem selector_round_trip:
  assumes "selector_ok sel"
  shows "parse_selector (Some (show_selector sel)) = Inr sel"
proof (cases sel)
  case (SEL_ORDINAL n)
  let ?s = "dec_nat (nat n)"
  have d: "\<forall>c \<in> set ?s. c_digit c < 16" using dec_nat_digits by fastforce
  then have "strchr ?s (CHR '':'') = None"
    using digit_char(4) by (intro strchr_absent) blast
  moreover have "parse_uint (Some ?s) 10 0 2147483647 = Some n"
    using assms SEL_ORDINAL parse_uint_dec [of 0 "nat n" 2147483647] by simp
  ultimately show ?thesis
    using no_prefix_s [OF d, of _ "[]"] no_prefix_bu [OF d, of "[]"]
    by (simp add: SEL_ORDINAL parse_selector_def)
next
  case (SEL_VID_PID v p)
  have "CHR '':'' \<notin> set (hex4 (unat v))"
    using hex4_digits [of "unat v"] digit_char(4) by blast
  moreover have "word_of_int (int (unat v)) = v" "word_of_int (int (unat p)) = p" by simp_all
  ultimately show ?thesis
    using no_prefix_s [OF hex4_digits, of "unat v"] no_prefix_bu [OF hex4_digits, of "unat v"]
      hex4_nonempty
      parse_uint_hex4 [OF unat_small(1), of v] parse_uint_hex4 [OF unat_small(1), of p]
    by (simp add: SEL_VID_PID parse_selector_def strchr_found)
next
  case (SEL_SERIAL sn)
  then show ?thesis using assms by (simp add: parse_selector_def)
next
  case (SEL_BUS_ADDR b a)
  have "\<forall>c \<in> set (dec_nat (unat b)). c_digit c < 16" using dec_nat_digits by fastforce
  then have "CHR '':'' \<notin> set (dec_nat (unat b))" using digit_char(4) by blast
  then have "strchr (dec_nat (unat b) @ CHR '':'' # dec_nat (unat a)) (CHR '':'') =
      Some (dec_nat (unat b), dec_nat (unat a))"
    by (rule strchr_found)
  then show ?thesis
    using byte_dec [of b] byte_dec [of a] by (simp add: SEL_BUS_ADDR parse_selector_def)
qed

lemma selector_round_trip_witness:
  "parse_selector (Some ''2CA3:0023'') = Inr (SEL_VID_PID 0x2ca3 0x0023)"
proof -
  have "show_selector (SEL_VID_PID 0x2ca3 0x0023) = ''2CA3:0023''"
    by (simp add: hex4_def hexd_def)
  then show ?thesis using selector_round_trip [of "SEL_VID_PID 0x2ca3 0x0023"] by simp
qed

lemma match_loop_Some:
  "match_loop sel i devs = Some (j, d) \<Longrightarrow>
   i \<le> j \<and> j < i + length devs \<and> devs ! (j - i) = d \<and> selector_matches sel d (int j) \<and>
   (\<forall>k. i \<le> k \<longrightarrow> k < j \<longrightarrow> \<not> selector_matches sel (devs ! (k - i)) (int k))"
proof (induction devs arbitrary: i)
  case (Cons dev devs)
  show ?case
  proof (cases "selector_matches sel dev (int i)")
    case False
    then have "match_loop sel (Suc i) devs = Some (j, d)" using Cons.prems by simp
    note IH = Cons.IH [OF this]
    have "\<not> selector_matches sel ((dev # devs) ! (k - i)) (int k)" if "i \<le> k" "k < j" for k
      using IH False that by (cases "k = i") (auto simp: nth_Cons')
    then show ?thesis using IH by (auto simp: nth_Cons')
  qed (use Cons.prems in auto)
qed simp

lemma match_loop_None:
  "match_loop sel i devs = None \<Longrightarrow> k < length devs \<Longrightarrow>
   \<not> selector_matches sel (devs ! k) (int (i + k))"
proof (induction devs arbitrary: i k)
  case (Cons dev devs)
  then have m: "\<not> selector_matches sel dev (int i)" "match_loop sel (Suc i) devs = None"
    by (auto split: if_splits)
  show ?case
  proof (cases k)
    case 0
    with m show ?thesis by simp
  next
    case (Suc j)
    with Cons.IH [OF m(2), of j] Cons.prems(2) show ?thesis by simp
  qed
qed simp

definition poll_hit :: "poll_env \<Rightarrow> selector \<Rightarrow> nat \<Rightarrow> (nat \<times> uvc_device) option" where
  "poll_hit env sel n =
     (case find_devices env n of None \<Rightarrow> None | Some devs \<Rightarrow> match_loop sel 0 devs)"

lemma poll_hit_Some:
  "poll_hit env sel n = Some found \<Longrightarrow>
   \<exists>devs. find_devices env n = Some devs \<and> match_loop sel 0 devs = Some found"
  by (simp add: poll_hit_def split: option.splits)

lemma poll_hit_None:
  "poll_hit env sel n = None \<Longrightarrow> find_devices env n = Some devs \<Longrightarrow> match_loop sel 0 devs = None"
  by (simp add: poll_hit_def)

text \<open>The four ways a round goes.\<close>

lemma resolve_round:
  obtains (hit) found where "poll_hit env sel n = Some found"
      "resolve_loop env sel deadline (Suc fuel) n iv ws =
        Some \<lparr>res_device = Some found, res_enum_failed = False, res_waits = ws\<rparr>"
  | (stop) ws' where "poll_hit env sel n = None" "ws' = ws \<or> \<not> deadline = 0 \<and> ws' = ws @ [iv]"
      "resolve_loop env sel deadline (Suc fuel) n iv ws =
        Some \<lparr>res_device = None, res_enum_failed = (find_devices env n = None), res_waits = ws'\<rparr>"
  | (again) "poll_hit env sel n = None" "deadline \<noteq> 0" "monotonic_time env n < deadline"
      "resolve_loop env sel deadline (Suc fuel) n iv ws =
        resolve_loop env sel deadline fuel (Suc n) (min (iv * 2) RESET_POLL_MAX_MS) (ws @ [iv])"
proof (cases "poll_hit env sel n")
  case (Some found)
  then show ?thesis by (intro hit [of found]) (simp_all add: poll_hit_def Let_def)
next
  case None
  note none = None [unfolded poll_hit_def]
  consider "deadline = 0 \<or> monotonic_time env n \<ge> deadline"
    | "deadline \<noteq> 0" "monotonic_time env n < deadline" "flush_after_wait env n"
    | "deadline \<noteq> 0" "monotonic_time env n < deadline" "\<not> flush_after_wait env n"
    by fastforce
  then show ?thesis
  proof cases
    case 1
    then show ?thesis by (intro stop [of ws]) (simp_all add: None none Let_def)
  next
    case 2
    then show ?thesis by (intro stop [of "ws @ [iv]"]) (simp_all add: None none Let_def)
  next
    case 3
    then show ?thesis by (intro again) (simp_all add: None none Let_def)
  qed
qed

declare resolve_loop.simps(2) [simp del]

lemma resolve_loop_sound:
  "resolve_loop env sel deadline fuel n iv ws = Some r \<Longrightarrow>
   (case res_device r of
      Some found \<Rightarrow> \<exists>m \<ge> n. poll_hit env sel m = Some found
    | None \<Rightarrow> \<exists>m \<ge> n. poll_hit env sel m = None \<and>
        (res_enum_failed r \<longleftrightarrow> find_devices env m = None))"
proof (induction fuel arbitrary: n iv ws)
  case (Suc fuel)
  show ?case
  proof (cases rule: resolve_round [of env sel n deadline fuel iv ws])
    case (hit found)
    with Suc.prems show ?thesis by auto
  next
    case (stop ws')
    with Suc.prems show ?thesis by auto
  next
    case again
    from Suc.IH [OF Suc.prems [unfolded again(4)]] show ?thesis
      by (auto split: option.splits intro: Suc_leD)
  qed
qed simp

text \<open>
  Claim C33. The resolved device is the first one of an enumeration that the selector matches; when
  none is returned, either that enumeration failed, which is reported as such, or it held no match.
\<close>
theorem resolve_device_sound:
  assumes "resolve_device env sel deadline fuel = Some r"
  shows "case res_device r of
      Some (i, d) \<Rightarrow> \<exists>m devs. find_devices env m = Some devs \<and> i < length devs \<and> devs ! i = d \<and>
        selector_matches sel d (int i) \<and> (\<forall>k < i. \<not> selector_matches sel (devs ! k) (int k))
    | None \<Rightarrow> \<exists>m. (case find_devices env m of
          None \<Rightarrow> res_enum_failed r
        | Some devs \<Rightarrow> \<not> res_enum_failed r \<and>
            (\<forall>k < length devs. \<not> selector_matches sel (devs ! k) (int k)))"
proof (cases "res_device r")
  case None
  then obtain m where m: "poll_hit env sel m = None"
      "res_enum_failed r \<longleftrightarrow> find_devices env m = None"
    using resolve_loop_sound [OF assms [unfolded resolve_device_def]] by auto
  have "\<not> selector_matches sel (devs ! k) (int k)"
    if "find_devices env m = Some devs" "k < length devs" for devs k
    using that poll_hit_None [OF m(1)] match_loop_None [of sel 0 devs k] by simp
  then have "case find_devices env m of None \<Rightarrow> res_enum_failed r
      | Some devs \<Rightarrow> \<not> res_enum_failed r \<and>
          (\<forall>k < length devs. \<not> selector_matches sel (devs ! k) (int k))"
    using m(2) by (simp split: option.split)
  then show ?thesis unfolding None option.case by (rule exI)
next
  case (Some x)
  obtain i d where x: "x = (i, d)" by (cases x)
  then obtain m where "poll_hit env sel m = Some (i, d)"
    using resolve_loop_sound [OF assms [unfolded resolve_device_def]] Some by auto
  then obtain devs where "find_devices env m = Some devs" "match_loop sel 0 devs = Some (i, d)"
    using poll_hit_Some by blast
  then show ?thesis
    using match_loop_Some [of sel 0 devs i d] by (auto simp: Some x)
qed

definition demo_poll :: poll_env where
  \<comment> \<open>a camera that comes back at the third enumeration\<close>
  "demo_poll =
     \<lparr>find_devices = (\<lambda>n. if n < 2 then None else Some
        [\<lparr>dev_descriptor = None, dev_bus = 1, dev_address = 2\<rparr>,
         \<lparr>dev_descriptor = Some \<lparr>idVendor = 0x2ca3, idProduct = 0x0023, serialNumber = None\<rparr>,
          dev_bus = 1, dev_address = 9\<rparr>]),
      monotonic_time = (\<lambda>n. int n * 100), flush_after_wait = (\<lambda>n. False)\<rparr>"

lemma resolve_device_sound_witness:
  "\<exists>r. resolve_device demo_poll (SEL_VID_PID 0x2ca3 0x0023) 1000 5 = Some r \<and>
     (\<exists>d m devs. res_device r = Some (1, d) \<and> find_devices demo_poll m = Some devs \<and> devs ! 1 = d)"
proof -
  have i: "map_option (\<lambda>r. map_option fst (res_device r))
      (resolve_device demo_poll (SEL_VID_PID 0x2ca3 0x0023) 1000 5) = Some (Some 1)"
    by code_simp
  then obtain r d where r: "resolve_device demo_poll (SEL_VID_PID 0x2ca3 0x0023) 1000 5 = Some r"
      "res_device r = Some (1, d)"
    by auto
  from resolve_device_sound [OF r(1)] r show ?thesis by auto
qed

text \<open>The schedule of the waits: 25 ms, doubled up to 200 ms.\<close>

definition backoff_ms :: "nat \<Rightarrow> nat" where
  "backoff_ms k = min (25 * 2 ^ k) 200"

lemma backoff_Suc: "backoff_ms (Suc k) = min (backoff_ms k * 2) RESET_POLL_MAX_MS"
  by (simp add: backoff_ms_def RESET_POLL_MAX_MS_def min_def)

lemma resolve_loop_waits:
  "resolve_loop env sel deadline fuel n (backoff_ms n) (map backoff_ms [0..<n]) = Some r \<Longrightarrow>
   \<exists>m. res_waits r = map backoff_ms [0..<m]"
proof (induction fuel arbitrary: n)
  case (Suc fuel)
  have snoc: "map backoff_ms [0..<n] @ [backoff_ms n] = map backoff_ms [0..<Suc n]" by simp
  show ?case
  proof (cases rule: resolve_round [of env sel n deadline fuel "backoff_ms n"
        "map backoff_ms [0..<n]"])
    case (hit found)
    with Suc.prems show ?thesis by auto
  next
    case (stop ws')
    then have "ws' = map backoff_ms [0..<n] \<or> ws' = map backoff_ms [0..<Suc n]"
      by (simp only: snoc) blast
    moreover have "res_waits r = ws'" using Suc.prems stop(3) by auto
    ultimately show ?thesis by metis
  next
    case again
    show ?thesis
      using Suc.IH [of "Suc n"] Suc.prems again(4) unfolding snoc backoff_Suc by simp
  qed
qed simp

lemma resolve_loop_returns:
  "deadline = 0 \<or> monotonic_time env m \<ge> deadline \<Longrightarrow> n \<le> m \<Longrightarrow> m < n + fuel \<Longrightarrow>
   \<exists>r. resolve_loop env sel deadline fuel n iv ws = Some r"
proof (induction fuel arbitrary: n iv ws)
  case (Suc fuel)
  show ?case
  proof (cases rule: resolve_round [of env sel n deadline fuel iv ws])
    case again
    then have "Suc n \<le> m" using Suc.prems by (cases "n = m") auto
    then show ?thesis using again(4) Suc.IH [of "Suc n"] Suc.prems by simp
  qed auto
qed simp

text \<open>
  Polling for a device ends: once the clock has passed the deadline at attempt \<open>m\<close>,
  \<open>m + 1\<close> rounds are enough whatever the enumerations return, and the waits in between are
  25 ms, 50 ms, 100 ms and then 200 ms each; with no deadline there is one round and no wait.
\<close>
theorem resolve_device_terminates:
  assumes "deadline = 0 \<or> monotonic_time env m \<ge> deadline" "m < fuel"
  shows "\<exists>r k. resolve_device env sel deadline fuel = Some r \<and>
    res_waits r = map (\<lambda>k. min (25 * 2 ^ k) 200) [0..<k] \<and> (deadline = 0 \<longrightarrow> k = 0)"
proof -
  have start: "resolve_device env sel deadline fuel =
      resolve_loop env sel deadline fuel 0 (backoff_ms 0) (map backoff_ms [0..<0])"
    by (simp add: resolve_device_def backoff_ms_def RESET_POLL_INITIAL_MS_def)
  obtain r where r: "resolve_device env sel deadline fuel = Some r"
    using resolve_loop_returns [of deadline env m 0 fuel sel] assms unfolding start by auto
  obtain k where k: "res_waits r = map backoff_ms [0..<k]"
    using resolve_loop_waits [OF r [unfolded start]] by auto
  obtain f where f: "fuel = Suc f" using assms(2) by (cases fuel) auto
  have r2: "resolve_loop env sel deadline (Suc f) 0 (backoff_ms 0) (map backoff_ms [0..<0]) = Some r"
    using r start f by metis
  have "k = 0" if "deadline = 0"
  proof (cases rule: resolve_round [of env sel 0 deadline f "backoff_ms 0" "map backoff_ms [0..<0]"])
    case (hit found)
    then have "res_waits r = []" using r2 by auto
    with k show ?thesis by simp
  next
    case (stop ws')
    then have "res_waits r = []" using r2 that by auto
    with k show ?thesis by simp
  qed (use that in simp)
  with r k show ?thesis by (auto simp: backoff_ms_def [abs_def])
qed

lemma resolve_device_terminates_witness:
  "\<exists>r k. resolve_device demo_poll (SEL_SERIAL ''none'') 1000 11 = Some r \<and>
     res_waits r = map (\<lambda>k. min (25 * 2 ^ k) 200) [0..<k]"
  using resolve_device_terminates [of 1000 demo_poll 10 11 "SEL_SERIAL ''none''"]
  by (auto simp: demo_poll_def)

end
