(* ===== verification/Ptz.thy ===== *)
theory Ptz
  imports UvcError
begin

text \<open>
  Pan, tilt and zoom: \<open>ptz_clamp\<close>, the probe and the three setters of \<open>ptz_control.c\<close>, and
  the \<open>set-ptz\<close> action of the element. The camera is the record \<open>ptz_camera\<close>: what each UVC
  control request answers, an arbitrary function of the transfers made so far. Those
  transfers, with their status, are the log in the state; \<open>gint\<close> values are integers and the
  zoom control is the 16-bit value the wire carries.
\<close>

datatype ptz_query = UVC_GET_MIN | UVC_GET_MAX | UVC_GET_RES | UVC_GET_CUR

datatype ptz_call = Set_pantilt int int | Set_zoom u16

type_synonym ptz_log = "(ptz_call \<times> uvc_error) list"

record ptz_camera =
  uvc_get_pantilt_abs :: "ptz_log \<Rightarrow> ptz_query \<Rightarrow> uvc_error \<times> int \<times> int"
  uvc_get_zoom_abs :: "ptz_log \<Rightarrow> ptz_query \<Rightarrow> uvc_error \<times> u16"
  uvc_set_pantilt_abs :: "ptz_log \<Rightarrow> int \<Rightarrow> int \<Rightarrow> uvc_error"
  uvc_set_zoom_abs :: "ptz_log \<Rightarrow> u16 \<Rightarrow> uvc_error"

record ptz =
  have_devh :: bool
  pan_min :: int
  pan_max :: int
  pan_cur :: int
  tilt_min :: int
  tilt_max :: int
  tilt_cur :: int
  zoom_min :: int
  zoom_max :: int
  zoom_cur :: int
  pan_supported :: bool
  tilt_supported :: bool
  zoom_supported :: bool
  ptz_supported :: bool
  transfers :: ptz_log
  ptz_bus :: "bus_message list"

definition ptz_clamp :: "int \<Rightarrow> int \<Rightarrow> int \<Rightarrow> int" where
  "ptz_clamp val lo hi = (if val < lo then lo else if val > hi then hi else val)"

subsection \<open>The probe\<close>

definition ptz_gated_off :: "ptz \<Rightarrow> ptz" where
  "ptz_gated_off s =
     s\<lparr>pan_supported := False, tilt_supported := False, zoom_supported := False,
       ptz_supported := False, pan_min := 0, pan_max := 0, pan_cur := 0,
       tilt_min := 0, tilt_max := 0, tilt_cur := 0, zoom_min := 0, zoom_max := 0, zoom_cur := 0\<rparr>"

definition probe_pantilt :: "ptz_camera \<Rightarrow> ptz \<Rightarrow> ptz" where
  "probe_pantilt cam s =
     (let (pt_min, p_min, t_min) = uvc_get_pantilt_abs cam (transfers s) UVC_GET_MIN;
          (pt_max, p_max, t_max) = uvc_get_pantilt_abs cam (transfers s) UVC_GET_MAX;
          (pt_res, _, _) = uvc_get_pantilt_abs cam (transfers s) UVC_GET_RES
      in if pt_min = UVC_SUCCESS \<and> pt_max = UVC_SUCCESS \<and> pt_res = UVC_SUCCESS then
           let s1 = (if p_min < p_max
                     then s\<lparr>pan_supported := True, pan_min := p_min, pan_max := p_max\<rparr> else s);
               s2 = (if t_min < t_max
                     then s1\<lparr>tilt_supported := True, tilt_min := t_min, tilt_max := t_max\<rparr> else s1);
               (e, p, t) = uvc_get_pantilt_abs cam (transfers s) UVC_GET_CUR
           in if e = UVC_SUCCESS then s2\<lparr>pan_cur := p, tilt_cur := t\<rparr> else s2
         else s)"

definition probe_zoom :: "ptz_camera \<Rightarrow> ptz \<Rightarrow> ptz" where
  "probe_zoom cam s =
     (let (e_min, z_min) = uvc_get_zoom_abs cam (transfers s) UVC_GET_MIN;
          (e_max, z_max) = uvc_get_zoom_abs cam (transfers s) UVC_GET_MAX;
          (e_res, _) = uvc_get_zoom_abs cam (transfers s) UVC_GET_RES
      in if e_min = UVC_SUCCESS \<and> e_max = UVC_SUCCESS \<and> e_res = UVC_SUCCESS \<and> z_min < z_max then
           let s1 = s\<lparr>zoom_supported := True, zoom_min := uint z_min, zoom_max := uint z_max\<rparr>;
               (e, z) = uvc_get_zoom_abs cam (transfers s) UVC_GET_CUR
           in if e = UVC_SUCCESS then s1\<lparr>zoom_cur := uint z\<rparr> else s1
         else s)"

definition ptz_probe_capabilities :: "ptz_camera \<Rightarrow> ptz \<Rightarrow> ptz" where
  "ptz_probe_capabilities cam s =
     (let s0 = ptz_gated_off s
      in if \<not> have_devh s0 then s0
         else let s2 = probe_zoom cam (probe_pantilt cam s0)
              in s2\<lparr>ptz_supported :=
                   pan_supported s2 \<or> tilt_supported s2 \<or> zoom_supported s2\<rparr>)"

subsection \<open>The setters\<close>

definition report_failure :: "uvc_error \<Rightarrow> string \<Rightarrow> ptz \<Rightarrow> bool \<times> ptz" where
  "report_failure e ctx s =
     (if e \<noteq> UVC_SUCCESS then (False, s\<lparr>ptz_bus := post_error e (Some ctx) (ptz_bus s)\<rparr>)
      else (True, s))"

definition ptz_set_pan :: "ptz_camera \<Rightarrow> int \<Rightarrow> ptz \<Rightarrow> bool \<times> ptz" where
  "ptz_set_pan cam val s =
     (if \<not> have_devh s \<or> \<not> pan_supported s then (False, s)
      else
        let pan = ptz_clamp val (pan_min s) (pan_max s);
            res = uvc_set_pantilt_abs cam (transfers s) pan (tilt_cur s);
            s1 = s\<lparr>transfers := transfers s @ [(Set_pantilt pan (tilt_cur s), res)]\<rparr>;
            s2 = (if res = UVC_SUCCESS then s1\<lparr>pan_cur := pan\<rparr> else s1)
        in report_failure res ''setting pan'' s2)"

definition ptz_set_tilt :: "ptz_camera \<Rightarrow> int \<Rightarrow> ptz \<Rightarrow> bool \<times> ptz" where
  "ptz_set_tilt cam val s =
     (if \<not> have_devh s \<or> \<not> tilt_supported s then (False, s)
      else
        let tilt = ptz_clamp val (tilt_min s) (tilt_max s);
            res = uvc_set_pantilt_abs cam (transfers s) (pan_cur s) tilt;
            s1 = s\<lparr>transfers := transfers s @ [(Set_pantilt (pan_cur s) tilt, res)]\<rparr>;
            s2 = (if res = UVC_SUCCESS then s1\<lparr>tilt_cur := tilt\<rparr> else s1)
        in report_failure res ''setting tilt'' s2)"

definition ptz_set_zoom :: "ptz_camera \<Rightarrow> int \<Rightarrow> ptz \<Rightarrow> bool \<times> ptz" where
  "ptz_set_zoom cam val s =
     (if \<not> have_devh s \<or> \<not> zoom_supported s then (False, s)
      else
        let zoom = ptz_clamp val (zoom_min s) (zoom_max s);
            res = uvc_set_zoom_abs cam (transfers s) (word_of_int zoom);
            s1 = s\<lparr>transfers := transfers s @ [(Set_zoom (word_of_int zoom), res)]\<rparr>;
            s2 = (if res = UVC_SUCCESS then s1\<lparr>zoom_cur := zoom\<rparr> else s1)
        in report_failure res ''setting zoom'' s2)"

subsection \<open>The contract of an axis\<close>

text \<open>
  What the clients of a setter (the properties, the action and the socket) rely on: an axis
  that is gated off is not touched, an accepted value is stored clamped, a rejected one is
  not stored, and a setter never changes the limits.
\<close>

locale axis_control =
  fixes enabled :: "'s \<Rightarrow> bool" and lo hi cur :: "'s \<Rightarrow> int"
    and set_axis :: "int \<Rightarrow> 's \<Rightarrow> bool \<times> 's"
  assumes gate: "\<not> enabled s \<Longrightarrow> set_axis v s = (False, s)"
    and accept: "set_axis v s = (True, s') \<Longrightarrow> cur s' = ptz_clamp v (lo s) (hi s)"
    and reject: "set_axis v s = (False, s') \<Longrightarrow> cur s' = cur s"
    and limits: "set_axis v s = (b, s') \<Longrightarrow> lo s' = lo s \<and> hi s' = hi s \<and> enabled s' = enabled s"
begin

definition apply_all :: "int list \<Rightarrow> 's \<Rightarrow> 's" where
  "apply_all vs s = fold (\<lambda>v s. snd (set_axis v s)) vs s"

lemma one_in_range:
  assumes "lo s \<le> cur s" "cur s \<le> hi s"
  shows "lo (snd (set_axis v s)) = lo s \<and> hi (snd (set_axis v s)) = hi s \<and>
    lo s \<le> cur (snd (set_axis v s)) \<and> cur (snd (set_axis v s)) \<le> hi s"
proof -
  obtain b s' where r: "set_axis v s = (b, s')" by fastforce
  show ?thesis
    using assms accept [of v s s'] reject [of v s s'] limits [OF r] r
    by (cases b) (auto simp: ptz_clamp_def)
qed

lemma stays_in_range:
  "lo s \<le> cur s \<Longrightarrow> cur s \<le> hi s \<Longrightarrow>
   lo s \<le> cur (apply_all vs s) \<and> cur (apply_all vs s) \<le> hi s"
proof (induction vs arbitrary: s)
  case (Cons v vs)
  then show ?case using one_in_range [OF Cons.prems, of v] Cons.IH [of "snd (set_axis v s)"]
    by (simp add: apply_all_def)
qed (simp add: apply_all_def)

lemma disabled_untouched: "\<not> enabled s \<Longrightarrow> apply_all vs s = s"
  by (induction vs) (simp_all add: apply_all_def gate)

end

lemma ptz_set_pan_cases:
  obtains (off) "\<not> have_devh s \<or> \<not> pan_supported s" "ptz_set_pan cam v s = (False, s)"
  | (sent) res where "have_devh s" "pan_supported s"
      "res = uvc_set_pantilt_abs cam (transfers s) (ptz_clamp v (pan_min s) (pan_max s)) (tilt_cur s)"
      "ptz_set_pan cam v s = (res = UVC_SUCCESS,
        s\<lparr>transfers := transfers s @
            [(Set_pantilt (ptz_clamp v (pan_min s) (pan_max s)) (tilt_cur s), res)],
          pan_cur := if res = UVC_SUCCESS then ptz_clamp v (pan_min s) (pan_max s) else pan_cur s,
          ptz_bus := if res = UVC_SUCCESS then ptz_bus s
            else post_error res (Some ''setting pan'') (ptz_bus s)\<rparr>)"
  by (cases "have_devh s \<and> pan_supported s")
    (auto simp: ptz_set_pan_def Let_def report_failure_def)

lemma ptz_set_tilt_cases:
  obtains (off) "\<not> have_devh s \<or> \<not> tilt_supported s" "ptz_set_tilt cam v s = (False, s)"
  | (sent) res where "have_devh s" "tilt_supported s"
      "res = uvc_set_pantilt_abs cam (transfers s) (pan_cur s) (ptz_clamp v (tilt_min s) (tilt_max s))"
      "ptz_set_tilt cam v s = (res = UVC_SUCCESS,
        s\<lparr>transfers := transfers s @
            [(Set_pantilt (pan_cur s) (ptz_clamp v (tilt_min s) (tilt_max s)), res)],
          tilt_cur := if res = UVC_SUCCESS then ptz_clamp v (tilt_min s) (tilt_max s) else tilt_cur s,
          ptz_bus := if res = UVC_SUCCESS then ptz_bus s
            else post_error res (Some ''setting tilt'') (ptz_bus s)\<rparr>)"
  by (cases "have_devh s \<and> tilt_supported s")
    (auto simp: ptz_set_tilt_def Let_def report_failure_def)

lemma ptz_set_zoom_cases:
  obtains (off) "\<not> have_devh s \<or> \<not> zoom_supported s" "ptz_set_zoom cam v s = (False, s)"
  | (sent) res where "have_devh s" "zoom_supported s"
      "res = uvc_set_zoom_abs cam (transfers s) (word_of_int (ptz_clamp v (zoom_min s) (zoom_max s)))"
      "ptz_set_zoom cam v s = (res = UVC_SUCCESS,
        s\<lparr>transfers := transfers s @
            [(Set_zoom (word_of_int (ptz_clamp v (zoom_min s) (zoom_max s))), res)],
          zoom_cur := if res = UVC_SUCCESS then ptz_clamp v (zoom_min s) (zoom_max s) else zoom_cur s,
          ptz_bus := if res = UVC_SUCCESS then ptz_bus s
            else post_error res (Some ''setting zoom'') (ptz_bus s)\<rparr>)"
  by (cases "have_devh s \<and> zoom_supported s")
    (auto simp: ptz_set_zoom_def Let_def report_failure_def)

lemma report_failure_simps [elem_simps]:
  "pan_cur (snd (report_failure e c s)) = pan_cur s" "fst (report_failure e c s) = (e = UVC_SUCCESS)"
  by (simp_all add: report_failure_def)

interpretation pan: axis_control "\<lambda>s. have_devh s \<and> pan_supported s" pan_min pan_max pan_cur
  "ptz_set_pan cam" for cam
  by unfold_locales (auto simp: ptz_set_pan_def Let_def report_failure_def split: if_splits)

interpretation tilt: axis_control "\<lambda>s. have_devh s \<and> tilt_supported s" tilt_min tilt_max tilt_cur
  "ptz_set_tilt cam" for cam
  by unfold_locales (auto simp: ptz_set_tilt_def Let_def report_failure_def split: if_splits)

interpretation zoom: axis_control "\<lambda>s. have_devh s \<and> zoom_supported s" zoom_min zoom_max zoom_cur
  "ptz_set_zoom cam" for cam
  by unfold_locales (auto simp: ptz_set_zoom_def Let_def report_failure_def split: if_splits)

subsection \<open>The set-ptz action\<close>

definition drive_axis ::
  "bool \<Rightarrow> (ptz \<Rightarrow> bool \<times> ptz) \<Rightarrow> bool \<times> bool \<times> ptz \<Rightarrow> bool \<times> bool \<times> ptz" where
  \<comment> \<open>\<open>if (supported) { any = TRUE; ok = set (...) && ok; }\<close>\<close>
  "drive_axis supported set_it st =
     (case st of (any, ok, s) \<Rightarrow>
        if supported then (let (r, s1) = set_it s in (True, r \<and> ok, s1)) else (any, ok, s))"

definition src_set_ptz :: "ptz_camera \<Rightarrow> int \<Rightarrow> int \<Rightarrow> int \<Rightarrow> ptz \<Rightarrow> bool \<times> ptz" where
  "src_set_ptz cam p t z s =
     (let st1 = drive_axis (pan_supported s) (ptz_set_pan cam p) (False, True, s);
          st2 = drive_axis (tilt_supported (snd (snd st1))) (ptz_set_tilt cam t) st1;
          (any, ok, s3) = drive_axis (zoom_supported (snd (snd st2))) (ptz_set_zoom cam z) st2
      in (any \<and> ok, s3))"

subsection \<open>Nothing out of range is sent\<close>

definition ptz_wf :: "ptz \<Rightarrow> bool" where
  "ptz_wf s \<longleftrightarrow>
     (pan_supported s \<longrightarrow> pan_min s < pan_max s) \<and> (tilt_supported s \<longrightarrow> tilt_min s < tilt_max s) \<and>
     (zoom_supported s \<longrightarrow> zoom_min s < zoom_max s) \<and> 0 \<le> zoom_min s \<and> zoom_max s \<le> 65535"

definition ptz_in_range :: "ptz \<Rightarrow> bool" where
  "ptz_in_range s \<longleftrightarrow>
     (pan_supported s \<longrightarrow> pan_min s \<le> pan_cur s \<and> pan_cur s \<le> pan_max s) \<and>
     (tilt_supported s \<longrightarrow> tilt_min s \<le> tilt_cur s \<and> tilt_cur s \<le> tilt_max s) \<and>
     (zoom_supported s \<longrightarrow> zoom_min s \<le> zoom_cur s \<and> zoom_cur s \<le> zoom_max s)"

fun transfer_ok :: "ptz \<Rightarrow> ptz_call \<Rightarrow> bool" where
  "transfer_ok s (Set_pantilt p t) =
     ((pan_supported s \<longrightarrow> pan_min s \<le> p \<and> p \<le> pan_max s) \<and>
      (tilt_supported s \<longrightarrow> tilt_min s \<le> t \<and> t \<le> tilt_max s))"
| "transfer_ok s (Set_zoom z) = (zoom_supported s \<and> zoom_min s \<le> uint z \<and> uint z \<le> zoom_max s)"

definition same_limits :: "ptz \<Rightarrow> ptz \<Rightarrow> bool" where
  "same_limits a b \<longleftrightarrow>
     have_devh b = have_devh a \<and> pan_supported b = pan_supported a \<and>
     tilt_supported b = tilt_supported a \<and> zoom_supported b = zoom_supported a \<and>
     pan_min b = pan_min a \<and> pan_max b = pan_max a \<and> tilt_min b = tilt_min a \<and>
     tilt_max b = tilt_max a \<and> zoom_min b = zoom_min a \<and> zoom_max b = zoom_max a"

definition ptz_step :: "ptz \<Rightarrow> ptz \<Rightarrow> bool" where
  "ptz_step a b \<longleftrightarrow>
     same_limits a b \<and>
     (ptz_wf a \<longrightarrow> ptz_in_range a \<longrightarrow> ptz_in_range b \<and>
        (\<exists>new. transfers b = transfers a @ new \<and> (\<forall>(c, e) \<in> set new. transfer_ok a c)))"

lemma transfer_ok_limits: "same_limits a b \<Longrightarrow> transfer_ok b c = transfer_ok a c"
  by (cases c) (auto simp: same_limits_def)

lemma ptz_wf_limits: "same_limits a b \<Longrightarrow> ptz_wf b = ptz_wf a"
  by (auto simp: same_limits_def ptz_wf_def)

lemma ptz_step_refl [inv_intros]: "ptz_step a a"
  by (simp add: ptz_step_def same_limits_def)

lemma ptz_step_trans:
  assumes "ptz_step a b" "ptz_step b c"
  shows "ptz_step a c"
proof -
  have ab: "same_limits a b" and bc: "same_limits b c"
    using assms by (simp_all add: ptz_step_def)
  then have "same_limits a c" by (simp add: same_limits_def)
  moreover have "ptz_in_range c \<and>
      (\<exists>new. transfers c = transfers a @ new \<and> (\<forall>(c, e) \<in> set new. transfer_ok a c))"
    if wf: "ptz_wf a" and range: "ptz_in_range a"
  proof -
    obtain n1 where n1: "ptz_in_range b" "transfers b = transfers a @ n1"
        "\<forall>(c, e) \<in> set n1. transfer_ok a c"
      using assms(1) wf range unfolding ptz_step_def by blast
    then obtain n2 where "ptz_in_range c" "transfers c = transfers b @ n2"
        "\<forall>(c, e) \<in> set n2. transfer_ok b c"
      using assms(2) wf n1(1) ptz_wf_limits [OF ab] unfolding ptz_step_def by blast
    with n1 show ?thesis
      by (intro conjI exI [of _ "n1 @ n2"]) (auto simp: transfer_ok_limits [OF ab])
  qed
  ultimately show ?thesis by (simp add: ptz_step_def)
qed

lemma clamp_range: "lo \<le> hi \<Longrightarrow> lo \<le> ptz_clamp v lo hi \<and> ptz_clamp v lo hi \<le> hi"
  by (auto simp: ptz_clamp_def)

lemma zoom_wire:
  "0 \<le> lo \<Longrightarrow> lo \<le> hi \<Longrightarrow> hi \<le> 65535 \<Longrightarrow>
   uint (word_of_int (ptz_clamp v lo hi) :: u16) = ptz_clamp v lo hi"
  by (simp add: uint_word_of_int mod_pos_pos_trivial ptz_clamp_def)

lemma set_pan_step [inv_intros]: "ptz_step s (snd (ptz_set_pan cam v s))"
proof (cases rule: ptz_set_pan_cases [of s cam v])
  case off
  then show ?thesis by (simp add: ptz_step_refl)
next
  case (sent res)
  then show ?thesis
    using clamp_range [of "pan_min s" "pan_max s" v]
    by (auto simp: ptz_step_def same_limits_def ptz_in_range_def ptz_wf_def)
qed

lemma set_tilt_step [inv_intros]: "ptz_step s (snd (ptz_set_tilt cam v s))"
proof (cases rule: ptz_set_tilt_cases [of s cam v])
  case off
  then show ?thesis by (simp add: ptz_step_refl)
next
  case (sent res)
  then show ?thesis
    using clamp_range [of "tilt_min s" "tilt_max s" v]
    by (auto simp: ptz_step_def same_limits_def ptz_in_range_def ptz_wf_def)
qed

lemma set_zoom_step [inv_intros]: "ptz_step s (snd (ptz_set_zoom cam v s))"
proof (cases rule: ptz_set_zoom_cases [of s cam v])
  case off
  then show ?thesis by (simp add: ptz_step_refl)
next
  case (sent res)
  then show ?thesis
    using clamp_range [of "zoom_min s" "zoom_max s" v] zoom_wire [of "zoom_min s" "zoom_max s" v]
    by (auto simp: ptz_step_def same_limits_def ptz_in_range_def ptz_wf_def)
qed

lemma drive_axis_step:
  assumes "\<And>s. ptz_step s (snd (set_it s))"
  shows "ptz_step (snd (snd st)) (snd (snd (drive_axis b set_it st)))"
  using assms by (auto simp: drive_axis_def ptz_step_refl split: prod.split)
     (metis snd_conv)

lemma set_ptz_step [inv_intros]: "ptz_step s (snd (src_set_ptz cam p t z s))"
proof -
  let ?st1 = "drive_axis (pan_supported s) (ptz_set_pan cam p) (False, True, s)"
  let ?st2 = "drive_axis (tilt_supported (snd (snd ?st1))) (ptz_set_tilt cam t) ?st1"
  let ?st3 = "drive_axis (zoom_supported (snd (snd ?st2))) (ptz_set_zoom cam z) ?st2"
  have "ptz_step s (snd (snd ?st1))"
    using drive_axis_step [OF set_pan_step, of "(False, True, s)"] by simp
  also have "ptz_step (snd (snd ?st1)) (snd (snd ?st2))"
    by (rule drive_axis_step [OF set_tilt_step])
  finally (ptz_step_trans) have "ptz_step s (snd (snd ?st2))" .
  moreover have "ptz_step (snd (snd ?st2)) (snd (snd ?st3))"
    by (rule drive_axis_step [OF set_zoom_step])
  ultimately have "ptz_step s (snd (snd ?st3))" by (rule ptz_step_trans)
  moreover have "snd (src_set_ptz cam p t z s) = snd (snd ?st3)"
    by (simp add: src_set_ptz_def Let_def split_beta)
  ultimately show ?thesis by simp
qed

subsection \<open>The probe\<close>

definition probed :: "ptz_camera \<Rightarrow> ptz_log \<Rightarrow> ptz_query \<Rightarrow> bool" where
  "probed cam log q \<longleftrightarrow> fst (uvc_get_pantilt_abs cam log q) = UVC_SUCCESS"

definition zoom_probed :: "ptz_camera \<Rightarrow> ptz_log \<Rightarrow> ptz_query \<Rightarrow> bool" where
  "zoom_probed cam log q \<longleftrightarrow> fst (uvc_get_zoom_abs cam log q) = UVC_SUCCESS"

lemma probe_pantilt_result:
  assumes "r = probe_pantilt cam s"
  shows "have_devh r = have_devh s \<and> transfers r = transfers s \<and> zoom_min r = zoom_min s \<and>
    zoom_max r = zoom_max s \<and> zoom_supported r = zoom_supported s \<and> zoom_cur r = zoom_cur s"
    "\<not> pan_supported s \<Longrightarrow> pan_supported r \<Longrightarrow> pan_min r < pan_max r \<and>
       probed cam (transfers s) UVC_GET_MIN \<and> probed cam (transfers s) UVC_GET_MAX \<and>
       probed cam (transfers s) UVC_GET_RES"
    "\<not> tilt_supported s \<Longrightarrow> tilt_supported r \<Longrightarrow> tilt_min r < tilt_max r \<and>
       probed cam (transfers s) UVC_GET_MIN \<and> probed cam (transfers s) UVC_GET_MAX \<and>
       probed cam (transfers s) UVC_GET_RES"
  unfolding assms
  by (auto simp: probe_pantilt_def probed_def Let_def split: prod.splits if_splits)

lemma probe_zoom_result:
  assumes "r = probe_zoom cam s"
  shows "have_devh r = have_devh s \<and> transfers r = transfers s \<and> pan_min r = pan_min s \<and>
    pan_max r = pan_max s \<and> pan_supported r = pan_supported s \<and> pan_cur r = pan_cur s \<and>
    tilt_min r = tilt_min s \<and> tilt_max r = tilt_max s \<and> tilt_supported r = tilt_supported s \<and>
    tilt_cur r = tilt_cur s"
    "\<not> zoom_supported s \<Longrightarrow> zoom_supported r \<Longrightarrow> 0 \<le> zoom_min r \<and> zoom_min r < zoom_max r \<and>
       zoom_max r \<le> 65535 \<and> zoom_probed cam (transfers s) UVC_GET_MIN \<and>
       zoom_probed cam (transfers s) UVC_GET_MAX \<and> zoom_probed cam (transfers s) UVC_GET_RES"
    "\<not> zoom_supported r \<Longrightarrow> zoom_min r = zoom_min s \<and> zoom_max r = zoom_max s"
proof -
  have u: "uint (z :: u16) \<le> 65535" for z using uint_lt2p [of z] by simp
  show "have_devh r = have_devh s \<and> transfers r = transfers s \<and> pan_min r = pan_min s \<and>
    pan_max r = pan_max s \<and> pan_supported r = pan_supported s \<and> pan_cur r = pan_cur s \<and>
    tilt_min r = tilt_min s \<and> tilt_max r = tilt_max s \<and> tilt_supported r = tilt_supported s \<and>
    tilt_cur r = tilt_cur s"
    "\<not> zoom_supported s \<Longrightarrow> zoom_supported r \<Longrightarrow> 0 \<le> zoom_min r \<and> zoom_min r < zoom_max r \<and>
       zoom_max r \<le> 65535 \<and> zoom_probed cam (transfers s) UVC_GET_MIN \<and>
       zoom_probed cam (transfers s) UVC_GET_MAX \<and> zoom_probed cam (transfers s) UVC_GET_RES"
    "\<not> zoom_supported r \<Longrightarrow> zoom_min r = zoom_min s \<and> zoom_max r = zoom_max s"
    unfolding assms using u
    by (auto simp: probe_zoom_def zoom_probed_def Let_def word_less_def split: prod.splits if_splits)
qed

text \<open>
  The probe enables an axis only on evidence: after it, every enabled axis has a
  non-degenerate range for which the minimum, maximum and resolution requests all succeeded, the
  zoom limits fit the 16-bit wire value, nothing has been sent, and without an open device no
  axis is enabled.
\<close>
theorem probe_enables_on_evidence:
  assumes "r = ptz_probe_capabilities cam s"
  shows "ptz_wf r \<and> transfers r = transfers s \<and>
    (pan_supported r \<or> tilt_supported r \<longrightarrow> have_devh s \<and> probed cam (transfers s) UVC_GET_MIN \<and>
       probed cam (transfers s) UVC_GET_MAX \<and> probed cam (transfers s) UVC_GET_RES) \<and>
    (zoom_supported r \<longrightarrow> have_devh s \<and> zoom_probed cam (transfers s) UVC_GET_MIN \<and>
       zoom_probed cam (transfers s) UVC_GET_MAX \<and> zoom_probed cam (transfers s) UVC_GET_RES) \<and>
    (ptz_supported r \<longleftrightarrow> pan_supported r \<or> tilt_supported r \<or> zoom_supported r)"
proof (cases "have_devh s")
  case False
  then have "r = ptz_gated_off s"
    using assms by (simp add: ptz_probe_capabilities_def Let_def ptz_gated_off_def)
  then show ?thesis by (simp add: ptz_wf_def ptz_gated_off_def)
next
  case True
  let ?s0 = "ptz_gated_off s"
  let ?s1 = "probe_pantilt cam ?s0" let ?s2 = "probe_zoom cam ?s1"
  have r: "r = ?s2\<lparr>ptz_supported := pan_supported ?s2 \<or> tilt_supported ?s2 \<or> zoom_supported ?s2\<rparr>"
    using assms True by (simp add: ptz_probe_capabilities_def Let_def ptz_gated_off_def)
  have s0: "\<not> pan_supported ?s0" "\<not> tilt_supported ?s0" "\<not> zoom_supported ?s0" "have_devh ?s0"
      "transfers ?s0 = transfers s" "zoom_min ?s0 = 0" "zoom_max ?s0 = 0"
    using True by (simp_all add: ptz_gated_off_def)
  note p = probe_pantilt_result [of ?s1 cam ?s0, OF refl]
  note z = probe_zoom_result [of ?s2 cam ?s1, OF refl]
  have "0 \<le> zoom_min ?s2 \<and> zoom_max ?s2 \<le> 65535"
    using p(1) z(2,3) s0 by (cases "zoom_supported ?s2") auto
  then show ?thesis
    using p z s0 True by (auto simp: r ptz_wf_def)
qed

definition demo_camera :: ptz_camera where
  \<comment> \<open>a gimbal with a real pan and tilt range and no zoom, whose position cannot be read\<close>
  "demo_camera =
     \<lparr>uvc_get_pantilt_abs = (\<lambda>log q. case q of
        UVC_GET_MIN \<Rightarrow> (UVC_SUCCESS, -100, 10) | UVC_GET_MAX \<Rightarrow> (UVC_SUCCESS, 100, 90)
      | UVC_GET_RES \<Rightarrow> (UVC_SUCCESS, 1, 1) | UVC_GET_CUR \<Rightarrow> (UVC_ERROR_PIPE, 0, 0)),
      uvc_get_zoom_abs = (\<lambda>log q. (UVC_ERROR_PIPE, 0)),
      uvc_set_pantilt_abs = (\<lambda>log p t. UVC_SUCCESS), uvc_set_zoom_abs = (\<lambda>log z. UVC_SUCCESS)\<rparr>"

definition demo_ptz :: ptz where
  "demo_ptz = ptz_gated_off
     \<lparr>have_devh = True, pan_min = 0, pan_max = 0, pan_cur = 0, tilt_min = 0, tilt_max = 0,
      tilt_cur = 0, zoom_min = 0, zoom_max = 0, zoom_cur = 0, pan_supported = False,
      tilt_supported = False, zoom_supported = False, ptz_supported = False, transfers = [],
      ptz_bus = []\<rparr>"

lemma probe_enables_on_evidence_witness:
  "pan_supported (ptz_probe_capabilities demo_camera demo_ptz) \<and>
   ptz_wf (ptz_probe_capabilities demo_camera demo_ptz) \<and> probed demo_camera [] UVC_GET_RES"
proof -
  have "pan_supported (ptz_probe_capabilities demo_camera demo_ptz)" "transfers demo_ptz = []"
    by code_simp+
  with probe_enables_on_evidence [OF refl, of demo_camera demo_ptz] show ?thesis by auto
qed

text \<open>
  A setter re-sends the other axis as it believes it to be, and after a probe that could
  read the limits but not the position it believes \<open>0\<close>: on a camera whose tilt runs from 10 to
  90, a first pan command sends tilt 0, which is outside the range the tilt setter would clamp to.
\<close>
theorem unread_tilt_is_resent:
  "map fst (transfers (snd (ptz_set_pan demo_camera 5 (ptz_probe_capabilities demo_camera demo_ptz))))
     = [Set_pantilt 5 0] \<and>
   \<not> transfer_ok (ptz_probe_capabilities demo_camera demo_ptz) (Set_pantilt 5 0)"
  by code_simp

end
