(* ===== verification/ControlSocket.thy ===== *)
theory ControlSocket
  imports Ptz CachePath
begin

text \<open>
  The control socket of \<open>ptz_control.c\<close>: binding and unbinding it, the framing of what a
  client sent, and the command interpreter. \<open>sscanf\<close> is C's: white space in the format
  matches any white space, \<open>%d\<close> skips white space and converts through a saturating \<open>long\<close>
  that is then cut to an \<open>int\<close>. The system calls of binding are answered by the record
  \<open>sock_os\<close> and logged; a descriptor is a natural number.
\<close>

subsection \<open>Reading numbers\<close>

definition is_c_space :: "char \<Rightarrow> bool" where
  "is_c_space c \<longleftrightarrow> (let n = of_char c :: nat in n = 32 \<or> (9 \<le> n \<and> n \<le> 13))"

definition is_dec :: "char \<Rightarrow> bool" where
  "is_dec c \<longleftrightarrow> (let n = of_char c :: nat in 48 \<le> n \<and> n \<le> 57)"

definition dec_value :: "string \<Rightarrow> int" where
  "dec_value ds = foldl (\<lambda>v c. v * 10 + (of_char c - 48)) 0 ds"

definition saturate_long :: "int \<Rightarrow> int" where
  "saturate_long v = max (-9223372036854775808) (min 9223372036854775807 v)"

definition to_gint :: "int \<Rightarrow> int" where
  "to_gint v = sint (word_of_int v :: u32)"

definition scan_d :: "string \<Rightarrow> (int \<times> string) option" where
  "scan_d s =
     (let s1 = dropWhile is_c_space s;
          neg = (s1 \<noteq> [] \<and> hd s1 = CHR ''-'');
          s2 = (if s1 \<noteq> [] \<and> (hd s1 = CHR ''-'' \<or> hd s1 = CHR ''+'') then tl s1 else s1);
          ds = takeWhile is_dec s2
      in if ds = [] then None
         else Some (to_gint (saturate_long (if neg then - dec_value ds else dec_value ds)),
                    drop (length ds) s2))"

definition sscanf_word :: "string \<Rightarrow> string \<Rightarrow> string option" where
  \<comment> \<open>the literal part of a format and the space after it\<close>
  "sscanf_word w s = (if prefix w s then Some (dropWhile is_c_space (drop (length w) s)) else None)"

definition sscanf_pan_tilt :: "string \<Rightarrow> (int \<times> int) option" where
  \<comment> \<open>\<open>sscanf (s, "PAN_TILT %d %d", &pan, &tilt) == 2\<close>\<close>
  "sscanf_pan_tilt s =
     (case sscanf_word ''PAN_TILT'' s of
        None \<Rightarrow> None
      | Some r \<Rightarrow>
          (case scan_d r of
             None \<Rightarrow> None
           | Some (p, r1) \<Rightarrow> (case scan_d r1 of None \<Rightarrow> None | Some (t, _) \<Rightarrow> Some (p, t))))"

definition sscanf_zoom :: "string \<Rightarrow> int option" where
  "sscanf_zoom s =
     (case sscanf_word ''ZOOM'' s of None \<Rightarrow> None | Some r \<Rightarrow> map_option fst (scan_d r))"

subsection \<open>Commands\<close>

definition process_control_command :: "ptz_camera \<Rightarrow> string \<Rightarrow> ptz \<Rightarrow> string \<times> ptz" where
  "process_control_command cam command s =
     (case sscanf_pan_tilt command of
        Some (p, t) \<Rightarrow>
          (let st1 = drive_axis (pan_supported s) (ptz_set_pan cam p) (False, True, s);
               (any, ok, s2) =
                 drive_axis (tilt_supported (snd (snd st1))) (ptz_set_tilt cam t) st1
           in if \<not> any then (''ERROR: pan/tilt not supported'', s2)
              else if \<not> ok then (''ERROR: pan/tilt transfer failed'', s2)
              else (''OK pan='' @ dec_int (pan_cur s2) @ '' tilt='' @ dec_int (tilt_cur s2), s2))
      | None \<Rightarrow>
          (case sscanf_zoom command of
             Some z \<Rightarrow>
               if \<not> zoom_supported s then (''ERROR: zoom not supported'', s)
               else (case ptz_set_zoom cam z s of
                       (False, s1) \<Rightarrow> (''ERROR: zoom transfer failed'', s1)
                     | (True, s1) \<Rightarrow> (''OK zoom='' @ dec_int (zoom_cur s1), s1))
           | None \<Rightarrow>
               if command = ''GET_POSITION'' then
                 (''OK pan='' @ dec_int (pan_cur s) @ '' tilt='' @ dec_int (tilt_cur s) @
                  '' zoom='' @ dec_int (zoom_cur s), s)
               else if command = ''GET_CAPABILITIES'' then
                 (''CAPABILITIES:'' @
                  (if pan_supported s
                   then '' pan=['' @ dec_int (pan_min s) @ '','' @ dec_int (pan_max s) @ '']'' else []) @
                  (if tilt_supported s
                   then '' tilt=['' @ dec_int (tilt_min s) @ '','' @ dec_int (tilt_max s) @ '']'' else []) @
                  (if zoom_supported s
                   then '' zoom=['' @ dec_int (zoom_min s) @ '','' @ dec_int (zoom_max s) @ '']'' else []), s)
               else (''ERROR: Unknown command'', s)))"

subsection \<open>One client\<close>

definition CONTROL_READ_MAX :: nat where "CONTROL_READ_MAX = 255"

definition is_terminator :: "char \<Rightarrow> bool" where
  "is_terminator c \<longleftrightarrow> (let n = of_char c :: nat in n = 10 \<or> n = 13 \<or> n = 0)"

definition serve_client :: "ptz_camera \<Rightarrow> string \<Rightarrow> ptz \<Rightarrow> string option \<times> ptz" where
  \<comment> \<open>from the bytes one \<open>read\<close> returned to the response; \<open>None\<close> when nothing was read\<close>
  "serve_client cam raw s =
     (if raw = [] then (None, s)
      else
        let command = takeWhile (\<lambda>c. \<not> is_terminator c) raw;
            terminated = (length command < length raw)
        in if \<not> terminated \<and> length raw = CONTROL_READ_MAX
           then (Some ''ERROR: command too long'', s)
           else (case process_control_command cam command s of (resp, s1) \<Rightarrow> (Some resp, s1)))"

subsection \<open>Binding the socket\<close>

datatype sock_event =
    Opened nat | Unlinked string | Bound nat string | Chmod string nat | Listening nat | Closed nat

record sock_os =
  xdg_runtime_dir :: "string option"
  process_id :: int
  os_socket :: "sock_event list \<Rightarrow> nat option"
  os_bind :: "sock_event list \<Rightarrow> string \<Rightarrow> bool"
  os_chmod :: "sock_event list \<Rightarrow> string \<Rightarrow> nat \<Rightarrow> bool"
  os_listen :: "sock_event list \<Rightarrow> bool"

record sock =
  control_socket :: "nat option"
  control_socket_path :: "string option"
  socket_seq :: nat
  sock_log :: "sock_event list"

definition SUN_PATH_MAX :: nat where "SUN_PATH_MAX = 108"

definition S_IRUSR :: nat where "S_IRUSR = 256"
definition S_IWUSR :: nat where "S_IWUSR = 128"

definition default_socket_path :: "sock_os \<Rightarrow> sock \<Rightarrow> (string \<times> sock) option" where
  "default_socket_path os s =
     (case control_socket_path s of
        Some p \<Rightarrow> Some (p, s)
      | None \<Rightarrow>
          (case xdg_runtime_dir os of
             None \<Rightarrow> None
           | Some runtime \<Rightarrow>
               if runtime = [] then None
               else let p = runtime @ ''/libuvch264src-'' @ dec_int (process_id os) @ ''-'' @
                          dec_nat (socket_seq s) @ ''.sock''
                    in Some (p, s\<lparr>control_socket_path := Some p, socket_seq := socket_seq s + 1\<rparr>)))"

definition log_sock :: "sock_event list \<Rightarrow> sock \<Rightarrow> sock" where
  "log_sock es s = s\<lparr>sock_log := sock_log s @ es\<rparr>"

definition control_socket_bind :: "sock_os \<Rightarrow> sock \<Rightarrow> bool \<times> sock" where
  "control_socket_bind os s =
     (case default_socket_path os s of
        None \<Rightarrow> (False, s)
      | Some (path, s0) \<Rightarrow>
          if length path \<ge> SUN_PATH_MAX then (False, s0)
          else (case os_socket os (sock_log s0) of
            None \<Rightarrow> (False, s0)
          | Some fd \<Rightarrow>
              let s1 = log_sock [Opened fd, Unlinked path] s0 in
              if \<not> os_bind os (sock_log s1) path then (False, log_sock [Closed fd] s1)
              else
                let s2 = log_sock [Bound fd path] s1 in
                if \<not> os_chmod os (sock_log s2) path (S_IRUSR + S_IWUSR) then
                  (False, log_sock [Closed fd, Unlinked path] s2)
                else
                  let s3 = log_sock [Chmod path (S_IRUSR + S_IWUSR)] s2 in
                  if \<not> os_listen os (sock_log s3) then
                    (False, log_sock [Closed fd, Unlinked path] s3)
                  else (True, (log_sock [Listening fd] s3)\<lparr>control_socket := Some fd\<rparr>)))"

definition control_socket_unbind :: "sock \<Rightarrow> sock" where
  "control_socket_unbind s =
     (let s1 = (case control_socket s of
                  Some fd \<Rightarrow> (log_sock [Closed fd] s)\<lparr>control_socket := None\<rparr>
                | None \<Rightarrow> s)
      in case control_socket_path s1 of
           Some p \<Rightarrow> log_sock [Unlinked p] s1
         | None \<Rightarrow> s1)"

subsection \<open>Reading back a printed number\<close>

lemma digit_codes:
  assumes "n < 10"
  shows "of_char (digits ! n) = (48 + int n)"
proof -
  have "map of_char digits = map (\<lambda>n. 48 + int n) [0..<10]" by code_simp
  then have "map of_char digits ! n = map (\<lambda>n. 48 + int n) [0..<10] ! n" by simp
  then show ?thesis using assms by simp
qed

lemma dec_value_append: "dec_value (xs @ [c]) = dec_value xs * 10 + (of_char c - 48)"
  by (simp add: dec_value_def)

lemma dec_value_dec: "dec_value (dec_nat n) = int n"
proof (induction n rule: dec_nat.induct)
  case (1 n)
  show ?case
  proof (cases "n < 10")
    case True
    then show ?thesis by (subst dec_nat.simps) (simp add: dec_value_def digit_codes)
  next
    case False
    have "int (n div 10) * 10 + int (n mod 10) = int n"
      by (metis of_nat_add of_nat_mult of_nat_numeral div_mult_mod_eq)
    then show ?thesis using 1 False
      by (subst dec_nat.simps) (simp add: dec_value_append digit_codes)
  qed
qed

lemma dec_nat_chars:
  assumes "c \<in> set (dec_nat n)"
  shows "is_dec c" "\<not> is_c_space c" "c \<noteq> CHR ''-''" "c \<noteq> CHR ''+''"
proof -
  have "\<forall>c \<in> set digits. is_dec c \<and> \<not> is_c_space c \<and> c \<noteq> CHR ''-'' \<and> c \<noteq> CHR ''+''" by code_simp
  with assms set_dec_nat show "is_dec c" "\<not> is_c_space c" "c \<noteq> CHR ''-''" "c \<noteq> CHR ''+''"
    by blast+
qed

lemma take_while_append_all:
  "\<forall>x \<in> set xs. P x \<Longrightarrow> ys = [] \<or> \<not> P (hd ys) \<Longrightarrow> takeWhile P (xs @ ys) = xs"
  by (induction xs) (cases ys; auto)+

lemma to_gint_id: "- 2147483648 \<le> i \<Longrightarrow> i \<le> 2147483647 \<Longrightarrow> to_gint i = i"
  by (simp add: to_gint_def sint_sbintrunc' signed_take_bit_int_eq_self)

lemma scan_d_dec:
  assumes "- 2147483648 \<le> i" "i \<le> 2147483647" "r = [] \<or> \<not> is_dec (hd r)"
  shows "scan_d (dec_int i @ r) = Some (i, r)"
proof (cases "i < 0")
  case True
  let ?d = "dec_nat (nat (- i))"
  have t: "takeWhile is_dec (?d @ r) = ?d"
    using assms(3) dec_nat_chars(1) by (intro take_while_append_all) auto
  have "dropWhile is_c_space (CHR ''-'' # ?d @ r) = CHR ''-'' # ?d @ r"
    by (simp add: is_c_space_def)
  then show ?thesis
    using True assms(1,2) by (simp add: scan_d_def dec_int_def Let_def t dec_value_dec
        saturate_long_def to_gint_id min_def max_def)
next
  case False
  let ?d = "dec_nat (nat i)"
  have t: "takeWhile is_dec (?d @ r) = ?d"
    using assms(3) dec_nat_chars(1) by (intro take_while_append_all) auto
  obtain c cs where d: "?d = c # cs" using dec_nat_nonempty by (cases ?d) auto
  then have c: "\<not> is_c_space c" "c \<noteq> CHR ''-''" "c \<noteq> CHR ''+''"
    using dec_nat_chars by (metis list.set_intros(1))+
  have "dropWhile is_c_space (?d @ r) = ?d @ r" "hd (?d @ r) = c" "?d @ r \<noteq> []"
    using c(1) d by simp_all
  then show ?thesis
    using False assms(1,2) c(2,3) by (simp add: scan_d_def dec_int_def Let_def t dec_value_dec
        saturate_long_def to_gint_id min_def max_def)
qed

lemma dec_int_head: "\<exists>c cs. dec_int i = c # cs \<and> \<not> is_c_space c"
proof (cases "i < 0")
  case True
  then show ?thesis by (simp add: dec_int_def is_c_space_def)
next
  case False
  obtain c cs where "dec_nat (nat i) = c # cs"
    using dec_nat_nonempty by (cases "dec_nat (nat i)") auto
  then show ?thesis using False dec_nat_chars(2) [of c "nat i"] by (simp add: dec_int_def)
qed

subsection \<open>Properties of the socket\<close>

text \<open>
  A printed \<open>PAN_TILT\<close> command does what the two setters do: on a camera with both
  axes it calls the pan setter and then the tilt setter with exactly the numbers of the command,
  negative ones included, and answers with the position they left.
\<close>
theorem pan_tilt_command:
  assumes "pan_supported s" "tilt_supported s"
    and "- 2147483648 \<le> p" "p \<le> 2147483647" "- 2147483648 \<le> t" "t \<le> 2147483647"
    and "ptz_set_pan cam p s = (a, s1)" "ptz_set_tilt cam t s1 = (b, s2)"
  shows "process_control_command cam (''PAN_TILT '' @ dec_int p @ '' '' @ dec_int t) s =
    (if a \<and> b then ''OK pan='' @ dec_int (pan_cur s2) @ '' tilt='' @ dec_int (tilt_cur s2)
     else ''ERROR: pan/tilt transfer failed'', s2)"
proof -
  obtain c cs where c: "dec_int p = c # cs" "\<not> is_c_space c" using dec_int_head by blast
  have sp: "\<not> is_dec (CHR '' '')" "is_c_space (CHR '' '')" by code_simp+
  have "sscanf_word ''PAN_TILT'' (''PAN_TILT '' @ dec_int p @ '' '' @ dec_int t) =
      Some (dec_int p @ '' '' @ dec_int t)"
    using c sp by (simp add: sscanf_word_def)
  moreover have "scan_d (dec_int p @ '' '' @ dec_int t) = Some (p, '' '' @ dec_int t)"
    using assms(3,4) sp by (intro scan_d_dec) auto
  moreover have "scan_d ('' '' @ dec_int t) = Some (t, [])"
  proof -
    obtain d ds where "dec_int t = d # ds" "\<not> is_c_space d" using dec_int_head by blast
    then have "scan_d ('' '' @ dec_int t) = scan_d (dec_int t)"
      using sp by (simp add: scan_d_def Let_def)
    then show ?thesis using scan_d_dec [of t "[]"] assms(5,6) by simp
  qed
  ultimately have scan: "sscanf_pan_tilt (''PAN_TILT '' @ dec_int p @ '' '' @ dec_int t) = Some (p, t)"
    by (simp add: sscanf_pan_tilt_def)
  have "tilt_supported s1 = tilt_supported s"
    using set_pan_step [of s cam p] assms(7) by (simp add: ptz_step_def same_limits_def)
  then show ?thesis
    unfolding process_control_command_def scan
    using assms(1,2,7,8) by (auto simp: drive_axis_def Let_def)
qed

definition demo_gimbal :: ptz where
  "demo_gimbal = ptz_probe_capabilities demo_camera demo_ptz"

lemma pan_tilt_command_witness:
  "fst (process_control_command demo_camera ''PAN_TILT -7 95'' demo_gimbal) = ''OK pan=-7 tilt=90''"
proof -
  obtain a s1 where a: "ptz_set_pan demo_camera (-7) demo_gimbal = (a, s1)" by fastforce
  obtain b s2 where b: "ptz_set_tilt demo_camera 95 s1 = (b, s2)" by fastforce
  have r: "fst (ptz_set_pan demo_camera (-7) demo_gimbal)"
      "fst (ptz_set_tilt demo_camera 95 (snd (ptz_set_pan demo_camera (-7) demo_gimbal)))"
      "pan_cur (snd (ptz_set_tilt demo_camera 95 (snd (ptz_set_pan demo_camera (-7) demo_gimbal)))) = -7"
      "tilt_cur (snd (ptz_set_tilt demo_camera 95 (snd (ptz_set_pan demo_camera (-7) demo_gimbal)))) = 90"
      "pan_supported demo_gimbal" "tilt_supported demo_gimbal"
    by code_simp+
  have s: "''PAN_TILT '' @ dec_int (-7) @ '' '' @ dec_int 95 = ''PAN_TILT -7 95''"
      "dec_int (-7) = ''-7''" "dec_int 90 = ''90''" "dec_int 95 = ''95''"
    by code_simp+
  show ?thesis
    using pan_tilt_command [OF r(5,6) _ _ _ _ a b] r a b unfolding s by (simp add: s)
qed

lemma process_command_step: "ptz_step s (snd (process_control_command cam command s))"
proof (cases "sscanf_pan_tilt command")
  case (Some pt)
  obtain p t where pt: "pt = (p, t)" by (cases pt)
  let ?st1 = "drive_axis (pan_supported s) (ptz_set_pan cam p) (False, True, s)"
  let ?st2 = "drive_axis (tilt_supported (snd (snd ?st1))) (ptz_set_tilt cam t) ?st1"
  have "ptz_step s (snd (snd ?st1))"
    using drive_axis_step [OF set_pan_step, of "(False, True, s)"] by simp
  then have "ptz_step s (snd (snd ?st2))"
    by (rule ptz_step_trans) (rule drive_axis_step [OF set_tilt_step])
  moreover have "snd (process_control_command cam command s) = snd (snd ?st2)"
    by (simp add: process_control_command_def Some pt Let_def split_beta)
  ultimately show ?thesis by simp
next
  case None
  show ?thesis
  proof (cases "sscanf_zoom command")
    case (Some z)
    then show ?thesis
      using set_zoom_step [of s cam z]
      by (auto simp: process_control_command_def None ptz_step_refl split: prod.split bool.split)
  qed (simp add: process_control_command_def None ptz_step_refl)
qed

lemma serve_client_step [inv_intros]: "ptz_step s (snd (serve_client cam raw s))"
  using process_command_step [of s cam]
  by (auto simp: serve_client_def Let_def ptz_step_refl split: prod.split) (metis snd_conv)+

text \<open>Every way into the PTZ state: the properties, the action and the socket.\<close>

datatype ptz_request =
    By_pan int | By_tilt int | By_zoom int | By_action int int int | By_client string

fun serve_request :: "ptz_camera \<Rightarrow> ptz_request \<Rightarrow> ptz \<Rightarrow> ptz" where
  "serve_request cam (By_pan v) s = snd (ptz_set_pan cam v s)"
| "serve_request cam (By_tilt v) s = snd (ptz_set_tilt cam v s)"
| "serve_request cam (By_zoom v) s = snd (ptz_set_zoom cam v s)"
| "serve_request cam (By_action p t z) s = snd (src_set_ptz cam p t z s)"
| "serve_request cam (By_client sent) s = snd (serve_client cam (take CONTROL_READ_MAX sent) s)"

lemma serve_request_step: "ptz_step s (serve_request cam r s)"
  by (cases r) (simp_all add: inv_intros)

lemma serve_requests_step: "ptz_step s (fold (serve_request cam) rs s)"
proof (induction rs arbitrary: s)
  case (Cons r rs)
  show ?case using ptz_step_trans [OF serve_request_step Cons.IH] by simp
qed (simp add: ptz_step_refl)

text \<open>
  Nothing out of range reaches the camera: starting from a probed state whose positions
  lie within their limits, any sequence of property writes, \<open>set-ptz\<close> actions and client
  messages, whatever bytes the clients send, keeps the limits and the positions within them, and
  every pan, tilt and zoom value of every transfer on a supported axis lies between its limits.
\<close>
theorem requests_stay_in_range:
  assumes "ptz_wf s" "ptz_in_range s" "s' = fold (serve_request cam) rs s"
  shows "same_limits s s' \<and> ptz_in_range s' \<and>
    (\<exists>new. transfers s' = transfers s @ new \<and> (\<forall>(c, e) \<in> set new. transfer_ok s c))"
  using serve_requests_step [of s cam rs] assms unfolding ptz_step_def by blast

lemma requests_stay_in_range_witness:
  "ptz_in_range (fold (serve_request demo_camera)
     [By_pan 5000, By_client ''PAN_TILT -3 -3'', By_client ''junk'', By_action 1 2 3]
     (demo_gimbal\<lparr>tilt_cur := 50\<rparr>))"
proof -
  have "ptz_wf (demo_gimbal\<lparr>tilt_cur := 50\<rparr>)" "ptz_in_range (demo_gimbal\<lparr>tilt_cur := 50\<rparr>)"
    by code_simp+
  from requests_stay_in_range [OF this refl] show ?thesis by blast
qed

text \<open>
  Framing: of what a client sends, the command is the part before the first line feed,
  carriage return or NUL and the rest is ignored; a full buffer without any of them is refused,
  and then no transfer is made and nothing changes.
\<close>
theorem client_framing:
  assumes "\<forall>c \<in> set command. \<not> is_terminator c"
  shows "serve_client cam (command @ CHR 0x0A # rest) s =
      (Some (fst (process_control_command cam command s)), snd (process_control_command cam command s))
    \<and> (length command = CONTROL_READ_MAX \<longrightarrow>
        serve_client cam (take CONTROL_READ_MAX (command @ rest)) s =
          (Some ''ERROR: command too long'', s))"
proof -
  have lf: "is_terminator (CHR 0x0A)" by code_simp
  have a: "takeWhile (\<lambda>c. \<not> is_terminator c) (command @ CHR 0x0A # rest) = command"
    using assms lf by (intro take_while_append_all) auto
  have b: "takeWhile (\<lambda>c. \<not> is_terminator c) command = command"
    using assms by (simp add: takeWhile_eq_all_conv)
  show ?thesis
    by (auto simp: serve_client_def Let_def a b CONTROL_READ_MAX_def split: prod.split
        simp del: takeWhile_eq_all_conv)
qed

lemma client_framing_witness:
  "fst (serve_client demo_camera ''GET_POSITIO'' demo_gimbal) = Some ''ERROR: Unknown command'' \<and>
   fst (serve_client demo_camera (''GET_POSITION'' @ CHR 0x0A # ''ZOOM 5'') demo_gimbal) =
     Some ''OK pan=0 tilt=0 zoom=0'' \<and>
   serve_client demo_camera (take CONTROL_READ_MAX (replicate 255 (CHR ''Z'') @ ''tail'')) demo_gimbal =
     (Some ''ERROR: command too long'', demo_gimbal)"
proof -
  have "fst (serve_client demo_camera ''GET_POSITIO'' demo_gimbal) = Some ''ERROR: Unknown command''"
      "fst (process_control_command demo_camera ''GET_POSITION'' demo_gimbal) =
        ''OK pan=0 tilt=0 zoom=0''"
      "\<forall>c \<in> set ''GET_POSITION''. \<not> is_terminator c" "\<not> is_terminator (CHR ''Z'')"
    by code_simp+
  then show ?thesis
    using client_framing [of "''GET_POSITION''" demo_camera "''ZOOM 5''" demo_gimbal]
      client_framing [of "replicate 255 (CHR ''Z'')" demo_camera "''tail''" demo_gimbal]
    by (simp add: CONTROL_READ_MAX_def)
qed

subsection \<open>Properties of binding\<close>

fun open_fds :: "sock_event list \<Rightarrow> nat list" where
  \<comment> \<open>the descriptors open after these events\<close>
  "open_fds [] = []"
| "open_fds (Opened fd # es) = fd # open_fds es"
| "open_fds (Closed fd # es) = remove1 fd (open_fds es)"
| "open_fds (_ # es) = open_fds es"

definition listening_is_private :: "string \<Rightarrow> sock_event list \<Rightarrow> bool" where
  \<comment> \<open>every descriptor that listens was bound to the path and to no other one, and between
     the two the path was made readable and writable for the owner only\<close>
  "listening_is_private p es \<longleftrightarrow>
     (\<forall>k < length es. \<forall>fd. es ! k = Listening fd \<longrightarrow>
        (\<exists>i j. i < j \<and> j < k \<and> es ! i = Bound fd p \<and> es ! j = Chmod p 0x180) \<and>
        (\<forall>i < k. \<forall>q. es ! i = Bound fd q \<longrightarrow> q = p) \<and>
        (\<forall>j < k. \<forall>q m. es ! j = Chmod q m \<longrightarrow> q = p \<and> m = 0x180))"

text \<open>
  Claim C35. Binding leaks nothing: when it succeeds the one new descriptor is published, its path
  fits the address, and it was bound to that path and the path was restricted to its owner
  (mode 0600) before it listened; when it fails the published descriptor is unchanged and every
  descriptor it opened is closed again. Unbinding closes the published descriptor and removes
  the path.
\<close>
theorem bind_leaks_nothing:
  assumes "control_socket_bind os s = (ok, s')"
  shows "\<exists>new. sock_log s' = sock_log s @ new \<and>
    (if ok then \<exists>fd p. control_socket s' = Some fd \<and> control_socket_path s' = Some p \<and>
         length p < 108 \<and> open_fds (rev new) = [fd] \<and>
         Listening fd \<in> set new \<and> listening_is_private p new \<and>
         sock_log (control_socket_unbind s') = sock_log s' @ [Closed fd, Unlinked p] \<and>
         control_socket (control_socket_unbind s') = None
     else control_socket s' = control_socket s \<and> open_fds (rev new) = [])"
proof (cases "default_socket_path os s")
  case None
  then show ?thesis using assms by (auto simp: control_socket_bind_def)
next
  case (Some ps)
  obtain p s0 where ps: "ps = (p, s0)" by (cases ps)
  have s0: "sock_log s0 = sock_log s" "control_socket s0 = control_socket s"
      "control_socket_path s0 = Some p"
    using Some by (auto simp: ps default_socket_path_def Let_def split: option.splits if_splits)
  show ?thesis
  proof (cases "length p \<ge> SUN_PATH_MAX \<or> os_socket os (sock_log s0) = None")
    case True
    then have "s' = s0" "\<not> ok"
      using assms by (auto simp: control_socket_bind_def Some ps split: option.splits if_splits)
    then show ?thesis using s0 by simp
  next
    case False
    then obtain fd where fd: "os_socket os (sock_log s0) = Some fd" "length p < 108"
      by (auto simp: SUN_PATH_MAX_def)
    let ?e1 = "[Opened fd, Unlinked p]"
    let ?e2 = "?e1 @ [Bound fd p]" let ?e3 = "?e2 @ [Chmod p 0x180]"
    have priv: "listening_is_private p (?e3 @ [Listening fd])"
      unfolding listening_is_private_def
    proof (intro allI impI)
      fix k fd'
      let ?es = "?e3 @ [Listening fd]"
      assume "k < length ?es" "?es ! k = Listening fd'"
      then have "k = 4" "fd' = fd" by (auto simp: less_Suc_eq)
      moreover have "?es ! 2 = Bound fd p" "?es ! 3 = Chmod p 0x180" by simp_all
      ultimately show "(\<exists>i j. i < j \<and> j < k \<and> ?es ! i = Bound fd' p \<and> ?es ! j = Chmod p 0x180) \<and>
          (\<forall>i < k. \<forall>q. ?es ! i = Bound fd' q \<longrightarrow> q = p) \<and>
          (\<forall>j < k. \<forall>q m. ?es ! j = Chmod q m \<longrightarrow> q = p \<and> m = 0x180)"
        by (intro conjI exI [of _ 2] exI [of _ 3]) (auto simp: less_Suc_eq numeral_eq_Suc)
    qed
    consider (bind) "\<not> ok" "s' = log_sock (?e1 @ [Closed fd]) s0"
      | (chmod) "\<not> ok" "s' = log_sock (?e2 @ [Closed fd, Unlinked p]) s0"
      | (listen) "\<not> ok" "s' = log_sock (?e3 @ [Closed fd, Unlinked p]) s0"
      | (published) "ok" "s' = (log_sock (?e3 @ [Listening fd]) s0)\<lparr>control_socket := Some fd\<rparr>"
      using assms fd
      by (auto simp: control_socket_bind_def Some ps SUN_PATH_MAX_def Let_def log_sock_def
          S_IRUSR_def S_IWUSR_def
          split: if_splits)
    then show ?thesis
    proof cases
      case published
      have "sock_log s' = sock_log s @ (?e3 @ [Listening fd])"
        using published by (simp add: log_sock_def s0)
      with published priv fd(2) s0 show ?thesis
        by (intro exI [of _ "?e3 @ [Listening fd]"])
          (simp add: log_sock_def control_socket_unbind_def)
    qed (auto simp: log_sock_def s0)
  qed
qed

definition demo_sock_os :: sock_os where
  "demo_sock_os = \<lparr>xdg_runtime_dir = Some ''/run/user/1000'', process_id = 42,
     os_socket = (\<lambda>_. Some 7), os_bind = (\<lambda>_ _. True), os_chmod = (\<lambda>_ _ _. True),
     os_listen = (\<lambda>_. True)\<rparr>"

definition demo_sock :: sock where
  "demo_sock =
     \<lparr>control_socket = None, control_socket_path = None, socket_seq = 0, sock_log = []\<rparr>"

lemma bind_leaks_nothing_witness:
  "control_socket (snd (control_socket_bind demo_sock_os demo_sock)) = Some 7 \<and>
   control_socket (control_socket_unbind (snd (control_socket_bind demo_sock_os demo_sock))) = None"
proof -
  have "fst (control_socket_bind demo_sock_os demo_sock)"
      "control_socket (snd (control_socket_bind demo_sock_os demo_sock)) = Some 7"
    by code_simp+
  then show ?thesis
    using bind_leaks_nothing [of demo_sock_os demo_sock] by (metis prod.collapse)
qed

end
