(* ===== verification/ControlThread.thy ===== *)
theory ControlThread
  imports ControlSocket
begin

text \<open>
  The accept loop of the control socket. A \<open>loop_turn\<close> is what the outside answers in one turn:
  \<open>control_running\<close>, the descriptor published under \<open>control_mutex\<close>, what \<open>select\<close>, \<open>accept\<close> and
  \<open>read\<close> return, and the PTZ requests other threads served before it (properties and
  \<open>set-ptz\<close>). The loop runs over a list of turns; it returns whether the thread has exited, the
  events on client descriptors and the PTZ state. \<open>read\<close> blocks until the client sends or
  closes, so a turn exists only once it has returned.
\<close>

subsection \<open>The loop\<close>

datatype select_result = Select_failed | Select_timeout | Select_ready

record loop_turn =
  running :: bool
  listening :: "nat option"
  selected :: select_result
  accepted :: "nat option"
  received :: "string option"
  others :: "ptz_request list"

datatype client_event = Accepted nat | Responded nat string | Client_closed nat

definition handle_client ::
  "ptz_camera \<Rightarrow> nat \<Rightarrow> string option \<Rightarrow> ptz \<Rightarrow> client_event list \<times> ptz" where
  "handle_client cam client_fd bytes s =
     (let raw = (case bytes of None \<Rightarrow> [] | Some b \<Rightarrow> take CONTROL_READ_MAX b);
          (response, s1) = serve_client cam raw s
      in ([Accepted client_fd] @ (case response of None \<Rightarrow> [] | Some r \<Rightarrow> [Responded client_fd r]) @
          [Client_closed client_fd], s1))"

definition control_turn ::
  "ptz_camera \<Rightarrow> loop_turn \<Rightarrow> client_event list \<times> ptz \<Rightarrow> bool \<times> client_event list \<times> ptz" where
  \<comment> \<open>\<open>True\<close> when the turn leaves the loop\<close>
  "control_turn cam t st =
     (let evs = fst st; s = fold (serve_request cam) (others t) (snd st) in
      if \<not> running t then (True, evs, s)
      else (case listening t of
        None \<Rightarrow> (True, evs, s)
      | Some listen_fd \<Rightarrow>
          (case selected t of
             Select_failed \<Rightarrow> (True, evs, s)
           | Select_timeout \<Rightarrow> (False, evs, s)
           | Select_ready \<Rightarrow>
               (case accepted t of
                  None \<Rightarrow> (False, evs, s)
                | Some client_fd \<Rightarrow>
                    (case handle_client cam client_fd (received t) s of
                       (new, s1) \<Rightarrow> (False, evs @ new, s1))))))"

fun control_thread ::
  "ptz_camera \<Rightarrow> loop_turn list \<Rightarrow> client_event list \<times> ptz \<Rightarrow> bool \<times> client_event list \<times> ptz" where
  "control_thread cam [] st = (False, st)"
| "control_thread cam (t # ts) st =
     (case control_turn cam t st of
        (True, st1) \<Rightarrow> (True, st1)
      | (False, st1) \<Rightarrow> control_thread cam ts st1)"

subsection \<open>Each client is answered at most once and closed\<close>

inductive served :: "client_event list \<Rightarrow> bool" where
  nobody: "served []"
| silent: "served evs \<Longrightarrow> served (evs @ [Accepted fd, Client_closed fd])"
| answered: "served evs \<Longrightarrow> served (evs @ [Accepted fd, Responded fd r, Client_closed fd])"

lemma handle_client_served:
  "served evs \<Longrightarrow> served (evs @ fst (handle_client cam fd bytes s))"
  by (auto simp: handle_client_def Let_def split: prod.split option.split
      intro: served.intros)

lemma handle_client_step: "ptz_step s (snd (handle_client cam fd bytes s))"
  using serve_client_step by (auto simp: handle_client_def Let_def split: prod.split) (metis snd_conv)

definition turn_ok :: "client_event list \<times> ptz \<Rightarrow> client_event list \<times> ptz \<Rightarrow> bool" where
  "turn_ok st st' \<longleftrightarrow> (served (fst st) \<longrightarrow> served (fst st')) \<and> ptz_step (snd st) (snd st')"

lemma turn_ok_trans: "turn_ok a b \<Longrightarrow> turn_ok b c \<Longrightarrow> turn_ok a c"
  using ptz_step_trans by (auto simp: turn_ok_def)

lemma control_turn_ok: "turn_ok st (snd (control_turn cam t st))"
proof -
  define s where "s = fold (serve_request cam) (others t) (snd st)"
  have 0: "ptz_step (snd st) s" unfolding s_def by (rule serve_requests_step)
  have "turn_ok st (fst st @ new, s1)" if "handle_client cam fd b s = (new, s1)" for fd b new s1
    using that ptz_step_trans [OF 0 handle_client_step [of s cam fd b]]
      handle_client_served [of "fst st" cam fd b s] by (simp add: turn_ok_def)
  moreover have "turn_ok st (fst st, s)" using 0 by (simp add: turn_ok_def)
  ultimately show ?thesis
    by (simp add: control_turn_def Let_def s_def [symmetric] split: option.split select_result.split prod.split)
qed

lemma control_thread_ok: "turn_ok st (snd (control_thread cam ts st))"
proof (induction ts arbitrary: st)
  case Nil
  show ?case by (simp add: turn_ok_def ptz_step_refl)
next
  case (Cons t ts)
  obtain b st1 where "control_turn cam t st = (b, st1)" by (rule prod.exhaust)
  then show ?case
    using control_turn_ok [of st cam t] turn_ok_trans [OF _ Cons.IH [of st1]] by (cases b) simp_all
qed

subsection \<open>Properties\<close>

text \<open>
  Claim C34. The socket thread serves cleanly: whatever \<open>select\<close>, \<open>accept\<close> and \<open>read\<close> answer, whatever bytes
  clients send and whatever other threads do between two turns, every accepted descriptor is
  closed before the next one is accepted and gets at most one response, and starting from probed
  limits with the current positions inside them (\<open>ptz_in_range\<close>; a probe that could not read a
  position does not give it) every camera transfer stays within them.
\<close>
theorem control_thread_serves:
  assumes "control_thread cam ts ([], s) = (gone, evs, s')" "ptz_wf s" "ptz_in_range s"
  shows "served evs \<and> same_limits s s' \<and> ptz_in_range s' \<and>
    (\<exists>new. transfers s' = transfers s @ new \<and> (\<forall>(c, e) \<in> set new. transfer_ok s c))"
  using control_thread_ok [of "([], s)" cam ts] assms
  by (auto simp: turn_ok_def ptz_step_def intro: served.nobody)

definition demo_turn :: loop_turn where
  "demo_turn = \<lparr>running = True, listening = Some 7, selected = Select_ready, accepted = Some 8,
     received = Some ''PAN_TILT -7 95'', others = [By_pan 90000]\<rparr>"

lemma control_thread_serves_witness:
  "served (fst (snd (control_thread demo_camera
     [demo_turn, demo_turn\<lparr>received := None\<rparr>, demo_turn\<lparr>selected := Select_timeout\<rparr>,
      demo_turn\<lparr>running := False\<rparr>] ([], (demo_gimbal\<lparr>tilt_cur := 50\<rparr>))))) \<and>
   map (\<lambda>e. case e of Responded fd r \<Rightarrow> r | _ \<Rightarrow> []) (fst (snd (control_thread demo_camera
     [demo_turn, demo_turn\<lparr>received := None\<rparr>] ([], (demo_gimbal\<lparr>tilt_cur := 50\<rparr>))))) =
     [[], ''OK pan=-7 tilt=90'', [], [], []]"
proof -
  have "ptz_wf (demo_gimbal\<lparr>tilt_cur := 50\<rparr>)" "ptz_in_range (demo_gimbal\<lparr>tilt_cur := 50\<rparr>)" by code_simp+
  moreover have "map (\<lambda>e. case e of Responded fd r \<Rightarrow> r | _ \<Rightarrow> []) (fst (snd (control_thread demo_camera
     [demo_turn, demo_turn\<lparr>received := None\<rparr>] ([], (demo_gimbal\<lparr>tilt_cur := 50\<rparr>))))) =
     [[], ''OK pan=-7 tilt=90'', [], [], []]"
    by code_simp
  ultimately show ?thesis
    using control_thread_serves by (metis prod.collapse)
qed

text \<open>
  The thread stops when it is told to: once a turn finds \<open>control_running\<close> false, no published
  descriptor or a failed \<open>select\<close>, the thread has exited, nothing that could happen later is
  looked at, and that turn accepts nobody.
\<close>
theorem control_thread_stops:
  assumes "\<not> running t \<or> listening t = None \<or> selected t = Select_failed"
  shows "fst (control_thread cam (ts @ t # us) st) \<and>
    control_thread cam (ts @ t # us) st = control_thread cam (ts @ [t]) st \<and>
    fst (snd (control_thread cam (ts @ [t]) st)) = fst (snd (control_thread cam ts st))"
proof (induction ts arbitrary: st)
  case Nil
  obtain b st1 where c: "control_turn cam t st = (b, st1)" by (rule prod.exhaust)
  have "fst (control_turn cam t st)" "fst (snd (control_turn cam t st)) = fst st"
    using assms by (auto simp: control_turn_def Let_def split: option.split select_result.split)
  with c show ?case by simp
next
  case (Cons u ts)
  obtain b st1 where c: "control_turn cam u st = (b, st1)" by (rule prod.exhaust)
  have "fst (control_thread cam (ts @ [t]) st1)" using Cons [of st1] by metis
  then show ?case using Cons [of st1] by (cases b) (simp_all add: c)
qed

lemma control_thread_stops_witness:
  "control_thread demo_camera ([demo_turn] @ demo_turn\<lparr>running := False\<rparr> # [demo_turn]) ([], demo_gimbal) =
   control_thread demo_camera ([demo_turn] @ [demo_turn\<lparr>running := False\<rparr>]) ([], demo_gimbal)"
  using control_thread_stops [of "demo_turn\<lparr>running := False\<rparr>" demo_camera "[demo_turn]"] by simp

end
