(* ===== verification/V4l2Probe.thy ===== *)
theory V4l2Probe
  imports CachePath
begin

text \<open>
  The capability probe of \<open>uvc_device.c\<close>: open \<open>/dev/video<N>\<close>, try one H.264 format, close, log.
  The kernel's answers are the record \<open>v4l2_os\<close>; the calls made are returned beside what is
  logged (\<open>None\<close> when the node could not be opened). \<open>snprintf\<close> into the 32-byte array keeps the
  first 31 characters.
\<close>

type_synonym v4l2_u32 = "32 word"

record v4l2_pix =
  pix_width :: v4l2_u32
  pix_height :: v4l2_u32
  pixelformat :: v4l2_u32
  sizeimage :: v4l2_u32

record v4l2_os =
  os_open :: "string \<Rightarrow> nat option"
  os_try_fmt :: "nat \<Rightarrow> v4l2_pix \<Rightarrow> int \<times> v4l2_pix"

datatype v4l2_call = V4l2_open string | V4l2_try_fmt nat | V4l2_close nat

definition V4L2_PIX_FMT_H264 :: v4l2_u32 where
  \<comment> \<open>\<open>v4l2_fourcc ('H', '2', '6', '4')\<close> of the kernel's header\<close>
  "V4L2_PIX_FMT_H264 = 0x34363248"

definition PROBE_PATH_SIZE :: nat where "PROBE_PATH_SIZE = 32"

definition probe_path :: "int \<Rightarrow> string" where
  "probe_path device_index = take (PROBE_PATH_SIZE - 1) (''/dev/video'' @ dec_int device_index)"

definition v4l2_probe :: "v4l2_os \<Rightarrow> int \<Rightarrow> bool option \<times> v4l2_call list" where
  "v4l2_probe os device_index =
     (let path = probe_path device_index in
      case os_open os path of
        None \<Rightarrow> (None, [V4l2_open path])
      | Some fd \<Rightarrow>
          (let (ret, fmt) = os_try_fmt os fd
             \<lparr>pix_width = 1920, pix_height = 1080, pixelformat = V4L2_PIX_FMT_H264, sizeimage = 0\<rparr>
           in (Some (ret = 0 \<and> sizeimage fmt > 0 \<and> pixelformat fmt = V4L2_PIX_FMT_H264),
               [V4l2_open path, V4l2_try_fmt fd, V4l2_close fd])))"

lemma dec_nat_length: "n < 10 ^ Suc k \<Longrightarrow> length (dec_nat n) \<le> Suc k"
proof (induction k arbitrary: n)
  case (Suc k)
  show ?case
  proof (cases "n < 10")
    case False
    have "n div 10 < 10 ^ Suc k" using Suc.prems by (simp add: less_mult_imp_div_less)
    with Suc.IH False show ?thesis by (subst dec_nat.simps) simp
  qed (subst dec_nat.simps, simp)
qed (subst dec_nat.simps, simp)

lemma dec_int_length:
  assumes "- 2147483648 \<le> i" "i \<le> 2147483647"
  shows "length (dec_int i) \<le> 11"
proof -
  have "nat (- i) < 10 ^ Suc 9" "nat i < 10 ^ Suc 9" using assms by auto
  then have "length (dec_nat (nat (- i))) \<le> 10" "length (dec_nat (nat i)) \<le> 10"
    using dec_nat_length by fastforce+
  then show ?thesis by (simp add: dec_int_def)
qed

text \<open>
  The probe is exact and leaves nothing behind: for every \<open>int\<close> index the device path fits its
  array whole, so distinct indices probe distinct nodes; one node is opened, at most one format is
  tried, and a descriptor that was opened is closed again on every outcome.
\<close>
theorem v4l2_probe_closes:
  assumes "- 2147483648 \<le> i" "i \<le> 2147483647"
  shows "probe_path i = ''/dev/video'' @ dec_int i \<and>
    (\<forall>j. - 2147483648 \<le> j \<and> j \<le> 2147483647 \<and> probe_path j = probe_path i \<longrightarrow> j = i) \<and>
    (case os_open os (probe_path i) of
       None \<Rightarrow> snd (v4l2_probe os i) = [V4l2_open (probe_path i)]
     | Some fd \<Rightarrow> snd (v4l2_probe os i) = [V4l2_open (probe_path i), V4l2_try_fmt fd, V4l2_close fd])"
proof -
  have p: "probe_path k = ''/dev/video'' @ dec_int k" if "- 2147483648 \<le> k" "k \<le> 2147483647" for k
    using dec_int_length [OF that] by (simp add: probe_path_def PROBE_PATH_SIZE_def)
  then show ?thesis
    using assms dec_int_inj
    by (auto simp: v4l2_probe_def Let_def split: option.split prod.split)
qed

lemma v4l2_probe_closes_witness:
  "snd (v4l2_probe \<lparr>os_open = (\<lambda>p. if p = ''/dev/video12'' then Some 3 else None),
     os_try_fmt = (\<lambda>fd f. (0, f\<lparr>sizeimage := 4096\<rparr>))\<rparr> 12) =
   [V4l2_open ''/dev/video12'', V4l2_try_fmt 3, V4l2_close 3]"
proof -
  define os where "os = \<lparr>os_open = (\<lambda>p. if p = ''/dev/video12'' then Some 3 else None),
     os_try_fmt = (\<lambda>fd f. (0 :: int, f\<lparr>sizeimage := 4096\<rparr>))\<rparr>"
  have "dec_int 12 = ''12''" by code_simp
  then have "probe_path 12 = ''/dev/video12''" by (simp add: probe_path_def PROBE_PATH_SIZE_def)
  moreover from this have "os_open os (probe_path 12) = Some 3" by (simp add: os_def)
  moreover have small: "(- 2147483648 :: int) \<le> 12" "(12 :: int) \<le> 2147483647" by simp_all
  moreover have "case os_open os (probe_path 12) of
       None \<Rightarrow> snd (v4l2_probe os 12) = [V4l2_open (probe_path 12)]
     | Some fd \<Rightarrow> snd (v4l2_probe os 12) = [V4l2_open (probe_path 12), V4l2_try_fmt fd, V4l2_close fd]"
    using v4l2_probe_closes [OF small, of os] by blast
  ultimately show ?thesis unfolding os_def [symmetric] by simp
qed

end
