(* ===== verification/Element.thy ===== *)
theory Element
  imports SpsPpsCache FramePipeline Quirks UsbRecovery Selector ControlSocket
begin

text \<open>
  The element: the fields of \<open>struct _GstLibuvcH264Src\<close> as one record over the records of its
  parts, the environment it runs in, and the operations that touch libuvc least: the
  constructor, the property setters and getters, clock and state changes, the latency query,
  \<open>unlock\<close> and \<open>unlock_stop\<close>, the interruptible wait, the queue and the handle teardown.

  libuvc, libusb and the monotonic clock are the record \<open>uvc_env\<close>: what each call answers, an
  arbitrary function of the history of all calls made so far, which the element's state
  carries. A call on a handle records the handle it was given, so a call on \<open>NULL\<close> shows as
  \<open>None\<close>. Other threads act while the streaming thread blocks: every wait and every queue
  pop lets the environment add frames to the queue (the feeder's callback) and call
  \<open>unlock\<close>. Loops that wait for the outside world carry fuel; \<open>stuck\<close> is set when it runs
  out, and the theorems that a function returns show that it is not. \<open>invalid_unref\<close> is set
  when the flush sentinel, which is no buffer, is handed to \<open>gst_buffer_unref\<close>. \<open>pad_caps\<close>
  are the caps set on the source pad: the deliverable structures and the fixated rate.
\<close>

subsection \<open>Calls and answers\<close>

datatype uvc_event =
    Ev_init "nat option"
  | Ev_exit "nat option"
  | Ev_resolved "uvc_device option"
  | Ev_unref "uvc_device option"
  | Ev_open uvc_device "nat option"
  | Ev_close "nat option"
  | Ev_get_ctrl "nat option"
  | Ev_probe "nat option"
  | Ev_set_buffers "nat option" u8
  | Ev_start "nat option" bool
  | Ev_stop "nat option"
  | Ev_reset "nat option"
  | Ev_now
  | Ev_wait int
  | Ev_pop

type_synonym uvc_history = "uvc_event list"

record uvc_env =
  env_init :: "uvc_history \<Rightarrow> nat option"
  env_find :: "uvc_history \<Rightarrow> nat \<Rightarrow> uvc_device list option"
  env_poll_time :: "uvc_history \<Rightarrow> nat \<Rightarrow> int"
  env_poll_flush :: "uvc_history \<Rightarrow> nat \<Rightarrow> bool"
  env_open :: "uvc_history \<Rightarrow> uvc_device \<Rightarrow> uvc_error + nat"
  env_get_ctrl :: "uvc_history \<Rightarrow> nat option \<Rightarrow> uvc_frame_format \<Rightarrow> int \<Rightarrow> int \<Rightarrow> int \<Rightarrow> uvc_error \<times> u32"
  env_probe :: "uvc_history \<Rightarrow> nat option \<Rightarrow> u32 \<Rightarrow> uvc_error \<times> u32"
  env_set_buffers :: "uvc_history \<Rightarrow> nat option \<Rightarrow> u8 \<Rightarrow> uvc_error"
  env_start :: "uvc_history \<Rightarrow> nat option \<Rightarrow> u32 \<Rightarrow> uvc_error"
  env_usb_handle :: "uvc_history \<Rightarrow> bool"
  env_reset :: "uvc_history \<Rightarrow> int"
  env_now :: "uvc_history \<Rightarrow> int"
  env_frames :: "uvc_history \<Rightarrow> gst_buffer list"
  env_unlock :: "uvc_history \<Rightarrow> bool"
  env_sysfs :: sysfs
  env_camera :: ptz_camera
  env_sock :: sock_os
  env_buffers_api :: bool

record elem =
  media :: pipeline
  ptz_part :: ptz
  sock_part :: sock
  disk :: fsys
  uvc_ctx :: "nat option"
  uvc_dev :: "uvc_device option"
  uvc_devh :: "nat option"
  ctrl_payload :: u32
  negotiated_framerate :: int
  deliverable_caps :: "caps option"
  pad_caps :: "(caps \<times> fraction) option"
  streaming :: bool
  flushing :: bool
  consecutive_timeouts :: int
  reconnect_enabled :: bool
  reset_recovery_used :: bool
  frames_since_reset :: u32
  max_payload :: u32
  max_payload_effective :: u32
  transfer_buffers :: u32
  transfer_buffers_effective :: u32
  reset_settle_max_ms :: u32
  reset_rearm_frames :: u32
  auto_port_reset :: bool
  deep_port_recovery :: bool
  deep_recovery_used :: bool
  target :: recovery_target
  control_socket_enabled :: bool
  control_thread_alive :: bool
  control_running :: bool
  sys_history :: history
  calls :: uvc_history
  messages :: "bus_message list"
  invalid_unref :: bool
  stuck :: bool

definition TIMEOUT_DURATION :: int where "TIMEOUT_DURATION = 1000000"
definition DISCONNECT_TIMEOUT_COUNT :: int where "DISCONNECT_TIMEOUT_COUNT = 5"
definition RECONNECT_MAX_RETRIES :: nat where "RECONNECT_MAX_RETRIES = 5"
definition RESET_REARM_FRAMES_DEFAULT :: u32 where "RESET_REARM_FRAMES_DEFAULT = 30"
definition RESET_SETTLE_MAX_MS_DEFAULT :: u32 where "RESET_SETTLE_MAX_MS_DEFAULT = 8000"
definition DEEP_RECOVERY_PORT_HOLD_MS :: nat where "DEEP_RECOVERY_PORT_HOLD_MS = 1000"

subsection \<open>Construction\<close>

definition ptz_zeroed :: ptz where
  "ptz_zeroed =
     \<lparr>have_devh = False, pan_min = 0, pan_max = 0, pan_cur = 0, tilt_min = 0, tilt_max = 0,
      tilt_cur = 0, zoom_min = 0, zoom_max = 0, zoom_cur = 0, pan_supported = False,
      tilt_supported = False, zoom_supported = False, ptz_supported = False, transfers = [],
      ptz_bus = []\<rparr>"

definition src_init :: "uvc_frame_format \<Rightarrow> nat \<Rightarrow> fsys \<Rightarrow> elem" where
  "src_init fmt seq d =
     \<lparr>media = pipeline_init fmt, ptz_part = ptz_zeroed,
      sock_part = \<lparr>control_socket = None, control_socket_path = None, socket_seq = seq,
                   sock_log = []\<rparr>,
      disk = d, uvc_ctx = None, uvc_dev = None, uvc_devh = None, ctrl_payload = 0,
      negotiated_framerate = 0, deliverable_caps = None, pad_caps = None, streaming = False, flushing = False,
      consecutive_timeouts = 0, reconnect_enabled = False, reset_recovery_used = False,
      frames_since_reset = 0, max_payload = 0, max_payload_effective = 0, transfer_buffers = 0,
      transfer_buffers_effective = 0, reset_settle_max_ms = RESET_SETTLE_MAX_MS_DEFAULT,
      reset_rearm_frames = RESET_REARM_FRAMES_DEFAULT, auto_port_reset = True,
      deep_port_recovery = False, deep_recovery_used = False, target = cleared_target,
      control_socket_enabled = False, control_thread_alive = False, control_running = False,
      sys_history = [], calls = [], messages = [], invalid_unref = False, stuck = False\<rparr>"

subsection \<open>Small steps\<close>

definition log_call :: "uvc_event \<Rightarrow> elem \<Rightarrow> elem" where
  "log_call e s = s\<lparr>calls := calls s @ [e]\<rparr>"

definition set_queue :: "queue_item list \<Rightarrow> elem \<Rightarrow> elem" where
  "set_queue q s = s\<lparr>media := (media s)\<lparr>frame_queue := q\<rparr>\<rparr>"

abbreviation queue_of :: "elem \<Rightarrow> queue_item list" where "queue_of s \<equiv> frame_queue (media s)"

definition rebaseline :: "elem \<Rightarrow> elem" where
  \<comment> \<open>both latch sentinels\<close>
  "rebaseline s = s\<lparr>media := (media s)\<lparr>base_time := G_MAXUINT64, prev_pts := G_MAXUINT64\<rparr>\<rparr>"

definition monotonic_now :: "uvc_env \<Rightarrow> elem \<Rightarrow> int \<times> elem" where
  "monotonic_now env s = (env_now env (calls s), log_call Ev_now s)"

definition src_unlock :: "elem \<Rightarrow> elem" where
  \<comment> \<open>the broadcast on \<open>reconnect_cond\<close> is what ends a wait early\<close>
  "src_unlock s = set_queue (queue_of s @ [Flush_sentinel]) (s\<lparr>flushing := True\<rparr>)"

definition src_unlock_stop :: "elem \<Rightarrow> elem" where
  "src_unlock_stop s = set_queue [] (s\<lparr>flushing := False\<rparr>)"

definition interfere :: "uvc_env \<Rightarrow> elem \<Rightarrow> elem" where
  \<comment> \<open>what the other threads do while this one blocks\<close>
  "interfere env s =
     (let s1 = set_queue (queue_of s @ map Frame (env_frames env (calls s))) s
      in if env_unlock env (calls s) then src_unlock s1 else s1)"

definition interruptible_wait :: "uvc_env \<Rightarrow> int \<Rightarrow> elem \<Rightarrow> bool \<times> elem" where
  \<comment> \<open>\<open>False\<close> when a flush asked to bail out\<close>
  "interruptible_wait env wait_us s =
     (let s1 = (if wait_us > 0 \<and> \<not> flushing s then log_call (Ev_wait wait_us) (interfere env s) else s)
      in (\<not> flushing s1, s1))"

definition timeout_pop :: "uvc_env \<Rightarrow> elem \<Rightarrow> queue_item option \<times> elem" where
  \<comment> \<open>\<open>g_async_queue_timeout_pop\<close>: blocks only on an empty queue\<close>
  "timeout_pop env s =
     (let s1 = log_call Ev_pop (if queue_of s = [] then interfere env s else s)
      in case queue_of s1 of
           [] \<Rightarrow> (None, s1)
         | item # rest \<Rightarrow> (Some item, set_queue rest s1))"

definition drain_queue :: "elem \<Rightarrow> elem" where
  "drain_queue s = set_queue [] s"

definition teardown_handle :: "elem \<Rightarrow> elem" where
  "teardown_handle s =
     (let s1 = (if uvc_devh s \<noteq> None
                then (log_call (Ev_close (uvc_devh s)) (log_call (Ev_stop (uvc_devh s)) s))
                       \<lparr>streaming := False, uvc_devh := None\<rparr>
                else s)
      in if uvc_dev s1 \<noteq> None
         then (log_call (Ev_unref (uvc_dev s1)) s1)\<lparr>uvc_dev := None\<rparr> else s1)"

subsection \<open>Clock, state and query\<close>

definition src_set_clock :: "nat option \<Rightarrow> elem \<Rightarrow> elem" where
  "src_set_clock c s =
     (case c of
        None \<Rightarrow> s\<lparr>media := (media s)\<lparr>clock := None\<rparr>\<rparr>
      | Some k \<Rightarrow> rebaseline (s\<lparr>media := (media s)\<lparr>clock := Some k\<rparr>\<rparr>))"

datatype state_change = PAUSED_TO_PLAYING | OTHER_TRANSITION

definition src_change_state :: "state_change \<Rightarrow> elem \<Rightarrow> elem" where
  "src_change_state t s = (if t = PAUSED_TO_PLAYING then rebaseline s else s)"

definition src_latency :: "elem \<Rightarrow> (u64 \<times> u64) option" where
  \<comment> \<open>the answer to a latency query; \<open>None\<close> leaves it to the base class\<close>
  "src_latency s =
     (let latency = nominal_duration (frame_interval (media s))
      in if latency \<noteq> G_MAXUINT64 then Some (latency, latency) else None)"

subsection \<open>Properties\<close>

definition with_ptz :: "(ptz \<Rightarrow> bool \<times> ptz) \<Rightarrow> elem \<Rightarrow> bool \<times> elem" where
  \<comment> \<open>runs a PTZ operation on the element's own fields\<close>
  "with_ptz f s =
     (let (r, p) = f ((ptz_part s)\<lparr>have_devh := uvc_devh s \<noteq> None, ptz_bus := messages s\<rparr>)
      in (r, s\<lparr>ptz_part := p, messages := ptz_bus p\<rparr>))"

datatype property_value =
    PROP_INDEX "string option"
  | PROP_PAN int
  | PROP_TILT int
  | PROP_ZOOM int
  | PROP_CONTROL_SOCKET bool
  | PROP_CONTROL_SOCKET_PATH "string option"
  | PROP_RECONNECT bool
  | PROP_MAX_PAYLOAD u32
  | PROP_TRANSFER_BUFFERS u32
  | PROP_RESET_SETTLE_MAX_MS u32
  | PROP_RESET_REARM_FRAMES u32
  | PROP_AUTO_PORT_RESET bool
  | PROP_DEEP_PORT_RECOVERY bool

fun src_set_property :: "uvc_env \<Rightarrow> property_value \<Rightarrow> elem \<Rightarrow> elem" where
  "src_set_property env (PROP_INDEX i) s = s\<lparr>media := (media s)\<lparr>index := i\<rparr>\<rparr>"
| "src_set_property env (PROP_PAN v) s = snd (with_ptz (ptz_set_pan (env_camera env) v) s)"
| "src_set_property env (PROP_TILT v) s = snd (with_ptz (ptz_set_tilt (env_camera env) v) s)"
| "src_set_property env (PROP_ZOOM v) s = snd (with_ptz (ptz_set_zoom (env_camera env) v) s)"
| "src_set_property env (PROP_CONTROL_SOCKET b) s = s\<lparr>control_socket_enabled := b\<rparr>"
| "src_set_property env (PROP_CONTROL_SOCKET_PATH p) s =
     s\<lparr>sock_part := (sock_part s)\<lparr>control_socket_path := (if p = Some [] then None else p)\<rparr>\<rparr>"
| "src_set_property env (PROP_RECONNECT b) s = s\<lparr>reconnect_enabled := b\<rparr>"
| "src_set_property env (PROP_MAX_PAYLOAD n) s = s\<lparr>max_payload := n\<rparr>"
| "src_set_property env (PROP_TRANSFER_BUFFERS n) s = s\<lparr>transfer_buffers := n\<rparr>"
| "src_set_property env (PROP_RESET_SETTLE_MAX_MS n) s = s\<lparr>reset_settle_max_ms := n\<rparr>"
| "src_set_property env (PROP_RESET_REARM_FRAMES n) s = s\<lparr>reset_rearm_frames := n\<rparr>"
| "src_set_property env (PROP_AUTO_PORT_RESET b) s = s\<lparr>auto_port_reset := b\<rparr>"
| "src_set_property env (PROP_DEEP_PORT_RECOVERY b) s = s\<lparr>deep_port_recovery := b\<rparr>"

datatype property_id =
    ID_INDEX | ID_PAN | ID_TILT | ID_ZOOM | ID_CONTROL_SOCKET | ID_CONTROL_SOCKET_PATH
  | ID_RECONNECT | ID_MAX_PAYLOAD | ID_TRANSFER_BUFFERS | ID_RESET_SETTLE_MAX_MS
  | ID_RESET_REARM_FRAMES | ID_AUTO_PORT_RESET | ID_DEEP_PORT_RECOVERY | ID_DELIVERABLE_CAPS

datatype gobject_value =
    V_string "string option" | V_int int | V_bool bool | V_uint u32 | V_caps "caps option"

fun src_get_property :: "property_id \<Rightarrow> elem \<Rightarrow> gobject_value" where
  "src_get_property ID_INDEX s = V_string (index (media s))"
| "src_get_property ID_PAN s = V_int (pan_cur (ptz_part s))"
| "src_get_property ID_TILT s = V_int (tilt_cur (ptz_part s))"
| "src_get_property ID_ZOOM s = V_int (zoom_cur (ptz_part s))"
| "src_get_property ID_CONTROL_SOCKET s = V_bool (control_socket_enabled s)"
| "src_get_property ID_CONTROL_SOCKET_PATH s = V_string (control_socket_path (sock_part s))"
| "src_get_property ID_RECONNECT s = V_bool (reconnect_enabled s)"
| "src_get_property ID_MAX_PAYLOAD s =
     V_uint (if max_payload_effective s > 0 then max_payload_effective s else max_payload s)"
| "src_get_property ID_TRANSFER_BUFFERS s =
     V_uint (if transfer_buffers_effective s > 0 then transfer_buffers_effective s
             else transfer_buffers s)"
| "src_get_property ID_RESET_SETTLE_MAX_MS s = V_uint (reset_settle_max_ms s)"
| "src_get_property ID_RESET_REARM_FRAMES s = V_uint (reset_rearm_frames s)"
| "src_get_property ID_AUTO_PORT_RESET s = V_bool (auto_port_reset s)"
| "src_get_property ID_DEEP_PORT_RECOVERY s = V_bool (deep_port_recovery s)"
| "src_get_property ID_DELIVERABLE_CAPS s = V_caps (deliverable_caps s)"

definition src_filter_deliverable_caps ::
  "range_fn \<Rightarrow> caps option \<Rightarrow> u32 \<Rightarrow> u32 \<Rightarrow> caps option" where
  "src_filter_deliverable_caps set_range advertised vendor product =
     (case advertised of
        None \<Rightarrow> None
      | Some cs \<Rightarrow>
          Some (uvc_quirks_filter_caps set_range
            (Some (uvc_quirks_limits (ucast vendor) (ucast product))) cs))"

definition src_action_set_ptz :: "uvc_env \<Rightarrow> int \<Rightarrow> int \<Rightarrow> int \<Rightarrow> elem \<Rightarrow> bool \<times> elem" where
  "src_action_set_ptz env p t z s = with_ptz (src_set_ptz (env_camera env) p t z) s"

end
