(* ===== verification/Negotiate.thy ===== *)
theory Negotiate
  imports Element "HOL-Library.Signed_Division"
begin

text \<open>
  Caps negotiation of the element: the payload and transfer-buffer overrides, the stream
  control probe with its retry, the choice of a mode from the device's descriptors and
  \<open>gst_libuvc_h264_negotiate\<close>. A frame descriptor has its interval list (\<open>None\<close> for a
  \<open>NULL\<close> one, the terminating zero left out). What the peer accepts is GStreamer's and the
  application's and comes in as \<open>peer_caps\<close>: whether given caps intersect the allowed ones,
  and the rate the intersection is fixated to when asked for one.
\<close>

subsection \<open>Payload and transfer buffers\<close>

definition MAX_PAYLOAD_MIN_LEGAL :: u32 where "MAX_PAYLOAD_MIN_LEGAL = 512"
definition MAX_PAYLOAD_MAX :: u32 where "MAX_PAYLOAD_MAX = 4194304"
definition TRANSFER_BUFFERS_MIN :: u32 where "TRANSFER_BUFFERS_MIN = 2"
definition TRANSFER_BUFFERS_MAX :: u32 where "TRANSFER_BUFFERS_MAX = 100"

definition get_stream_ctrl :: "uvc_env \<Rightarrow> int \<Rightarrow> int \<Rightarrow> int \<Rightarrow> elem \<Rightarrow> uvc_error \<times> elem" where
  \<comment> \<open>\<open>uvc_get_stream_ctrl_format_size\<close>, which fills the control block\<close>
  "get_stream_ctrl env width height fps s =
     (let (res, payload) =
            env_get_ctrl env (calls s) (uvc_devh s) (frame_format (media s)) width height fps
      in (res, (log_call (Ev_get_ctrl (uvc_devh s)) s)\<lparr>ctrl_payload := payload\<rparr>))"

definition negotiate_clean_payload :: "uvc_env \<Rightarrow> int \<Rightarrow> int \<Rightarrow> int \<Rightarrow> elem \<Rightarrow> bool \<times> elem" where
  "negotiate_clean_payload env width height fps s =
     (let (res, s1) = get_stream_ctrl env width height fps s
      in if res \<noteq> UVC_SUCCESS then (False, s1)
         else (True, s1\<lparr>max_payload_effective := ctrl_payload s1\<rparr>))"

definition clamp_u32 :: "u32 \<Rightarrow> u32 \<Rightarrow> u32 \<Rightarrow> u32" where
  \<comment> \<open>first the floor, then the ceiling\<close>
  "clamp_u32 lo hi v = (let v1 = (if v < lo then lo else v) in if v1 > hi then hi else v1)"

definition apply_max_payload :: "uvc_env \<Rightarrow> int \<Rightarrow> int \<Rightarrow> int \<Rightarrow> elem \<Rightarrow> elem" where
  "apply_max_payload env width height fps s =
     (if max_payload s = 0 then s\<lparr>max_payload_effective := ctrl_payload s\<rparr>
      else
        let clamped = clamp_u32 MAX_PAYLOAD_MIN_LEGAL MAX_PAYLOAD_MAX (max_payload s);
            (res, committed) = env_probe env (calls s) (uvc_devh s) clamped;
            s1 = (log_call (Ev_probe (uvc_devh s)) s)\<lparr>ctrl_payload := committed\<rparr>
        in if res \<noteq> UVC_SUCCESS \<or> committed \<noteq> clamped
           then snd (negotiate_clean_payload env width height fps s1)
           else s1\<lparr>max_payload_effective := committed\<rparr>)"

definition apply_transfer_buffers :: "uvc_env \<Rightarrow> elem \<Rightarrow> elem" where
  "apply_transfer_buffers env s =
     (if transfer_buffers s = 0 \<or> \<not> env_buffers_api env then s
      else
        let clamped = clamp_u32 TRANSFER_BUFFERS_MIN TRANSFER_BUFFERS_MAX (transfer_buffers s);
            res = env_set_buffers env (calls s) (uvc_devh s) (ucast clamped);
            s1 = log_call (Ev_set_buffers (uvc_devh s) (ucast clamped)) s
        in if res \<noteq> UVC_SUCCESS then s1 else s1\<lparr>transfer_buffers_effective := clamped\<rparr>)"

subsection \<open>The probe\<close>

datatype probe_policy = PROBE_POLICY_SINGLE | PROBE_POLICY_DOUBLE | PROBE_POLICY_RETRY

definition probe_stream_ctrl ::
  "uvc_env \<Rightarrow> int \<Rightarrow> int \<Rightarrow> int \<Rightarrow> probe_policy \<Rightarrow> elem \<Rightarrow> uvc_error \<times> elem" where
  "probe_stream_ctrl env width height fps policy s =
     (let s0 = (if policy = PROBE_POLICY_DOUBLE then snd (get_stream_ctrl env width height fps s)
                else s);
          (res, s1) = get_stream_ctrl env width height fps s0
      in if policy = PROBE_POLICY_RETRY \<and> res = UVC_ERROR_INVALID_MODE
         then get_stream_ctrl env width height fps s1 else (res, s1))"

subsection \<open>Choosing a mode\<close>

record frame_desc =
  wWidth :: u16
  wHeight :: u16
  intervals :: "u32 list option"
  dwMinFrameInterval :: u32
  dwMaxFrameInterval :: u32

record format_desc =
  fourcc :: string
  frame_descs :: "frame_desc list"

record peer_caps =
  can_intersect :: "caps \<Rightarrow> bool"
  fixated_rate :: "caps \<Rightarrow> int \<Rightarrow> fraction"

definition fps_of_interval :: "u32 \<Rightarrow> int" where
  "fps_of_interval i = 10000000 div uint i"

fun top_rate_list :: "int \<Rightarrow> gvalue list \<Rightarrow> int" where
  "top_rate_list best [] = best"
| "top_rate_list best (rate # rates) =
     (let num = fraction_numerator rate; den = fraction_denominator rate
      in top_rate_list (if den > 0 \<and> num sdiv den > best then num sdiv den else best) rates)"

definition top_rate :: "gstructure \<Rightarrow> int" where
  "top_rate s = (case framerate s of Some (GList rates) \<Rightarrow> top_rate_list (-1) rates | _ \<Rightarrow> -1)"

record selection =
  sel_width :: int
  sel_height :: int
  sel_rate :: int
  sel_format :: uvc_frame_format
  sel_best :: "(caps \<times> fraction) option"
  sel_ladder :: caps
  sel_tmp :: "gvalue option"

definition frame_rates :: "range_fn \<Rightarrow> frame_desc \<Rightarrow> gvalue option \<Rightarrow> gvalue option option" where
  \<comment> \<open>the frame-rate field after the descriptor, from the field before; \<open>None\<close> skips it\<close>
  "frame_rates set_range fd old =
     (case intervals fd of
        Some ivs \<Rightarrow> Some (Some (GList (map (\<lambda>i. GFraction (fps_of_interval i) 1) ivs)))
      | None \<Rightarrow>
          if dwMinFrameInterval fd = 0 \<or> dwMaxFrameInterval fd = 0 then None
          else Some (set_range (fps_of_interval (dwMaxFrameInterval fd), 1)
                      (fps_of_interval (dwMinFrameInterval fd), 1) old))"

definition consider_frame ::
  "range_fn \<Rightarrow> quirk_limits \<Rightarrow> peer_caps \<Rightarrow> bool \<Rightarrow> frame_desc \<Rightarrow> selection \<Rightarrow> selection" where
  "consider_frame set_range limits peer is_h264 fd st =
     (case frame_rates set_range fd (sel_tmp st) of
        None \<Rightarrow> st
      | Some rates \<Rightarrow>
          (let st1 = st\<lparr>sel_tmp := rates\<rparr>;
               tmp_caps = [\<lparr>gname = (if is_h264 then ''video/x-h264'' else ''video/x-h265''),
                            gwidth = Some (uint (wWidth fd)), gheight = Some (uint (wHeight fd)),
                            framerate = rates\<rparr>];
               deliverable = uvc_quirks_filter_caps set_range (Some limits) tmp_caps
           in if deliverable = [] then st1
              else
                let st2 = st1\<lparr>sel_ladder := sel_ladder st1 @ deliverable\<rparr>;
                    fps = top_rate (hd deliverable);
                    resolution = to_gint (uint (wWidth fd) * uint (wHeight fd));
                    best_so_far = to_gint (sel_width st2 * sel_height st2)
                in if can_intersect peer deliverable \<and>
                      (resolution > best_so_far \<or> resolution = best_so_far \<and> fps > sel_rate st2)
                   then
                     let (num, den) = fixated_rate peer deliverable fps
                     in st2\<lparr>sel_width := uint (wWidth fd), sel_height := uint (wHeight fd),
                            sel_format := (if is_h264 then UVC_FRAME_FORMAT_H264
                                           else UVC_FRAME_FORMAT_H265),
                            sel_best := Some (deliverable, (num, den)),
                            sel_rate := num sdiv den\<rparr>
                   else st2))"

definition consider_format ::
  "range_fn \<Rightarrow> quirk_limits \<Rightarrow> peer_caps \<Rightarrow> format_desc \<Rightarrow> bool \<times> selection \<Rightarrow> bool \<times> selection"
  where
  "consider_format set_range limits peer f acc =
     (case acc of (found, st) \<Rightarrow>
        if fourcc f \<noteq> ''H264'' \<and> fourcc f \<noteq> ''H265'' then (found, st)
        else (True,
          fold (consider_frame set_range limits peer (fourcc f = ''H264'')) (frame_descs f)
            (st\<lparr>sel_tmp := None\<rparr>)))"

definition device_limits :: "uvc_device option \<Rightarrow> quirk_limits" where
  "device_limits dev =
     (case dev of
        None \<Rightarrow> \<lparr>flags = 0, max_pixel_rate = 0\<rparr>
      | Some d \<Rightarrow> (case dev_descriptor d of
            None \<Rightarrow> \<lparr>flags = 0, max_pixel_rate = 0\<rparr>
          | Some desc \<Rightarrow> uvc_quirks_limits (idVendor desc) (idProduct desc)))"

definition select_mode ::
  "range_fn \<Rightarrow> peer_caps \<Rightarrow> format_desc list \<Rightarrow> elem \<Rightarrow> bool \<times> selection" where
  "select_mode set_range peer formats s =
     fold (consider_format set_range (device_limits (uvc_dev s)) peer) formats
       (False, \<lparr>sel_width = -1, sel_height = -1, sel_rate = -1,
                sel_format = frame_format (media s), sel_best = None, sel_ladder = [],
                sel_tmp = None\<rparr>)"

definition negotiate ::
  "uvc_env \<Rightarrow> range_fn \<Rightarrow> peer_caps \<Rightarrow> format_desc list \<Rightarrow> elem \<Rightarrow> bool \<times> elem" where
  "negotiate env set_range peer formats s =
     (let (found, sel) = select_mode set_range peer formats s;
          publish = (\<lambda>s. s\<lparr>deliverable_caps := Some (sel_ladder sel)\<rparr>);
          width = sel_width sel; height = sel_height sel; rate = sel_rate sel;
          s0 = s\<lparr>media := (media s)\<lparr>frame_format := sel_format sel\<rparr>\<rparr>
      in if \<not> found then
           (False, publish (s0\<lparr>messages := post_error UVC_ERROR_NOT_SUPPORTED
              (Some ''negotiating caps: device exposes no H264/H265 format'') (messages s0)\<rparr>))
         else if width < 0 \<or> height < 0 \<or> rate \<le> 0 \<or> sel_best sel = None then (False, publish s0)
         else
           let (res, s1) = probe_stream_ctrl env width height rate PROBE_POLICY_RETRY s0
           in if res \<noteq> UVC_SUCCESS then (False, publish s1)
              else
                let s2 = apply_max_payload env width height rate s1;
                    m = (media s2)\<lparr>frame_interval := 1000000000 div rate,
                                   negotiated_width := width, negotiated_height := height\<rparr>;
                    m1 = load_spspps (disk s2) (spspps_key_snapshot m) m
                in (True, publish (s2\<lparr>media := m1, negotiated_framerate := rate,
                                      pad_caps := sel_best sel\<rparr>)))"

end
