(* ===== verification/Recovery.thy ===== *)
theory Recovery
  imports Negotiate
begin

text \<open>
  Reconnecting to a lost camera and recovering a wedged one: \<open>resolve_device\<close> on the
  element's state, \<open>reopen_once\<close>, the bounded reconnect ladder, the proof by a first frame,
  the settle loop, the port reset, the deep rung and \<open>recover_wedged_device\<close>. The loops that
  end by the clock take fuel.
\<close>

definition G_TIME_SPAN_MILLISECOND :: int where "G_TIME_SPAN_MILLISECOND = 1000"

subsection \<open>Resolving and reopening\<close>

definition poll_env_of :: "uvc_env \<Rightarrow> elem \<Rightarrow> poll_env" where
  "poll_env_of env s =
     \<lparr>find_devices = env_find env (calls s), monotonic_time = env_poll_time env (calls s),
      flush_after_wait = (\<lambda>n. flushing s \<or> env_poll_flush env (calls s) n)\<rparr>"

definition resolve_in ::
  "uvc_env \<Rightarrow> nat \<Rightarrow> selector \<Rightarrow> int \<Rightarrow> elem \<Rightarrow> (nat \<times> uvc_device) option \<times> bool \<times> elem" where
  \<comment> \<open>the device with its ordinal, whether enumeration failed, and the state after; a flush
     that is already on ends the poll at its first wait, one during the poll leaves its mark\<close>
  "resolve_in env fuel sel deadline s =
     (case resolve_device (poll_env_of env s) sel deadline fuel of
        None \<Rightarrow> (None, False, s\<lparr>stuck := True\<rparr>)
      | Some r \<Rightarrow>
          (let polls = length (res_waits r);
               flushed = (polls > 0 \<and> \<not> flushing s \<and> env_poll_flush env (calls s) (polls - 1));
               s1 = log_call (Ev_resolved (map_option snd (res_device r))) s;
               s2 = (if flushed then src_unlock s1 else s1)
           in (res_device r, res_enum_failed r, s2)))"

definition check_deadline :: "uvc_env \<Rightarrow> int \<Rightarrow> elem \<Rightarrow> bool \<times> elem" where
  \<comment> \<open>\<open>deadline != 0 && g_get_monotonic_time () >= deadline\<close>\<close>
  "check_deadline env deadline s =
     (if deadline = 0 then (False, s)
      else let (now, s1) = monotonic_now env s in (now \<ge> deadline, s1))"

definition close_and_unref :: "elem \<Rightarrow> elem" where
  "close_and_unref s =
     (log_call (Ev_unref (uvc_dev s)) ((log_call (Ev_close (uvc_devh s)) s)\<lparr>uvc_devh := None\<rparr>))
       \<lparr>uvc_dev := None\<rparr>"

definition rearm_stream :: "elem \<Rightarrow> elem" where
  "rearm_stream s = rebaseline (s\<lparr>media := (media s)\<lparr>had_idr := False, send_sps_pps := False\<rparr>\<rparr>)"

definition start_streaming :: "uvc_env \<Rightarrow> elem \<Rightarrow> uvc_error \<times> elem" where
  "start_streaming env s =
     (let res = env_start env (calls s) (uvc_devh s) (ctrl_payload s)
      in (res, log_call (Ev_start (uvc_devh s) (res = UVC_SUCCESS)) s))"

definition reopen_once :: "uvc_env \<Rightarrow> nat \<Rightarrow> selector \<Rightarrow> int \<Rightarrow> elem \<Rightarrow> bool \<times> elem" where
  "reopen_once env fuel sel deadline s =
     (case resolve_in env fuel sel deadline s of
        (None, _, s1) \<Rightarrow> (False, s1)
      | (Some (_, selected), _, s1) \<Rightarrow>
          (case check_deadline env deadline s1 of
             (True, s2) \<Rightarrow> (False, log_call (Ev_unref (Some selected)) s2)
           | (False, s2) \<Rightarrow>
               (case env_open env (calls s2) selected of
                  Inl e \<Rightarrow>
                    (False, log_call (Ev_unref (Some selected))
                              ((log_call (Ev_open selected None) s2)\<lparr>uvc_devh := None\<rparr>))
                | Inr h \<Rightarrow>
                    (let s3 = (log_call (Ev_open selected (Some h)) s2)
                                \<lparr>uvc_devh := Some h, uvc_dev := Some selected\<rparr>;
                         m = media s3;
                         (late, s4) = check_deadline env deadline s3;
                         (res, s5) = (if late then (UVC_SUCCESS, s4)
                           else get_stream_ctrl env (negotiated_width m) (negotiated_height m)
                                  (negotiated_framerate s3) s4)
                     in if late \<or> res \<noteq> UVC_SUCCESS then (False, close_and_unref s5)
                        else
                          let s6 = apply_max_payload env (negotiated_width m) (negotiated_height m)
                                     (negotiated_framerate s3) s5;
                              s7 = apply_transfer_buffers env (rearm_stream s6);
                              (late2, s8) = check_deadline env deadline s7;
                              (res2, s9) = (if late2 then (UVC_SUCCESS, s8) else start_streaming env s8)
                          in if late2 \<or> res2 \<noteq> UVC_SUCCESS then (False, close_and_unref s9)
                             else (True, s9\<lparr>streaming := True\<rparr>)))))"

subsection \<open>The reconnect ladder\<close>

definition backoff_wait_us :: "nat \<Rightarrow> int" where
  \<comment> \<open>the wait before an attempt: 1, 2, 4, 8, 16 s\<close>
  "backoff_wait_us attempt = 2 ^ attempt * 1000000"

fun reconnect_loop :: "uvc_env \<Rightarrow> nat \<Rightarrow> selector \<Rightarrow> nat \<Rightarrow> nat \<Rightarrow> elem \<Rightarrow> bool \<times> elem" where
  "reconnect_loop env fuel sel attempt 0 s = (False, s)"
| "reconnect_loop env fuel sel attempt (Suc retries) s =
     (case interruptible_wait env (backoff_wait_us attempt) s of
        (False, s1) \<Rightarrow> (False, s1)
      | (True, s1) \<Rightarrow>
          (case reopen_once env fuel sel 0 s1 of
             (True, s2) \<Rightarrow> (True, s2)
           | (False, s2) \<Rightarrow> reconnect_loop env fuel sel (attempt + 1) retries s2))"

definition reconnect_bounded :: "uvc_env \<Rightarrow> nat \<Rightarrow> nat \<Rightarrow> elem \<Rightarrow> bool \<times> elem" where
  "reconnect_bounded env fuel max_retries s =
     (case parse_selector (index (media s)) of
        Inl err \<Rightarrow> (False, s)
      | Inr sel \<Rightarrow> reconnect_loop env fuel sel 0 max_retries (drain_queue (teardown_handle s)))"

definition reconnect :: "uvc_env \<Rightarrow> nat \<Rightarrow> elem \<Rightarrow> bool \<times> elem" where
  "reconnect env fuel s = reconnect_bounded env fuel RECONNECT_MAX_RETRIES s"

subsection \<open>Proof by a frame\<close>

fun await_loop :: "uvc_env \<Rightarrow> nat \<Rightarrow> int \<Rightarrow> elem \<Rightarrow> bool \<times> elem" where
  "await_loop env 0 deadline s = (False, s\<lparr>stuck := True\<rparr>)"
| "await_loop env (Suc fuel) deadline s =
     (let (now, s1) = monotonic_now env s
      in if deadline - now \<le> 0 then (False, s1)
         else (case timeout_pop env s1 of
             (None, s2) \<Rightarrow> (False, s2)
           | (Some item, s2) \<Rightarrow>
               if flushing s2 then (False, s2)
               else if item = Flush_sentinel then await_loop env fuel deadline s2
               else (True, set_queue (item # queue_of s2) s2)))"

definition await_first_frame :: "uvc_env \<Rightarrow> nat \<Rightarrow> int \<Rightarrow> elem \<Rightarrow> bool \<times> elem" where
  "await_first_frame env fuel wait_us s =
     (let (now, s1) = monotonic_now env s in await_loop env fuel (now + wait_us) s1)"

fun settle_loop ::
  "uvc_env \<Rightarrow> nat \<Rightarrow> nat \<Rightarrow> selector \<Rightarrow> int \<Rightarrow> int \<Rightarrow> elem \<Rightarrow> bool \<times> elem" where
  \<comment> \<open>the loop's fuel, the fuel of the inner loops, then \<open>retry_ms\<close> as an integer\<close>
  "settle_loop env 0 inner sel deadline retry_ms s = (False, s\<lparr>stuck := True\<rparr>)"
| "settle_loop env (Suc fuel) inner sel deadline retry_ms s =
     (if flushing s then (False, s)
      else
        let (now, s1) = monotonic_now env s
        in if now \<ge> deadline then (False, s1)
           else (case reopen_once env inner sel deadline s1 of
               (False, s2) \<Rightarrow>
                 (case interruptible_wait env (retry_ms * G_TIME_SPAN_MILLISECOND) s2 of
                    (False, s3) \<Rightarrow> (False, s3)
                  | (True, s3) \<Rightarrow>
                      settle_loop env fuel inner sel deadline (min (retry_ms * 2) 200) s3)
             | (True, s2) \<Rightarrow>
                 let (now2, s3) = monotonic_now env s2;
                     proof_us = min (deadline - now2) TIMEOUT_DURATION;
                     (got, s4) = (if proof_us > 0 then await_first_frame env inner proof_us s3
                                  else (False, s3))
                 in if got then (True, s4)
                    else settle_loop env fuel inner sel deadline retry_ms
                           (drain_queue (teardown_handle s4))))"

definition settle_until_frame :: "uvc_env \<Rightarrow> nat \<Rightarrow> selector \<Rightarrow> int \<Rightarrow> elem \<Rightarrow> bool \<times> elem" where
  "settle_until_frame env fuel sel deadline s = settle_loop env fuel fuel sel deadline 25 s"

subsection \<open>The port reset and the deep rung\<close>

definition LIBUSB_SUCCESS :: int where "LIBUSB_SUCCESS = 0"
definition LIBUSB_ERROR_NOT_FOUND :: int where "LIBUSB_ERROR_NOT_FOUND = -5"

definition reset_silent_device :: "uvc_env \<Rightarrow> elem \<Rightarrow> bool \<times> elem" where
  "reset_silent_device env s =
     (if uvc_devh s = None then (False, s)
      else if \<not> env_usb_handle env (calls s) then (False, s)
      else
        let rc = env_reset env (calls s); s1 = log_call (Ev_reset (uvc_devh s)) s
        in (rc = LIBUSB_SUCCESS \<or> rc = LIBUSB_ERROR_NOT_FOUND, s1))"

definition capture_recovery_target :: "uvc_env \<Rightarrow> elem \<Rightarrow> elem" where
  "capture_recovery_target env s =
     (let s0 = s\<lparr>target := usb_recovery_target_clear (target s)\<rparr>
      in case uvc_dev s0 of
           None \<Rightarrow> s0
         | Some d \<Rightarrow>
             s0\<lparr>target := snd (usb_recovery_target_capture (env_sysfs env) (sys_history s0)
                  (Some ''/sys'') (dev_bus d) (dev_address d))\<rparr>)"

definition deep_recovery :: "uvc_env \<Rightarrow> elem \<Rightarrow> bool \<times> elem" where
  "deep_recovery env s =
     (if \<not> deep_port_recovery s \<or> deep_recovery_used s then (False, s)
      else
        let (out, h) = usb_deep_recovery_run (env_sysfs env) (Some (target s))
                         DEEP_RECOVERY_PORT_HOLD_MS (sys_history s)
        in (out = DEVICE_REPROBED \<or> out = PORT_CYCLED,
            s\<lparr>deep_recovery_used := True, sys_history := h\<rparr>))"

definition reinit_context :: "uvc_env \<Rightarrow> elem \<Rightarrow> bool \<times> elem" where
  \<comment> \<open>\<open>uvc_exit\<close>, \<open>uvc_init\<close>\<close>
  "reinit_context env s =
     (let s1 = (log_call (Ev_exit (uvc_ctx s)) s)\<lparr>uvc_ctx := None\<rparr>;
          c = env_init env (calls s1);
          s2 = (log_call (Ev_init c) s1)\<lparr>uvc_ctx := c\<rparr>
      in (c \<noteq> None, s2))"

definition settle_deadline :: "uvc_env \<Rightarrow> u32 \<Rightarrow> elem \<Rightarrow> int \<times> elem" where
  "settle_deadline env budget_ms s =
     (let (now, s1) = monotonic_now env s in (now + uint budget_ms * G_TIME_SPAN_MILLISECOND, s1))"

definition escalate :: "uvc_env \<Rightarrow> nat \<Rightarrow> selector \<Rightarrow> u32 \<Rightarrow> elem \<Rightarrow> bool \<times> elem" where
  \<comment> \<open>the rung below a reset that did not take\<close>
  "escalate env fuel sel budget_ms s =
     (if flushing s then (False, s)
      else (case deep_recovery env s of
          (False, s1) \<Rightarrow> (False, s1)
        | (True, s1) \<Rightarrow>
            (case reinit_context env s1 of
               (False, s2) \<Rightarrow> (False, s2)
             | (True, s2) \<Rightarrow>
                 let (second_deadline, s3) = settle_deadline env budget_ms s2
                 in settle_until_frame env fuel sel second_deadline s3)))"

definition recover_wedged_device :: "uvc_env \<Rightarrow> nat \<Rightarrow> elem \<Rightarrow> bool \<times> elem" where
  "recover_wedged_device env fuel s =
     (case parse_selector (index (media s)) of
        Inl err \<Rightarrow> (False, s)
      | Inr sel \<Rightarrow>
          (case reset_silent_device env (capture_recovery_target env s) of
             (False, s1) \<Rightarrow> (False, s1)
           | (True, s1) \<Rightarrow>
               (let budget_ms = reset_settle_max_ms s1;
                    (deadline, s2) = settle_deadline env budget_ms s1;
                    s3 = drain_queue (teardown_handle s2)
                in case reinit_context env s3 of
                     (False, s4) \<Rightarrow> (False, s4)
                   | (True, s4) \<Rightarrow>
                       (case settle_until_frame env fuel sel deadline s4 of
                          (True, s5) \<Rightarrow> (True, s5)
                        | (False, s5) \<Rightarrow> escalate env fuel sel budget_ms s5))))"

end
