(* ===== verification/Lifecycle.thy ===== *)
theory Lifecycle
  imports Recovery
begin

text \<open>
  The life of the element: \<open>start\<close>, \<open>stop\<close>, \<open>create\<close> and \<open>finalize\<close>. \<open>create\<close> returns a flow
  and, with \<open>GST_FLOW_OK\<close>, the queue item it hands on.
\<close>

subsection \<open>Stopping\<close>

definition stop_control :: "elem \<Rightarrow> elem" where
  \<comment> \<open>join the control thread, then unbind\<close>
  "stop_control s =
     (let s1 = (if control_running s then s\<lparr>control_running := False, control_thread_alive := False\<rparr>
                else s)
      in s1\<lparr>sock_part := control_socket_unbind (sock_part s1)\<rparr>)"

definition unref_all :: "elem \<Rightarrow> elem" where
  \<comment> \<open>pops every item and hands it to \<open>gst_buffer_unref\<close>\<close>
  "unref_all s =
     set_queue [] (s\<lparr>invalid_unref := invalid_unref s \<or> Flush_sentinel \<in> set (queue_of s)\<rparr>)"

definition src_stop :: "elem \<Rightarrow> elem" where
  "src_stop s =
     (let s1 = stop_control s;
          s2 = s1\<lparr>target := usb_recovery_target_clear (target s1)\<rparr>;
          s3 = (if streaming s2 \<and> uvc_devh s2 \<noteq> None
                then (log_call (Ev_stop (uvc_devh s2)) s2)\<lparr>streaming := False\<rparr> else s2);
          s4 = unref_all s3;
          s5 = (if uvc_devh s4 \<noteq> None
                then (log_call (Ev_close (uvc_devh s4)) s4)\<lparr>uvc_devh := None\<rparr> else s4);
          s6 = (if uvc_dev s5 \<noteq> None
                then (log_call (Ev_unref (uvc_dev s5)) s5)\<lparr>uvc_dev := None\<rparr> else s5)
      in if uvc_ctx s6 \<noteq> None
         then (log_call (Ev_exit (uvc_ctx s6)) s6)\<lparr>uvc_ctx := None\<rparr> else s6)"

definition src_finalize :: "elem \<Rightarrow> elem" where
  "src_finalize s =
     (let s1 = src_stop s
      in unref_all (s1\<lparr>media := (media s1)\<lparr>index := None\<rparr>, deliverable_caps := None,
           sock_part := (sock_part s1)\<lparr>control_socket_path := None\<rparr>\<rparr>))"

subsection \<open>Starting\<close>

definition reset_session :: "elem \<Rightarrow> elem" where
  "reset_session s =
     s\<lparr>media := (media s)\<lparr>had_idr := False, send_sps_pps := False, frame_offset := 0,
                 prev_pts := G_MAXUINT64, base_time := G_MAXUINT64\<rparr>,
       consecutive_timeouts := 0, reset_recovery_used := False, frames_since_reset := 0,
       deep_recovery_used := False, target := usb_recovery_target_clear (target s)\<rparr>"

definition element_error :: "resource_error \<Rightarrow> string \<Rightarrow> elem \<Rightarrow> elem" where
  "element_error c what s = s\<lparr>messages := messages s @ [\<lparr>code = c, about = what\<rparr>]\<rparr>"

definition drop_context :: "elem \<Rightarrow> elem" where
  "drop_context s = (log_call (Ev_exit (uvc_ctx s)) s)\<lparr>uvc_ctx := None\<rparr>"

definition start_control :: "uvc_env \<Rightarrow> elem \<Rightarrow> elem" where
  "start_control env s =
     (if \<not> control_socket_enabled s then s
      else (case control_socket_bind (env_sock env) (sock_part s) of
          (True, k) \<Rightarrow> s\<lparr>sock_part := k, control_running := True, control_thread_alive := True\<rparr>
        | (False, k) \<Rightarrow> s\<lparr>sock_part := k\<rparr>))"

definition src_start :: "uvc_env \<Rightarrow> nat \<Rightarrow> elem \<Rightarrow> bool \<times> elem" where
  "src_start env fuel s =
     (let forced_cleanup = (uvc_ctx s \<noteq> None \<or> uvc_devh s \<noteq> None);
          s1 = reset_session (if forced_cleanup then src_stop s else s)
      in case parse_selector (index (media s1)) of
           Inl err \<Rightarrow> (False, element_error RESOURCE_SETTINGS ''Invalid device index'' s1)
         | Inr sel \<Rightarrow>
             (case env_init env (calls s1) of
                None \<Rightarrow> (False, log_call (Ev_init None) s1)
              | Some c \<Rightarrow>
                  (let s2 = (log_call (Ev_init (Some c)) s1)\<lparr>uvc_ctx := Some c\<rparr>;
                       (deadline, s3) = (if forced_cleanup
                         then settle_deadline env (reset_settle_max_ms s2) s2 else (0, s2))
                   in case resolve_in env fuel sel deadline s3 of
                        (None, enum_failed, s4) \<Rightarrow>
                          (False, drop_context (element_error RESOURCE_NOT_FOUND
                             (if enum_failed then ''No UVC devices found''
                              else ''No UVC device matching'') s4))
                      | (Some (ordinal, d), _, s4) \<Rightarrow>
                          (let s5 = s4\<lparr>uvc_dev := Some d\<rparr>
                           in case env_open env (calls s5) d of
                                Inl e \<Rightarrow>
                                  (let s6 = element_error RESOURCE_OPEN_READ_WRITE
                                         ''Unable to open UVC device'' (log_call (Ev_open d None) s5);
                                       s7 = (log_call (Ev_unref (uvc_dev s6)) s6)\<lparr>uvc_dev := None\<rparr>
                                   in (False, drop_context s7))
                              | Inr h \<Rightarrow>
                                  (let s6 = (log_call (Ev_open d (Some h)) s5)\<lparr>uvc_devh := Some h\<rparr>;
                                       p = ptz_probe_capabilities (env_camera env)
                                             ((ptz_part s6)\<lparr>have_devh := True\<rparr>)
                                   in (True, start_control env (s6\<lparr>ptz_part := p\<rparr>)))))))"

subsection \<open>Creating a buffer\<close>

datatype flow = FLOW_OK queue_item | FLOW_FLUSHING | FLOW_ERROR

definition handle_silence :: "uvc_env \<Rightarrow> nat \<Rightarrow> elem \<Rightarrow> bool \<times> elem" where
  \<comment> \<open>five timeouts in a row: whether the stream is running again\<close>
  "handle_silence env fuel s =
     (if reconnect_enabled s then reconnect env fuel s
      else if reset_recovery_used s then (False, s)
      else if \<not> auto_port_reset s then (False, s)
      else recover_wedged_device env fuel
             (s\<lparr>reset_recovery_used := True, frames_since_reset := 0\<rparr>))"

definition note_frame :: "elem \<Rightarrow> elem" where
  "note_frame s =
     (let s1 = s\<lparr>consecutive_timeouts := 0\<rparr>
      in if reset_recovery_used s1
         then (let n = frames_since_reset s1 + 1; s2 = s1\<lparr>frames_since_reset := n\<rparr>
               in if n \<ge> reset_rearm_frames s2 then s2\<lparr>reset_recovery_used := False\<rparr> else s2)
         else s1)"

fun create_loop :: "uvc_env \<Rightarrow> nat \<Rightarrow> nat \<Rightarrow> elem \<Rightarrow> flow \<times> elem" where
  "create_loop env 0 inner s = (FLOW_ERROR, s\<lparr>stuck := True\<rparr>)"
| "create_loop env (Suc fuel) inner s =
     (case timeout_pop env s of
        (item, s1) \<Rightarrow>
          if flushing s1 then (FLOW_FLUSHING, s1)
          else (case item of
              None \<Rightarrow>
                (let s2 = s1\<lparr>consecutive_timeouts := consecutive_timeouts s1 + 1\<rparr>
                 in if consecutive_timeouts s2 < DISCONNECT_TIMEOUT_COUNT
                    then create_loop env fuel inner s2
                    else (case handle_silence env inner s2 of
                        (True, s3) \<Rightarrow>
                          create_loop env fuel inner (s3\<lparr>consecutive_timeouts := 0\<rparr>)
                      | (False, s3) \<Rightarrow>
                          if flushing s3 then (FLOW_FLUSHING, s3)
                          else (FLOW_ERROR,
                                s3\<lparr>messages := post_disconnect_error (messages s3)\<rparr>)))
            | Some Flush_sentinel \<Rightarrow>
                create_loop env fuel inner (s1\<lparr>consecutive_timeouts := 0\<rparr>)
            | Some (Frame b) \<Rightarrow> (FLOW_OK (Frame b), note_frame s1)))"

definition begin_streaming :: "uvc_env \<Rightarrow> elem \<Rightarrow> uvc_error \<times> elem" where
  \<comment> \<open>the first part of \<open>create\<close>, for a source that is not streaming yet\<close>
  "begin_streaming env s =
     (let s1 = apply_transfer_buffers env ((rebaseline s)\<lparr>streaming := True\<rparr>);
          (res, s2) = start_streaming env s1
      in if res = UVC_SUCCESS then (res, s2)
         else
           let (clean, s3) = (if max_payload s2 > 0
                 then negotiate_clean_payload env (negotiated_width (media s2))
                        (negotiated_height (media s2)) (negotiated_framerate s2) s2
                 else (False, s2));
               (res2, s4) = (if clean then start_streaming env s3 else (res, s3))
           in if res2 = UVC_SUCCESS then (res2, s4)
              else (res2, s4\<lparr>streaming := False,
                     messages := post_error res2 (Some ''starting UVC stream'') (messages s4)\<rparr>))"

definition src_create :: "uvc_env \<Rightarrow> nat \<Rightarrow> elem \<Rightarrow> flow \<times> elem" where
  "src_create env fuel s =
     (if streaming s then create_loop env fuel fuel s
      else (case begin_streaming env s of
          (res, s1) \<Rightarrow> if res = UVC_SUCCESS then create_loop env fuel fuel s1 else (FLOW_ERROR, s1)))"

end
