(* ===== verification/HandleProtocol.thy ===== *)
theory HandleProtocol
  imports Lifecycle Delivery
begin

text \<open>
  The protocol between the element and libuvc. A monitor replays the calls the element made and
  accepts only a correct sequence: contexts, device references and handles are acquired one at a
  time, used while they are held, released once and in order, a stream is started once and
  stopped before its handle is closed, and no call is made on \<open>NULL\<close>. \<open>wired\<close> says that the
  monitor accepts what was called so far and agrees with the element's own pointers.
\<close>

subsection \<open>The monitor\<close>

record usb_view =
  v_ctx :: "nat option"
  v_dev :: "uvc_device option"
  v_devh :: "nat option"
  v_running :: bool
  v_ok :: bool

definition idle_view :: usb_view where
  "idle_view = \<lparr>v_ctx = None, v_dev = None, v_devh = None, v_running = False, v_ok = True\<rparr>"

definition demand :: "bool \<Rightarrow> usb_view \<Rightarrow> usb_view" where
  "demand b v = v\<lparr>v_ok := (v_ok v \<and> b)\<rparr>"

definition on_handle :: "nat option \<Rightarrow> usb_view \<Rightarrow> usb_view" where
  "on_handle h v = demand (h \<noteq> None \<and> h = v_devh v) v"

fun observe :: "uvc_event \<Rightarrow> usb_view \<Rightarrow> usb_view" where
  "observe (Ev_init c) v = (demand (v_ctx v = None) v)\<lparr>v_ctx := c\<rparr>"
| "observe (Ev_exit c) v =
     (demand (c \<noteq> None \<and> c = v_ctx v \<and> v_dev v = None \<and> v_devh v = None) v)\<lparr>v_ctx := None\<rparr>"
| "observe (Ev_resolved d) v = (demand (v_ctx v \<noteq> None \<and> v_dev v = None) v)\<lparr>v_dev := d\<rparr>"
| "observe (Ev_unref d) v =
     (demand (d \<noteq> None \<and> d = v_dev v \<and> v_devh v = None) v)\<lparr>v_dev := None\<rparr>"
| "observe (Ev_open d h) v = (demand (v_dev v = Some d \<and> v_devh v = None) v)\<lparr>v_devh := h\<rparr>"
| "observe (Ev_close h) v = (demand (\<not> v_running v) (on_handle h v))\<lparr>v_devh := None\<rparr>"
| "observe (Ev_get_ctrl h) v = on_handle h v"
| "observe (Ev_probe h) v = on_handle h v"
| "observe (Ev_set_buffers h n) v = on_handle h v"
| "observe (Ev_start h ok) v =
     (demand (\<not> v_running v) (on_handle h v))\<lparr>v_running := ok\<rparr>"
| "observe (Ev_stop h) v = (on_handle h v)\<lparr>v_running := False\<rparr>"
| "observe (Ev_reset h) v = on_handle h v"
| "observe Ev_now v = v"
| "observe (Ev_wait t) v = v"
| "observe Ev_pop v = v"

definition view_of :: "uvc_history \<Rightarrow> usb_view" where
  "view_of h = fold observe h idle_view"

definition sees :: "elem \<Rightarrow> nat option \<Rightarrow> uvc_device option \<Rightarrow> nat option \<Rightarrow> bool \<Rightarrow> bool" where
  "sees s c d h r \<longleftrightarrow>
     view_of (calls s) = \<lparr>v_ctx = c, v_dev = d, v_devh = h, v_running = r, v_ok = True\<rparr>"

definition wired :: "elem \<Rightarrow> bool" where
  "wired s \<longleftrightarrow> sees s (uvc_ctx s) (uvc_dev s) (uvc_devh s) (streaming s) \<and>
     (uvc_devh s \<noteq> None \<longrightarrow> uvc_dev s \<noteq> None) \<and> (uvc_dev s \<noteq> None \<longrightarrow> uvc_ctx s \<noteq> None) \<and>
     (streaming s \<longrightarrow> uvc_devh s \<noteq> None)"

definition detached :: "elem \<Rightarrow> bool" where
  \<comment> \<open>a context but no device\<close>
  "detached s \<longleftrightarrow> wired s \<and> uvc_ctx s \<noteq> None \<and> uvc_dev s = None \<and> uvc_devh s = None"

definition attached :: "elem \<Rightarrow> bool" where
  "attached s \<longleftrightarrow> wired s \<and> uvc_devh s \<noteq> None"

lemma view_append [simp]: "view_of (h @ es) = fold observe es (view_of h)"
  by (simp add: view_of_def)

lemmas protocol_defs = sees_def wired_def demand_def on_handle_def

subsection \<open>Steps that keep the device\<close>

definition same_device :: "elem \<Rightarrow> elem \<Rightarrow> bool" where
  "same_device s s' \<longleftrightarrow> uvc_ctx s' = uvc_ctx s \<and> uvc_dev s' = uvc_dev s \<and>
     uvc_devh s' = uvc_devh s \<and> streaming s' = streaming s \<and> view_of (calls s') = view_of (calls s)"

lemma same_device_refl [simp]: "same_device s s"
  by (simp add: same_device_def)

lemma same_device_trans: "same_device s t \<Longrightarrow> same_device t u \<Longrightarrow> same_device s u"
  by (simp add: same_device_def)

lemma same_device_wired: "same_device s s' \<Longrightarrow> wired s' = wired s"
  by (simp add: same_device_def wired_def sees_def)

lemma same_device_attached: "same_device s s' \<Longrightarrow> attached s' = attached s"
  by (simp add: attached_def same_device_wired) (simp add: same_device_def)

lemma same_device_detached: "same_device s s' \<Longrightarrow> detached s' = detached s"
  by (simp add: detached_def same_device_wired) (simp add: same_device_def)

lemma same_device_queue [simp]: "same_device s (set_queue q s)"
  by (simp add: same_device_def set_queue_def)

lemma same_device_unlock [simp]: "same_device s (src_unlock s)"
  by (simp add: same_device_def src_unlock_def set_queue_def)

lemma same_device_interfere [simp]: "same_device s (interfere env s)"
  by (simp add: interfere_def Let_def same_device_def src_unlock_def set_queue_def)

lemma same_device_now: "monotonic_now env s = (now, s') \<Longrightarrow> same_device s s'"
  by (auto simp: monotonic_now_def same_device_def log_call_def)

lemma same_device_wait: "interruptible_wait env us s = (b, s') \<Longrightarrow> same_device s s'"
  by (auto simp: interruptible_wait_def Let_def same_device_def log_call_def interfere_def
      src_unlock_def set_queue_def split: if_splits)

lemma same_device_pop: "timeout_pop env s = (i, s') \<Longrightarrow> same_device s s'"
  by (auto simp: timeout_pop_def Let_def same_device_def log_call_def interfere_def
      src_unlock_def set_queue_def split: if_splits list.splits)

lemma same_device_check: "check_deadline env d s = (b, s') \<Longrightarrow> same_device s s'"
  by (auto simp: check_deadline_def split: if_splits prod.splits dest: same_device_now)

lemma same_device_deadline: "settle_deadline env ms s = (d, s') \<Longrightarrow> same_device s s'"
  by (auto simp: settle_deadline_def split: prod.splits dest: same_device_now)

lemma same_device_rebaseline [simp]: "same_device s (rebaseline s)"
  by (simp add: rebaseline_def same_device_def)

lemma same_device_rearm [simp]: "same_device s (rearm_stream s)"
  by (simp add: rearm_stream_def rebaseline_def same_device_def)

lemma same_device_drain [simp]: "same_device s (drain_queue s)"
  by (simp add: drain_queue_def)

lemma same_device_await_loop: "await_loop env fuel d s = (b, s') \<Longrightarrow> same_device s s'"
proof (induction fuel arbitrary: s)
  case 0
  then show ?case by (auto simp: same_device_def)
next
  case (Suc fuel)
  obtain now s1 where n: "monotonic_now env s = (now, s1)" by fastforce
  obtain i s2 where p: "timeout_pop env s1 = (i, s2)" by fastforce
  have s2: "same_device s s2" "same_device s s1"
    using same_device_now [OF n] same_device_pop [OF p] same_device_trans by blast+
  with Suc n p show ?case
    by (auto split: if_splits option.splits intro: same_device_trans [OF s2(1)])
qed

lemma same_device_await: "await_first_frame env fuel us s = (b, s') \<Longrightarrow> same_device s s'"
  by (auto simp: await_first_frame_def split: prod.splits
      dest!: same_device_now same_device_await_loop intro: same_device_trans)

subsection \<open>Steps on an open handle\<close>

lemma get_stream_ctrl_steps:
  assumes "get_stream_ctrl env w h f s = (r, s')"
  shows "calls s' = calls s @ [Ev_get_ctrl (uvc_devh s)]" "uvc_ctx s' = uvc_ctx s"
    "uvc_dev s' = uvc_dev s" "uvc_devh s' = uvc_devh s" "streaming s' = streaming s"
  using assms by (auto simp: get_stream_ctrl_def log_call_def split: prod.splits)

lemma get_stream_ctrl_same:
  "get_stream_ctrl env w h f s = (r, s') \<Longrightarrow> attached s \<Longrightarrow> same_device s s'"
  using get_stream_ctrl_steps [of env w h f s r s']
  by (auto simp: same_device_def attached_def protocol_defs)

lemma clean_payload_same:
  "negotiate_clean_payload env w h f s = (r, s') \<Longrightarrow> attached s \<Longrightarrow> same_device s s'"
  by (auto simp: negotiate_clean_payload_def split: prod.splits if_splits
      dest!: get_stream_ctrl_same) (simp_all add: same_device_def)

lemma apply_max_payload_same:
  assumes "attached s"
  shows "same_device s (apply_max_payload env w h f s)"
proof (cases "max_payload s = 0")
  case True
  then show ?thesis by (simp add: apply_max_payload_def same_device_def)
next
  case False
  define cl where "cl = clamp_u32 MAX_PAYLOAD_MIN_LEGAL MAX_PAYLOAD_MAX (max_payload s)"
  obtain res com where e: "env_probe env (calls s) (uvc_devh s) cl = (res, com)" by fastforce
  define s1 where "s1 = (log_call (Ev_probe (uvc_devh s)) s)\<lparr>ctrl_payload := com\<rparr>"
  have 1: "same_device s s1"
    using assms by (auto simp: s1_def same_device_def log_call_def attached_def protocol_defs)
  with assms have 2: "attached s1" by (simp add: same_device_attached)
  obtain b s2 where n: "negotiate_clean_payload env w h f s1 = (b, s2)" by fastforce
  have "same_device s s2" "same_device s (s1\<lparr>max_payload_effective := com\<rparr>)"
    using 1 clean_payload_same [OF n 2] same_device_trans by (auto simp: same_device_def)
  then show ?thesis using False e n
    by (auto simp add: apply_max_payload_def Let_def cl_def s1_def)
qed

lemma apply_transfer_buffers_same:
  "attached s \<Longrightarrow> same_device s (apply_transfer_buffers env s)"
  by (auto simp: apply_transfer_buffers_def Let_def same_device_def log_call_def attached_def
      protocol_defs)

lemma start_streaming_steps:
  assumes "start_streaming env s = (r, s')"
  shows "calls s' = calls s @ [Ev_start (uvc_devh s) (r = UVC_SUCCESS)]"
    "uvc_ctx s' = uvc_ctx s" "uvc_dev s' = uvc_dev s" "uvc_devh s' = uvc_devh s"
    "streaming s' = streaming s"
  using assms by (auto simp: start_streaming_def log_call_def Let_def)

lemma teardown_detaches:
  "wired s \<Longrightarrow> uvc_ctx s \<noteq> None \<Longrightarrow> detached (teardown_handle s)"
  by (auto simp: detached_def teardown_handle_def Let_def log_call_def protocol_defs)

lemma close_and_unref_detaches:
  "attached s \<Longrightarrow> \<not> streaming s \<Longrightarrow> detached (close_and_unref s)"
  by (auto simp: detached_def attached_def close_and_unref_def log_call_def protocol_defs)

lemma reinit_detaches:
  assumes "reinit_context env s = (b, s')" "detached s"
  shows "wired s' \<and> (b \<longrightarrow> detached s')"
  using assms by (auto simp: reinit_context_def Let_def detached_def log_call_def protocol_defs)

subsection \<open>Reopening\<close>

lemma resolve_in_steps:
  assumes "resolve_in env fuel sel deadline s = (r, ef, s')"
  shows "uvc_ctx s' = uvc_ctx s \<and> uvc_dev s' = uvc_dev s \<and> uvc_devh s' = uvc_devh s \<and>
    streaming s' = streaming s \<and>
    (calls s' = calls s @ [Ev_resolved (map_option snd r)] \<or> calls s' = calls s \<and> r = None)"
  using assms
  by (auto simp: resolve_in_def Let_def log_call_def src_unlock_def set_queue_def
      split: option.splits if_splits)

lemma resolve_detached:
  assumes "resolve_in env fuel sel deadline s = (r, ef, s')" "detached s"
  shows "uvc_ctx s' = uvc_ctx s \<and> uvc_dev s' = None \<and> uvc_devh s' = None \<and> \<not> streaming s' \<and>
    sees s' (uvc_ctx s) (map_option snd r) None False"
  using resolve_in_steps [OF assms(1)] assms(2) by (auto simp: detached_def protocol_defs)

definition opened :: "uvc_device \<Rightarrow> nat \<Rightarrow> elem \<Rightarrow> elem" where
  "opened d h s = (log_call (Ev_open d (Some h)) s)\<lparr>uvc_devh := Some h, uvc_dev := Some d\<rparr>"

lemma reopen_once_cases:
  assumes "reopen_once env fuel sel deadline s = (b, s')"
  obtains
    (unresolved) ef where "resolve_in env fuel sel deadline s = (None, ef, s')" "\<not> b"
  | (late) i d ef s1 s2 where "resolve_in env fuel sel deadline s = (Some (i, d), ef, s1)"
      "check_deadline env deadline s1 = (True, s2)" "s' = log_call (Ev_unref (Some d)) s2" "\<not> b"
  | (refused) i d ef s1 s2 where "resolve_in env fuel sel deadline s = (Some (i, d), ef, s1)"
      "check_deadline env deadline s1 = (False, s2)"
      "s' = log_call (Ev_unref (Some d)) ((log_call (Ev_open d None) s2)\<lparr>uvc_devh := None\<rparr>)" "\<not> b"
  | (gave_up) i d ef s1 s2 h t where "resolve_in env fuel sel deadline s = (Some (i, d), ef, s1)"
      "check_deadline env deadline s1 = (False, s2)"
      "attached (opened d h s2) \<longrightarrow> same_device (opened d h s2) t \<or>
         (\<exists>t0. same_device (opened d h s2) t0 \<and> (\<exists>r. r \<noteq> UVC_SUCCESS \<and>
            start_streaming env t0 = (r, t)))"
      "s' = close_and_unref t" "\<not> b"
  | (streams) i d ef s1 s2 h t0 t where "resolve_in env fuel sel deadline s = (Some (i, d), ef, s1)"
      "check_deadline env deadline s1 = (False, s2)"
      "attached (opened d h s2) \<longrightarrow> same_device (opened d h s2) t0"
      "start_streaming env t0 = (UVC_SUCCESS, t)" "s' = t\<lparr>streaming := True\<rparr>" "b"
proof -
  obtain r ef s1 where r: "resolve_in env fuel sel deadline s = (r, ef, s1)" by (metis prod_cases3)
  show thesis
  proof (cases r)
    case None
    then show thesis using assms r unresolved by (simp add: reopen_once_def)
  next
    case (Some p)
    obtain i d where p: "p = (i, d)" by fastforce
    note r = r [unfolded Some p]
    obtain l s2 where l: "check_deadline env deadline s1 = (l, s2)" by fastforce
    show thesis
    proof (cases l)
      case True
      then show thesis using assms r l late by (simp add: reopen_once_def)
    next
      case False
      then have "l = False" by simp
      note l = l [unfolded this]
      show thesis
      proof (cases "env_open env (calls s2) d")
        case (Inl e)
        then show thesis using assms r l refused by (simp add: reopen_once_def)
      next
        case (Inr h)
        define s3 where "s3 = opened d h s2"
        define m where "m = media s3"
        define prep where "prep = (\<lambda>s5. apply_transfer_buffers env (rearm_stream
            (apply_max_payload env (negotiated_width m) (negotiated_height m)
               (negotiated_framerate s3) s5)))"
        have un: "reopen_once env fuel sel deadline s =
            (case check_deadline env deadline s3 of (l2, s4) \<Rightarrow>
              (case (if l2 then (UVC_SUCCESS, s4)
                     else get_stream_ctrl env (negotiated_width m) (negotiated_height m)
                            (negotiated_framerate s3) s4) of (res, s5) \<Rightarrow>
                 if l2 \<or> res \<noteq> UVC_SUCCESS then (False, close_and_unref s5)
                 else (case check_deadline env deadline (prep s5) of (l3, s8) \<Rightarrow>
                   (case (if l3 then (UVC_SUCCESS, s8) else start_streaming env s8) of (res2, s9) \<Rightarrow>
                      if l3 \<or> res2 \<noteq> UVC_SUCCESS then (False, close_and_unref s9)
                      else (True, s9\<lparr>streaming := True\<rparr>)))))"
          unfolding reopen_once_def r l Inr prod.case option.case sum.case bool.case Let_def
            s3_def m_def opened_def prep_def ..
        obtain l2 s4 where l2: "check_deadline env deadline s3 = (l2, s4)" by fastforce
        have s4: "same_device s3 s4" using same_device_check [OF l2] .
        obtain res s5 where g: "(if l2 then (UVC_SUCCESS, s4)
            else get_stream_ctrl env (negotiated_width m) (negotiated_height m)
                   (negotiated_framerate s3) s4) = (res, s5)" by fastforce
        have s5: "same_device s3 s5" if "attached s3"
          using g s4 get_stream_ctrl_same same_device_attached [OF s4] that
          by (auto split: if_splits intro: same_device_trans)
        show thesis
        proof (cases "l2 \<or> res \<noteq> UVC_SUCCESS")
          case True
          then have "s' = close_and_unref s5" "\<not> b"
            using assms unfolding un l2 prod.case g by simp_all
          with s5 show thesis by (intro gave_up [OF r l]) (auto simp: s3_def)
        next
          case False
          define s7 where "s7 = prep s5"
          have s7: "same_device s3 s7" if a: "attached s3"
            unfolding s7_def prep_def using same_device_attached [OF s5 [OF a]] a
            by (metis apply_transfer_buffers_same apply_max_payload_same s5 same_device_rearm
                same_device_attached same_device_trans)
          obtain l3 s8 where l3: "check_deadline env deadline s7 = (l3, s8)" by fastforce
          have s8: "same_device s3 s8" if "attached s3"
            using same_device_check [OF l3] s7 [OF that] same_device_trans by blast
          obtain res2 s9 where t: "(if l3 then (UVC_SUCCESS, s8) else start_streaming env s8) =
              (res2, s9)" by fastforce
          have fin: "reopen_once env fuel sel deadline s =
              (if l3 \<or> res2 \<noteq> UVC_SUCCESS then (False, close_and_unref s9)
               else (True, s9\<lparr>streaming := True\<rparr>))"
            unfolding un l2 prod.case g using False
            by (simp add: l3 [unfolded s7_def] t)
          show thesis
          proof (cases "l3 \<or> res2 \<noteq> UVC_SUCCESS")
            case True
            then have "s' = close_and_unref s9" "\<not> b" using assms fin by auto
            moreover have "same_device s3 s9 \<or> (\<exists>t0. same_device s3 t0 \<and>
                (\<exists>r. r \<noteq> UVC_SUCCESS \<and> start_streaming env t0 = (r, s9)))" if "attached s3"
              using True t s8 [OF that] by (auto split: if_splits)
            ultimately show thesis by (intro gave_up [OF r l]) (auto simp: s3_def)
          next
            case False
            then have "s' = s9\<lparr>streaming := True\<rparr>" b "start_streaming env s8 = (UVC_SUCCESS, s9)"
              using assms fin t by auto
            with s8 show thesis by (intro streams [OF r l]) (auto simp: s3_def)
          qed
        qed
      qed
    qed
  qed
qed

lemma opened_attached:
  assumes "resolve_in env fuel sel deadline s = (Some (i, d), ef, s1)" "detached s"
    "check_deadline env deadline s1 = (l, s2)"
  shows "attached (opened d h s2) \<and> \<not> streaming (opened d h s2) \<and> sees s2 (uvc_ctx s) (Some d) None False \<and>
    uvc_ctx s2 = uvc_ctx s \<and> uvc_dev s2 = None \<and> uvc_devh s2 = None \<and> \<not> streaming s2"
  using resolve_detached [OF assms(1,2)] same_device_check [OF assms(3)] assms(2)
  by (auto simp: opened_def attached_def log_call_def same_device_def detached_def protocol_defs)

lemma reopen_once_protocol:
  assumes "reopen_once env fuel sel deadline s = (b, s')" "detached s"
  shows "if b then attached s' \<and> streaming s' else detached s'"
  using assms(1)
proof (cases rule: reopen_once_cases)
  case (unresolved ef)
  then show ?thesis using resolve_detached [OF unresolved(1) assms(2)] assms(2)
    by (auto simp: detached_def protocol_defs)
next
  case (late i d ef s1 s2)
  then show ?thesis using opened_attached [OF late(1) assms(2) late(2)] assms(2)
    by (auto simp: detached_def log_call_def protocol_defs)
next
  case (refused i d ef s1 s2)
  then show ?thesis using opened_attached [OF refused(1) assms(2) refused(2)] assms(2)
    by (auto simp: detached_def log_call_def protocol_defs)
next
  case (gave_up i d ef s1 s2 h t)
  have o: "attached (opened d h s2)" "\<not> streaming (opened d h s2)"
    using opened_attached [OF gave_up(1) assms(2) gave_up(2)] by auto
  have "attached t \<and> \<not> streaming t" if "same_device (opened d h s2) t"
    using o same_device_attached [OF that] that by (auto simp: same_device_def)
  moreover have "attached t \<and> \<not> streaming t"
    if "same_device (opened d h s2) t0" "start_streaming env t0 = (r, t)" "r \<noteq> UVC_SUCCESS" for t0 r
    using o same_device_attached [OF that(1)] that start_streaming_steps [OF that(2)]
    by (auto simp: same_device_def attached_def protocol_defs)
  ultimately have "attached t \<and> \<not> streaming t" using gave_up(3) o by blast
  then show ?thesis using gave_up close_and_unref_detaches by auto
next
  case (streams i d ef s1 s2 h t0 t)
  have o: "attached (opened d h s2)" "\<not> streaming (opened d h s2)"
    using opened_attached [OF streams(1) assms(2) streams(2)] by auto
  then have t0: "same_device (opened d h s2) t0" using streams(3) by simp
  with o have "attached t0 \<and> \<not> streaming t0"
    using same_device_attached [OF t0] by (auto simp: same_device_def)
  then show ?thesis using start_streaming_steps [OF streams(4)] streams(5,6)
    by (auto simp: attached_def protocol_defs)
qed

lemma reconnect_loop_protocol:
  "reconnect_loop env fuel sel attempt n s = (b, s') \<Longrightarrow> detached s \<Longrightarrow>
   if b then attached s' \<and> streaming s' else detached s'"
proof (induction n arbitrary: attempt s)
  case (Suc n)
  obtain w s1 where w: "interruptible_wait env (backoff_wait_us attempt) s = (w, s1)" by fastforce
  have 1: "detached s1" using same_device_detached [OF same_device_wait [OF w]] Suc.prems by simp
  obtain r s2 where r: "reopen_once env fuel sel 0 s1 = (r, s2)" by fastforce
  show ?case
    using Suc.prems Suc.IH [of "attempt + 1" s2] w r 1 reopen_once_protocol [OF r 1]
    by (auto split: bool.splits)
qed simp

lemma wired_states: "wired s \<Longrightarrow> uvc_ctx s \<noteq> None \<Longrightarrow> uvc_devh s = None \<Longrightarrow> uvc_dev s = None \<Longrightarrow> detached s"
  by (simp add: detached_def)

lemma reconnect_protocol:
  assumes "reconnect_bounded env fuel n s = (b, s')" "attached s"
  shows "if b then attached s' \<and> streaming s' else wired s'"
proof (cases "parse_selector (index (media s))")
  case (Inl e)
  then show ?thesis using assms by (auto simp: reconnect_bounded_def attached_def)
next
  case (Inr sel)
  have "uvc_ctx s \<noteq> None" "wired s" using assms(2) by (auto simp: attached_def wired_def)
  then have "detached (drain_queue (teardown_handle s))"
    using same_device_detached [OF same_device_drain] teardown_detaches by blast
  moreover have "reconnect_loop env fuel sel 0 n (drain_queue (teardown_handle s)) = (b, s')"
    using assms(1) Inr by (simp add: reconnect_bounded_def)
  ultimately have "if b then attached s' \<and> streaming s' else detached s'"
    using reconnect_loop_protocol by blast
  then show ?thesis by (auto simp: detached_def split: if_splits)
qed

lemma settle_loop_protocol:
  "settle_loop env fuel inner sel deadline ms s = (b, s') \<Longrightarrow> detached s \<Longrightarrow>
   if b then attached s' \<and> streaming s' else detached s'"
proof (induction fuel arbitrary: ms s)
  case 0
  then show ?case by (auto simp: detached_def protocol_defs)
next
  case (Suc fuel)
  obtain now s1 where n: "monotonic_now env s = (now, s1)" by fastforce
  have d1: "detached s1" using same_device_detached [OF same_device_now [OF n]] Suc.prems by simp
  obtain r s2 where r: "reopen_once env inner sel deadline s1 = (r, s2)" by fastforce
  note r2 = reopen_once_protocol [OF r d1]
  show ?case
  proof (cases "flushing s \<or> now \<ge> deadline")
    case True
    then show ?thesis using Suc.prems n d1 by (auto split: if_splits)
  next
    case False
    show ?thesis
    proof (cases r)
      case True
      obtain now2 s3 where n2: "monotonic_now env s2 = (now2, s3)" by fastforce
      obtain got s4 where g: "(if min (deadline - now2) TIMEOUT_DURATION > 0
          then await_first_frame env inner (min (deadline - now2) TIMEOUT_DURATION) s3
          else (False, s3)) = (got, s4)" by fastforce
      have s4: "same_device s2 s4"
        using same_device_now [OF n2] g same_device_await
        by (auto split: if_splits intro: same_device_trans)
      then have a: "attached s4" "streaming s4"
        using r2 True same_device_attached [OF s4] by (auto simp: same_device_def)
      have "uvc_ctx s4 \<noteq> None" "wired s4" using a by (auto simp: attached_def wired_def)
      then have "detached (drain_queue (teardown_handle s4))"
        using same_device_detached [OF same_device_drain] teardown_detaches by blast
      then have again: "if b then attached s' \<and> streaming s' else detached s'"
        if "settle_loop env fuel inner sel deadline ms (drain_queue (teardown_handle s4)) = (b, s')"
        using Suc.IH [OF that] by blast
      have "settle_loop env (Suc fuel) inner sel deadline ms s =
          (if got then (True, s4)
           else settle_loop env fuel inner sel deadline ms (drain_queue (teardown_handle s4)))"
        using False n r True n2 g by (simp add: Let_def)
      with Suc.prems(1) a again show ?thesis by (cases got) auto
    next
      case nr: False
      obtain w s3 where w: "interruptible_wait env (ms * G_TIME_SPAN_MILLISECOND) s2 = (w, s3)"
        by fastforce
      have "detached s3"
        using same_device_detached [OF same_device_wait [OF w]] r2 nr by simp
      then show ?thesis using Suc.prems False n r nr w Suc.IH by (auto split: bool.splits)
    qed
  qed
qed

lemma same_device_capture [simp]: "same_device s (capture_recovery_target env s)"
  by (auto simp: capture_recovery_target_def Let_def same_device_def split: option.splits)

lemma same_device_deep: "deep_recovery env s = (b, s') \<Longrightarrow> same_device s s'"
  by (auto simp: deep_recovery_def same_device_def split: if_splits prod.splits)

lemma same_device_reset:
  "reset_silent_device env s = (b, s') \<Longrightarrow> wired s \<Longrightarrow> same_device s s'"
  by (auto simp: reset_silent_device_def Let_def same_device_def log_call_def protocol_defs
      split: if_splits)

lemma escalate_protocol:
  assumes "escalate env fuel sel ms s = (b, s')" "detached s"
  shows "if b then attached s' \<and> streaming s' else wired s'"
proof -
  obtain d s1 where d: "deep_recovery env s = (d, s1)" by fastforce
  have 1: "detached s1" using same_device_detached [OF same_device_deep [OF d]] assms(2) by simp
  obtain c s2 where c: "reinit_context env s1 = (c, s2)" by fastforce
  note 2 = reinit_detaches [OF c 1]
  obtain dl s3 where dl: "settle_deadline env ms s2 = (dl, s3)" by fastforce
  have 3: "c \<Longrightarrow> detached s3" using same_device_detached [OF same_device_deadline [OF dl]] 2 by simp
  show ?thesis
  proof (cases "flushing s \<or> \<not> d \<or> \<not> c")
    case True
    then show ?thesis using assms d c 1 2
      by (auto simp: escalate_def detached_def split: if_splits bool.splits)
  next
    case False
    then have "settle_loop env fuel fuel sel dl 25 s3 = (b, s')"
      using assms(1) d c dl by (simp add: escalate_def settle_until_frame_def)
    from settle_loop_protocol [OF this] 3 False show ?thesis by (auto simp: detached_def)
  qed
qed

lemma recover_protocol:
  assumes "recover_wedged_device env fuel s = (b, s')" "attached s"
  shows "if b then attached s' \<and> streaming s' else wired s'"
proof (cases "parse_selector (index (media s))")
  case (Inl e)
  then show ?thesis using assms by (auto simp: recover_wedged_device_def attached_def)
next
  case (Inr sel)
  define s0 where "s0 = capture_recovery_target env s"
  have 0: "attached s0" unfolding s0_def using same_device_attached [OF same_device_capture] assms(2) by simp
  obtain r s1 where r: "reset_silent_device env s0 = (r, s1)" by fastforce
  have 1: "attached s1" using 0 same_device_attached [OF same_device_reset [OF r]]
    by (auto simp: attached_def)
  define ms where "ms = reset_settle_max_ms s1"
  obtain dl s2 where dl: "settle_deadline env ms s1 = (dl, s2)" by fastforce
  have 2: "attached s2" using same_device_attached [OF same_device_deadline [OF dl]] 1 by simp
  define s3 where "s3 = drain_queue (teardown_handle s2)"
  have "uvc_ctx s2 \<noteq> None" "wired s2" using 2 by (auto simp: attached_def wired_def)
  then have 3: "detached s3" unfolding s3_def
    using same_device_detached [OF same_device_drain] teardown_detaches by blast
  obtain c s4 where c: "reinit_context env s3 = (c, s4)" by fastforce
  note 4 = reinit_detaches [OF c 3]
  obtain f s5 where f: "settle_loop env fuel fuel sel dl 25 s4 = (f, s5)" by fastforce
  have eq: "recover_wedged_device env fuel s =
      (if \<not> r then (False, s1) else if \<not> c then (False, s4) else if f then (True, s5)
       else escalate env fuel sel ms s5)"
    using Inr r dl c f
    by (simp add: recover_wedged_device_def s0_def [symmetric] ms_def [symmetric] s3_def [symmetric]
        Let_def settle_until_frame_def split: bool.splits)
  show ?thesis
    using assms(1) eq 1 4 settle_loop_protocol [OF f] escalate_protocol [of env fuel sel ms s5 b s']
    by (auto simp: attached_def split: if_splits)
qed

subsection \<open>create\<close>

lemma same_device_update [simp]:
  "same_device s (s\<lparr>consecutive_timeouts := n\<rparr>)" "same_device s (s\<lparr>messages := ms\<rparr>)"
  "same_device s (s\<lparr>stuck := b\<rparr>)" "same_device s (s\<lparr>media := m\<rparr>)"
  "same_device s (s\<lparr>reset_recovery_used := b, frames_since_reset := k\<rparr>)"
  by (simp_all add: same_device_def)

lemma same_device_note_frame [simp]: "same_device s (note_frame s)"
  by (simp add: note_frame_def Let_def same_device_def)

lemma handle_silence_protocol:
  assumes "handle_silence env fuel s = (b, s')" "attached s"
  shows "if b then attached s' \<and> streaming s' else wired s'"
proof -
  have "attached (s\<lparr>reset_recovery_used := True, frames_since_reset := 0\<rparr>)"
    using assms(2) same_device_attached [OF same_device_update(5)] by simp
  then show ?thesis
    using assms reconnect_protocol recover_protocol
    by (fastforce simp: handle_silence_def reconnect_def attached_def split: if_splits)
qed

lemma create_loop_step:
  assumes "timeout_pop env s = (item, s1)"
  obtains
    (flush) "flushing s1" "create_loop env (Suc fuel) inner s = (FLOW_FLUSHING, s1)"
  | (silent) "\<not> flushing s1" "item = None"
      "consecutive_timeouts s1 + 1 < DISCONNECT_TIMEOUT_COUNT"
      "create_loop env (Suc fuel) inner s =
         create_loop env fuel inner (s1\<lparr>consecutive_timeouts := consecutive_timeouts s1 + 1\<rparr>)"
  | (recovered) s3 where "\<not> flushing s1" "item = None"
      "DISCONNECT_TIMEOUT_COUNT \<le> consecutive_timeouts s1 + 1"
      "handle_silence env inner (s1\<lparr>consecutive_timeouts := consecutive_timeouts s1 + 1\<rparr>) = (True, s3)"
      "create_loop env (Suc fuel) inner s =
         create_loop env fuel inner (s3\<lparr>consecutive_timeouts := 0\<rparr>)"
  | (lost) s3 where "\<not> flushing s1" "item = None"
      "DISCONNECT_TIMEOUT_COUNT \<le> consecutive_timeouts s1 + 1"
      "handle_silence env inner (s1\<lparr>consecutive_timeouts := consecutive_timeouts s1 + 1\<rparr>) = (False, s3)"
      "create_loop env (Suc fuel) inner s =
         (if flushing s3 then (FLOW_FLUSHING, s3)
          else (FLOW_ERROR, s3\<lparr>messages := post_disconnect_error (messages s3)\<rparr>))"
  | (sentinel) "\<not> flushing s1" "item = Some Flush_sentinel"
      "create_loop env (Suc fuel) inner s = create_loop env fuel inner (s1\<lparr>consecutive_timeouts := 0\<rparr>)"
  | (frame) b where "\<not> flushing s1" "item = Some (Frame b)"
      "create_loop env (Suc fuel) inner s = (FLOW_OK (Frame b), note_frame s1)"
proof (cases item)
  case None
  show thesis
  proof (cases "flushing s1")
    case True
    then show thesis using assms flush by simp
  next
    case False
    obtain b s3 where h: "handle_silence env inner
        (s1\<lparr>consecutive_timeouts := consecutive_timeouts s1 + 1\<rparr>) = (b, s3)" by fastforce
    show thesis
    proof (cases "consecutive_timeouts s1 + 1 < DISCONNECT_TIMEOUT_COUNT")
      case True
      then show thesis using assms None False silent by (simp add: Let_def)
    next
      case nt: False
      show thesis
      proof (cases b)
        case True
        show thesis by (rule recovered) (use assms None False nt h True in \<open>simp_all add: Let_def\<close>)
      next
        case bf: False
        show thesis by (rule lost) (use assms None False nt h bf in \<open>simp_all add: Let_def\<close>)
      qed
    qed
  qed
next
  case (Some i)
  then show thesis using assms flush sentinel frame by (cases i; cases "flushing s1") auto
qed

declare create_loop.simps(2) [simp del]

lemma create_loop_protocol:
  "create_loop env fuel inner s = (r, s') \<Longrightarrow> attached s \<Longrightarrow>
   wired s' \<and> (\<forall>i. r = FLOW_OK i \<longrightarrow> attached s')"
proof (induction fuel arbitrary: s)
  case 0
  then show ?case by (auto simp: attached_def same_device_wired [OF same_device_update(3)])
next
  case (Suc fuel)
  obtain i s1 where p: "timeout_pop env s = (i, s1)" by fastforce
  have 1: "attached s1" using same_device_attached [OF same_device_pop [OF p]] Suc.prems(2) by simp
  have up: "attached (t\<lparr>consecutive_timeouts := n\<rparr>) = attached t" for t n
    using same_device_attached [OF same_device_update(1)] .
  from p show ?case
  proof (cases rule: create_loop_step [where fuel = fuel and inner = inner])
    case flush
    with Suc.prems 1 show ?thesis by (auto simp: attached_def)
  next
    case silent
    with Suc.prems Suc.IH 1 up show ?thesis by metis
  next
    case (recovered s3)
    have "attached s3" using handle_silence_protocol [OF recovered(4)] 1 up by simp
    with Suc.prems Suc.IH recovered up show ?thesis by metis
  next
    case (lost s3)
    have "wired s3" using handle_silence_protocol [OF lost(4)] 1 up by simp
    with Suc.prems lost same_device_wired [OF same_device_update(2)] show ?thesis
      by (auto split: if_splits)
  next
    case sentinel
    with Suc.prems Suc.IH 1 up show ?thesis by metis
  next
    case (frame b)
    with Suc.prems 1 same_device_attached [OF same_device_note_frame] show ?thesis
      by (auto simp: attached_def)
  qed
qed

lemma begin_streaming_protocol:
  assumes "begin_streaming env s = (r, s')" "attached s" "\<not> streaming s"
  shows "attached s' \<and> streaming s' = (r = UVC_SUCCESS)"
proof -
  define s0 where "s0 = apply_transfer_buffers env (rebaseline s)"
  have 0: "same_device s s0" unfolding s0_def
    using apply_transfer_buffers_same same_device_rebaseline same_device_attached assms(2)
      same_device_trans by metis
  define s1 where "s1 = apply_transfer_buffers env ((rebaseline s)\<lparr>streaming := True\<rparr>)"
  have s1: "s1 = s0\<lparr>streaming := True\<rparr>"
    by (simp add: s0_def s1_def apply_transfer_buffers_def Let_def log_call_def rebaseline_def)
  obtain res s2 where st: "start_streaming env s1 = (res, s2)" by fastforce
  note 2 = start_streaming_steps [OF st]
  obtain clean s3 where cl: "(if max_payload s2 > 0
      then negotiate_clean_payload env (negotiated_width (media s2)) (negotiated_height (media s2))
             (negotiated_framerate s2) s2 else (False, s2)) = (clean, s3)" by fastforce
  obtain res2 s4 where st2: "(if clean then start_streaming env s3 else (res, s3)) = (res2, s4)"
    by fastforce
  have eq: "begin_streaming env s =
      (if res = UVC_SUCCESS then (res, s2)
       else if res2 = UVC_SUCCESS then (res2, s4)
       else (res2, s4\<lparr>streaming := False,
               messages := post_error res2 (Some ''starting UVC stream'') (messages s4)\<rparr>))"
    unfolding begin_streaming_def Let_def s1_def [symmetric] st prod.case cl st2 by simp
  have a0: "attached s0 \<and> \<not> streaming s0"
    using same_device_attached [OF 0] 0 assms by (simp add: same_device_def)
  have a2: "uvc_devh s2 \<noteq> None" "sees s2 (uvc_ctx s2) (uvc_dev s2) (uvc_devh s2) (res = UVC_SUCCESS)"
    "streaming s2" "uvc_dev s2 \<noteq> None" "uvc_ctx s2 \<noteq> None"
    using 2 a0 s1 by (auto simp: attached_def protocol_defs)
  have a3: "calls s3 = calls s2 @ [Ev_get_ctrl (uvc_devh s2)] \<or> calls s3 = calls s2"
    "uvc_ctx s3 = uvc_ctx s2" "uvc_dev s3 = uvc_dev s2" "uvc_devh s3 = uvc_devh s2" "streaming s3"
    using cl get_stream_ctrl_steps [of env] a2(3)
    by (auto simp: negotiate_clean_payload_def split: if_splits prod.splits)
  have s3: "sees s3 (uvc_ctx s2) (uvc_dev s2) (uvc_devh s2) (res = UVC_SUCCESS)"
    using a2 a3 by (auto simp: protocol_defs)
  have s4: "sees s4 (uvc_ctx s2) (uvc_dev s2) (uvc_devh s2) (res2 = UVC_SUCCESS) \<and>
      uvc_ctx s4 = uvc_ctx s2 \<and> uvc_dev s4 = uvc_dev s2 \<and> uvc_devh s4 = uvc_devh s2 \<and> streaming s4"
    if "res \<noteq> UVC_SUCCESS"
    using st2 a2 a3 s3 that start_streaming_steps [of env s3 res2 s4]
    by (auto simp: protocol_defs split: if_splits)
  show ?thesis
    using assms(1) eq a2 s4 by (auto simp: attached_def wired_def sees_def split: if_splits)
qed

lemma create_protocol:
  assumes "src_create env fuel s = (r, s')" "attached s"
  shows "wired s' \<and> (\<forall>i. r = FLOW_OK i \<longrightarrow> attached s')"
proof (cases "streaming s")
  case True
  then show ?thesis using assms create_loop_protocol by (simp add: src_create_def)
next
  case False
  obtain res s1 where b: "begin_streaming env s = (res, s1)" by fastforce
  have "attached s1" using begin_streaming_protocol [OF b assms(2) False] by simp
  then show ?thesis using assms b False create_loop_protocol
    by (auto simp: src_create_def attached_def split: if_splits)
qed

subsection \<open>stop and start\<close>

definition released :: "elem \<Rightarrow> bool" where
  "released s \<longleftrightarrow> uvc_ctx s = None \<and> uvc_dev s = None \<and> uvc_devh s = None \<and> \<not> streaming s"

lemma stop_calls:
  "uvc_ctx (src_stop s) = None" "uvc_dev (src_stop s) = None" "uvc_devh (src_stop s) = None"
  "streaming (src_stop s) = (streaming s \<and> uvc_devh s = None)"
  "calls (src_stop s) = calls s @
     (if streaming s \<and> uvc_devh s \<noteq> None then [Ev_stop (uvc_devh s)] else []) @
     (if uvc_devh s \<noteq> None then [Ev_close (uvc_devh s)] else []) @
     (if uvc_dev s \<noteq> None then [Ev_unref (uvc_dev s)] else []) @
     (if uvc_ctx s \<noteq> None then [Ev_exit (uvc_ctx s)] else [])"
  "media (src_stop s) = (media s)\<lparr>frame_queue := []\<rparr>" "flushing (src_stop s) = flushing s"
proof -
  define s2 where "s2 = (stop_control s)\<lparr>target := usb_recovery_target_clear (target (stop_control s))\<rparr>"
  define s3 where "s3 = (if streaming s2 \<and> uvc_devh s2 \<noteq> None
    then (log_call (Ev_stop (uvc_devh s2)) s2)\<lparr>streaming := False\<rparr> else s2)"
  define s4 where "s4 = unref_all s3"
  define s5 where "s5 = (if uvc_devh s4 \<noteq> None
    then (log_call (Ev_close (uvc_devh s4)) s4)\<lparr>uvc_devh := None\<rparr> else s4)"
  define s6 where "s6 = (if uvc_dev s5 \<noteq> None
    then (log_call (Ev_unref (uvc_dev s5)) s5)\<lparr>uvc_dev := None\<rparr> else s5)"
  have st: "src_stop s = (if uvc_ctx s6 \<noteq> None
    then (log_call (Ev_exit (uvc_ctx s6)) s6)\<lparr>uvc_ctx := None\<rparr> else s6)"
    unfolding src_stop_def Let_def s2_def [symmetric] s3_def [symmetric] s4_def [symmetric]
      s5_def [symmetric] s6_def [symmetric] ..
  have 2: "uvc_ctx s2 = uvc_ctx s" "uvc_dev s2 = uvc_dev s" "uvc_devh s2 = uvc_devh s"
    "streaming s2 = streaming s" "calls s2 = calls s" "media s2 = media s" "flushing s2 = flushing s"
    by (simp_all add: s2_def stop_control_def Let_def)
  have 4: "uvc_ctx s4 = uvc_ctx s" "uvc_dev s4 = uvc_dev s" "uvc_devh s4 = uvc_devh s"
    "streaming s4 = (streaming s \<and> uvc_devh s = None)"
    "calls s4 = calls s @ (if streaming s \<and> uvc_devh s \<noteq> None then [Ev_stop (uvc_devh s)] else [])"
    "media s4 = (media s)\<lparr>frame_queue := []\<rparr>" "flushing s4 = flushing s"
    by (auto simp: s4_def s3_def 2 unref_all_def set_queue_def log_call_def)
  have 6: "uvc_ctx s6 = uvc_ctx s" "uvc_dev s6 = None" "uvc_devh s6 = None"
    "streaming s6 = streaming s4" "media s6 = media s4" "flushing s6 = flushing s4"
    "calls s6 = calls s4 @ (if uvc_devh s \<noteq> None then [Ev_close (uvc_devh s)] else []) @
       (if uvc_dev s \<noteq> None then [Ev_unref (uvc_dev s)] else [])"
    by (auto simp: s6_def s5_def 4(1,2,3) log_call_def)
  show "media (src_stop s) = (media s)\<lparr>frame_queue := []\<rparr>" "flushing (src_stop s) = flushing s"
    by (auto simp: st 6 4 log_call_def)
  show "uvc_ctx (src_stop s) = None" "uvc_dev (src_stop s) = None" "uvc_devh (src_stop s) = None"
    "streaming (src_stop s) = (streaming s \<and> uvc_devh s = None)"
    by (auto simp: st 6 4 log_call_def)
  show "calls (src_stop s) = calls s @
     (if streaming s \<and> uvc_devh s \<noteq> None then [Ev_stop (uvc_devh s)] else []) @
     (if uvc_devh s \<noteq> None then [Ev_close (uvc_devh s)] else []) @
     (if uvc_dev s \<noteq> None then [Ev_unref (uvc_dev s)] else []) @
     (if uvc_ctx s \<noteq> None then [Ev_exit (uvc_ctx s)] else [])"
    by (auto simp: st 6 4 log_call_def)
qed

lemma stop_protocol:
  assumes "wired s"
  shows "wired (src_stop s) \<and> released (src_stop s)"
proof -
  have "view_of (calls (src_stop s)) = idle_view"
    using assms unfolding stop_calls
    by (cases "uvc_devh s"; cases "uvc_dev s"; cases "uvc_ctx s"; cases "streaming s")
      (simp_all add: protocol_defs idle_view_def)
  then show ?thesis using assms
    by (auto simp: released_def stop_calls wired_def sees_def idle_view_def)
qed

lemma unbind_closed [simp]: "control_socket (control_socket_unbind k) = None"
  by (cases "control_socket k"; cases "control_socket_path k")
    (simp_all add: control_socket_unbind_def log_sock_def)

lemma stop_rest:
  "queue_of (src_stop s) = [] \<and> control_socket (sock_part (src_stop s)) = None \<and>
   \<not> control_running (src_stop s)"
  by (simp add: src_stop_def Let_def unref_all_def set_queue_def log_call_def stop_control_def)

lemma stop_released:
  assumes "released s"
  shows "calls (src_stop s) = calls s"
  using assms by (simp add: stop_calls released_def)

lemma same_device_reset_session [simp]: "same_device s (reset_session s)"
  by (simp add: reset_session_def same_device_def)

lemma same_device_error [simp]: "same_device s (element_error c w s)"
  by (simp add: element_error_def same_device_def)

lemma same_device_control [simp]: "same_device s (start_control env s)"
  by (simp add: start_control_def same_device_def split: prod.splits bool.splits)

definition fresh_session :: "elem \<Rightarrow> elem" where
  "fresh_session s =
     reset_session (if uvc_ctx s \<noteq> None \<or> uvc_devh s \<noteq> None then src_stop s else s)"

definition with_context :: "nat \<Rightarrow> elem \<Rightarrow> elem" where
  "with_context c s = (log_call (Ev_init (Some c)) s)\<lparr>uvc_ctx := Some c\<rparr>"

definition begun :: "uvc_env \<Rightarrow> elem \<Rightarrow> elem \<Rightarrow> bool" where
  \<comment> \<open>at most the clock was read, for the budget of a forced cleanup\<close>
  "begun env s t \<longleftrightarrow> t = s \<or> (\<exists>ms d. settle_deadline env ms s = (d, t))"

lemma begun_same: "begun env s t \<Longrightarrow> same_device s t"
  by (auto simp: begun_def dest: same_device_deadline)

lemma begun_prefix: "begun env s t \<Longrightarrow> prefix (calls s) (calls t)"
  by (auto simp: begun_def settle_deadline_def monotonic_now_def log_call_def)

lemma src_start_cases:
  assumes "src_start env fuel s = (b, s')"
  obtains
    (bad_index) "\<not> b" "s' = element_error RESOURCE_SETTINGS ''Invalid device index'' (fresh_session s)"
  | (no_context) "\<not> b" "s' = log_call (Ev_init None) (fresh_session s)"
  | (no_device) c sel dl s3 ef s4 msg where "begun env (with_context c (fresh_session s)) s3"
      "resolve_in env fuel sel dl s3 = (None, ef, s4)" "\<not> b"
      "s' = drop_context (element_error RESOURCE_NOT_FOUND msg s4)"
  | (no_handle) c sel dl s3 i d ef s4 where "begun env (with_context c (fresh_session s)) s3"
      "resolve_in env fuel sel dl s3 = (Some (i, d), ef, s4)" "\<not> b"
      "s' = drop_context ((log_call (Ev_unref (Some d)) (element_error RESOURCE_OPEN_READ_WRITE
         ''Unable to open UVC device'' (log_call (Ev_open d None) (s4\<lparr>uvc_dev := Some d\<rparr>))))
           \<lparr>uvc_dev := None\<rparr>)"
  | (opens) c sel dl s3 i d ef s4 h p where "begun env (with_context c (fresh_session s)) s3"
      "resolve_in env fuel sel dl s3 = (Some (i, d), ef, s4)" "b"
      "s' = start_control env (((log_call (Ev_open d (Some h)) (s4\<lparr>uvc_dev := Some d\<rparr>))
         \<lparr>uvc_devh := Some h\<rparr>)\<lparr>ptz_part := p\<rparr>)"
proof -
  define forced where "forced = (uvc_ctx s \<noteq> None \<or> uvc_devh s \<noteq> None)"
  define s1 where "s1 = fresh_session s"
  have s1: "s1 = reset_session (if forced then src_stop s else s)"
    by (simp add: s1_def forced_def fresh_session_def)
  show thesis
  proof (cases "parse_selector (index (media s1))")
    case (Inl e)
    then have "\<not> b" "s' = element_error RESOURCE_SETTINGS ''Invalid device index'' s1"
      using assms by (auto simp: src_start_def Let_def s1 forced_def)
    then show thesis using bad_index s1_def by simp
  next
    case (Inr sel)
    show thesis
    proof (cases "env_init env (calls s1)")
      case None
      then have "\<not> b" "s' = log_call (Ev_init None) s1"
        using assms Inr by (auto simp: src_start_def Let_def s1 forced_def)
      then show thesis using no_context s1_def by simp
    next
      case (Some c)
      define s2 where "s2 = with_context c s1"
      obtain dl s3 where dl: "(if forced then settle_deadline env (reset_settle_max_ms s2) s2
          else (0, s2)) = (dl, s3)" by fastforce
      have 3: "begun env s2 s3" using dl by (auto simp: begun_def split: if_splits)
      obtain r ef s4 where r: "resolve_in env fuel sel dl s3 = (r, ef, s4)" by (metis prod_cases3)
      have eq: "src_start env fuel s =
          (case resolve_in env fuel sel dl s3 of
            (None, enum_failed, s4) \<Rightarrow>
              (False, drop_context (element_error RESOURCE_NOT_FOUND
                 (if enum_failed then ''No UVC devices found''
                  else ''No UVC device matching'') s4))
          | (Some (ordinal, d), _, s4) \<Rightarrow>
              (let s5 = s4\<lparr>uvc_dev := Some d\<rparr>
               in case env_open env (calls s5) d of
                    Inl e \<Rightarrow>
                      (let s6 = element_error RESOURCE_OPEN_READ_WRITE
                             ''Unable to open UVC device'' (log_call (Ev_open d None) s5);
                           s7 = (log_call (Ev_unref (uvc_dev s6)) s6)\<lparr>uvc_dev := None\<rparr>
                       in (False, drop_context s7))
                  | Inr h \<Rightarrow>
                      (let s6 = (log_call (Ev_open d (Some h)) s5)\<lparr>uvc_devh := Some h\<rparr>;
                           p = ptz_probe_capabilities (env_camera env)
                                 ((ptz_part s6)\<lparr>have_devh := True\<rparr>)
                       in (True, start_control env (s6\<lparr>ptz_part := p\<rparr>)))))"
        unfolding src_start_def Let_def forced_def [symmetric] s1 [symmetric]
          Inr sum.case Some option.case s2_def [unfolded with_context_def, symmetric] dl prod.case ..
      note 3 = 3 [unfolded s2_def s1_def]
      show thesis
      proof (cases r)
        case None
        then have "\<not> b" "s' = drop_context (element_error RESOURCE_NOT_FOUND
            (if ef then ''No UVC devices found'' else ''No UVC device matching'') s4)"
          using assms eq r by auto
        then show thesis using no_device [OF 3] r None by simp
      next
        case (Some p)
        obtain i d where p: "p = (i, d)" by fastforce
        show thesis
        proof (cases "env_open env (calls s4) d")
          case (Inl e)
          have "\<not> b" "s' = drop_context ((log_call (Ev_unref (Some d)) (element_error
              RESOURCE_OPEN_READ_WRITE ''Unable to open UVC device''
              (log_call (Ev_open d None) (s4\<lparr>uvc_dev := Some d\<rparr>))))\<lparr>uvc_dev := None\<rparr>)"
            using assms eq r Some p Inl by (auto simp: Let_def element_error_def log_call_def)
          then show thesis using no_handle [OF 3] r Some p by simp
        next
          case (Inr h)
          have "b" "s' = start_control env (((log_call (Ev_open d (Some h)) (s4\<lparr>uvc_dev := Some d\<rparr>))
              \<lparr>uvc_devh := Some h\<rparr>)\<lparr>ptz_part := ptz_probe_capabilities (env_camera env)
                ((ptz_part s4)\<lparr>have_devh := True\<rparr>)\<rparr>)"
            using assms eq r Some p Inr by (auto simp: Let_def log_call_def)
          then show thesis using opens [OF 3] r Some p by simp
        qed
      qed
    qed
  qed
qed

lemma fresh_session_released:
  assumes "wired s"
  shows "wired (fresh_session s) \<and> released (fresh_session s)"
proof -
  define s0 where "s0 = (if uvc_ctx s \<noteq> None \<or> uvc_devh s \<noteq> None then src_stop s else s)"
  have "wired s0 \<and> released s0"
    using assms stop_protocol [OF assms] by (auto simp: s0_def released_def wired_def)
  then show ?thesis
    using same_device_wired [OF same_device_reset_session] same_device_reset_session [of s0]
    unfolding fresh_session_def s0_def [symmetric] by (simp add: released_def same_device_def)
qed

lemma with_context_detached:
  "wired s \<Longrightarrow> released s \<Longrightarrow> same_device (with_context c s) s' \<Longrightarrow> detached s'"
  by (auto simp: with_context_def same_device_def detached_def released_def log_call_def protocol_defs)

lemma start_protocol:
  assumes "src_start env fuel s = (b, s')" "wired s"
  shows "wired s' \<and> (if b then uvc_devh s' \<noteq> None \<and> \<not> streaming s' else released s')"
proof -
  note 1 = fresh_session_released [OF assms(2)]
  note d = with_context_detached [OF 1 [THEN conjunct1] 1 [THEN conjunct2]]
  from assms(1) show ?thesis
  proof (cases rule: src_start_cases)
    case bad_index
    with 1 same_device_wired [OF same_device_error] show ?thesis
      by (simp add: released_def element_error_def)
  next
    case no_context
    with 1 show ?thesis by (simp add: released_def log_call_def protocol_defs)
  next
    case (no_device c sel dl s3 ef s4 msg)
    with d [OF begun_same [OF no_device(1)]] resolve_detached [OF no_device(2) d [OF begun_same [OF no_device(1)]]] show ?thesis
      by (auto simp: drop_context_def element_error_def log_call_def released_def
          detached_def protocol_defs)
  next
    case (no_handle c sel dl s3 i dv ef s4)
    with d [OF begun_same [OF no_handle(1)]] resolve_detached [OF no_handle(2) d [OF begun_same [OF no_handle(1)]]] show ?thesis
      by (auto simp: drop_context_def element_error_def log_call_def released_def
          detached_def protocol_defs)
  next
    case (opens c sel dl s3 i dv ef s4 h p)
    define s7 where "s7 = ((log_call (Ev_open dv (Some h)) (s4\<lparr>uvc_dev := Some dv\<rparr>))
      \<lparr>uvc_devh := Some h\<rparr>)\<lparr>ptz_part := p\<rparr>"
    have "wired s7 \<and> uvc_devh s7 \<noteq> None \<and> \<not> streaming s7"
      using d [OF begun_same [OF opens(1)]] resolve_detached [OF opens(2) d [OF begun_same [OF opens(1)]]]
      by (auto simp: s7_def log_call_def detached_def protocol_defs)
    then show ?thesis
      using opens same_device_wired [OF same_device_control] same_device_control [of s7 env]
      by (simp add: same_device_def s7_def)
  qed
qed

lemma start_cleans_up:
  assumes "src_start env fuel s = (b, s')" "uvc_ctx s \<noteq> None"
  shows "prefix (calls (src_stop s)) (calls s')"
proof -
  have c1: "calls (fresh_session s) = calls (src_stop s)"
    using assms(2) by (simp add: fresh_session_def reset_session_def)
  have pre: "prefix (calls (src_stop s)) (calls s4)"
    if "begun env (with_context c (fresh_session s)) s3"
      "resolve_in env fuel sel dl s3 = (r, ef, s4)" for c s3 sel dl r ef s4
    using begun_prefix [OF that(1)] resolve_in_steps [OF that(2)]
    by (auto simp: with_context_def log_call_def c1 prefix_def)
  from assms(1) show ?thesis
  proof (cases rule: src_start_cases)
    case bad_index
    then show ?thesis by (simp add: element_error_def c1)
  next
    case no_context
    then show ?thesis by (simp add: log_call_def c1)
  next
    case (no_device c sel dl s3 ef s4 msg)
    with pre [OF no_device(1,2)] show ?thesis
      by (simp add: drop_context_def element_error_def log_call_def prefix_prefix)
  next
    case (no_handle c sel dl s3 i dv ef s4)
    with pre [OF no_handle(1,2)] show ?thesis
      by (simp add: drop_context_def element_error_def log_call_def prefix_prefix)
  next
    case (opens c sel dl s3 i dv ef s4 h p)
    have "calls (start_control env t) = calls t" for t
      by (simp add: start_control_def split: prod.split bool.split)
    with pre [OF opens(1,2)] opens(4) show ?thesis by (simp add: log_call_def prefix_prefix)
  qed
qed

lemma negotiate_same:
  assumes "attached s"
  shows "same_device s (snd (negotiate env set_range peer formats s))"
proof -
  obtain found sel where sel: "select_mode set_range peer formats s = (found, sel)" by fastforce
  define s0 where "s0 = s\<lparr>media := (media s)\<lparr>frame_format := sel_format sel\<rparr>\<rparr>"
  have 0: "same_device s s0" "attached s0"
    using same_device_attached [of s s0] assms by (simp_all add: s0_def)
  obtain res s1 where p: "probe_stream_ctrl env (sel_width sel) (sel_height sel) (sel_rate sel)
      PROBE_POLICY_RETRY s0 = (res, s1)" by fastforce
  obtain r0 t0 where g: "get_stream_ctrl env (sel_width sel) (sel_height sel) (sel_rate sel) s0 =
      (r0, t0)" by fastforce
  have t0: "same_device s0 t0" using get_stream_ctrl_same [OF g 0(2)] .
  have 1: "same_device s s1"
  proof (cases "s1 = t0")
    case True
    with 0 t0 show ?thesis using same_device_trans by blast
  next
    case False
    then have "get_stream_ctrl env (sel_width sel) (sel_height sel) (sel_rate sel) t0 = (res, s1)"
      using p g by (auto simp: probe_stream_ctrl_def split: if_splits)
    from get_stream_ctrl_same [OF this] t0 0 same_device_attached [OF t0] show ?thesis
      using same_device_trans by blast
  qed
  define s2 where "s2 = apply_max_payload env (sel_width sel) (sel_height sel) (sel_rate sel) s1"
  have 2: "same_device s s2" unfolding s2_def
    using 1 apply_max_payload_same same_device_attached [OF 1] assms same_device_trans by blast
  show ?thesis
    using 0 1 2 unfolding negotiate_def Let_def sel prod.case s0_def [symmetric] p s2_def [symmetric]
    by (auto simp: same_device_def)
qed

subsection \<open>A camera for the examples\<close>

definition demo_device :: uvc_device where
  "demo_device = \<lparr>dev_descriptor = None, dev_bus = 1, dev_address = 5\<rparr>"

definition demo_usb ::
  "(uvc_history \<Rightarrow> gst_buffer list) \<Rightarrow> (uvc_history \<Rightarrow> bool) \<Rightarrow> uvc_env" where
  \<comment> \<open>a camera that answers every call; what arrives, and when an unlock comes, is given\<close>
  "demo_usb frames unlocks =
     \<lparr>env_init = (\<lambda>h. Some 1), env_find = (\<lambda>h n. Some [demo_device]),
      env_poll_time = (\<lambda>h n. int n), env_poll_flush = (\<lambda>h n. False),
      env_open = (\<lambda>h d. Inr 7), env_get_ctrl = (\<lambda>h d f w ht r. (UVC_SUCCESS, 3072)),
      env_probe = (\<lambda>h d n. (UVC_SUCCESS, n)), env_set_buffers = (\<lambda>h d n. UVC_SUCCESS),
      env_start = (\<lambda>h d n. UVC_SUCCESS), env_usb_handle = (\<lambda>h. True), env_reset = (\<lambda>h. 0),
      env_now = (\<lambda>h. int (length h)), env_frames = frames, env_unlock = unlocks,
      env_sysfs = demo_os True (\<lambda>p v. Write_done), env_camera = demo_camera,
      env_sock = demo_sock_os, env_buffers_api = True\<rparr>"

definition demo_elem :: elem where
  "demo_elem = src_init UVC_FRAME_FORMAT_H264 0 demo_fs"

definition demo_buffer :: gst_buffer where
  "demo_buffer = gst_buffer_new_allocate 0"

abbreviation demo_live :: uvc_env where
  "demo_live \<equiv> demo_usb (\<lambda>h. [demo_buffer]) (\<lambda>h. False)"

end
