(* ===== verification/ModeChoice.thy ===== *)
theory ModeChoice
  imports HandleProtocol
begin

text \<open>
  What caps negotiation promises. \<open>device_offers\<close> lists what a camera offers after its limits are
  applied, one entry per frame descriptor that survives, as a plain recursion over the
  descriptors; the selection loop of \<open>negotiate\<close> is shown to publish exactly these and to pick
  one of largest area. Fixating a rate is the peer's and GStreamer's; the one law used is
  \<open>fixates_within\<close>: from caps with a list of rates one of the list is taken.
\<close>

subsection \<open>What a camera offers\<close>

type_synonym offer = "bool \<times> frame_desc \<times> caps"

definition mode_caps :: "bool \<Rightarrow> frame_desc \<Rightarrow> gvalue option \<Rightarrow> caps" where
  "mode_caps is_h264 fd rates =
     [\<lparr>gname = (if is_h264 then ''video/x-h264'' else ''video/x-h265''),
       gwidth = Some (uint (wWidth fd)), gheight = Some (uint (wHeight fd)), framerate = rates\<rparr>]"

fun offers :: "range_fn \<Rightarrow> quirk_limits \<Rightarrow> bool \<Rightarrow> frame_desc list \<Rightarrow> gvalue option \<Rightarrow> offer list"
  where
  "offers set_range limits is_h264 [] old = []"
| "offers set_range limits is_h264 (fd # fds) old =
     (case frame_rates set_range fd old of
        None \<Rightarrow> offers set_range limits is_h264 fds old
      | Some rates \<Rightarrow>
          (let cs = uvc_quirks_filter_caps set_range (Some limits) (mode_caps is_h264 fd rates)
           in (if cs = [] then [] else [(is_h264, fd, cs)]) @
              offers set_range limits is_h264 fds rates))"

definition is_codec :: "format_desc \<Rightarrow> bool" where
  "is_codec f \<longleftrightarrow> fourcc f = ''H264'' \<or> fourcc f = ''H265''"

definition format_offers :: "range_fn \<Rightarrow> quirk_limits \<Rightarrow> format_desc \<Rightarrow> offer list" where
  "format_offers set_range limits f =
     (if is_codec f then offers set_range limits (fourcc f = ''H264'') (frame_descs f) None else [])"

definition device_offers :: "range_fn \<Rightarrow> quirk_limits \<Rightarrow> format_desc list \<Rightarrow> offer list" where
  "device_offers set_range limits formats = concat (map (format_offers set_range limits) formats)"

definition ladder_of :: "offer list \<Rightarrow> caps" where
  "ladder_of os = concat (map (snd \<circ> snd) os)"

definition area :: "frame_desc \<Rightarrow> int" where
  "area fd = uint (wWidth fd) * uint (wHeight fd)"

definition areas_fit :: "format_desc list \<Rightarrow> bool" where
  \<comment> \<open>every product of the two 16-bit sizes fits a \<open>gint\<close>\<close>
  "areas_fit formats \<longleftrightarrow> (\<forall>f \<in> set formats. \<forall>fd \<in> set (frame_descs f). area fd \<le> G_MAXINT)"

lemma area_nonneg [simp]: "0 \<le> area fd"
  by (simp add: area_def)

lemma offer_from_frame: "(h, fd, cs) \<in> set (offers sr l is_h264 fds old) \<Longrightarrow> fd \<in> set fds"
  by (induction sr l is_h264 fds old rule: offers.induct)
    (auto simp: Let_def split: option.splits if_splits)

subsection \<open>The selection loop\<close>

definition chosen :: "peer_caps \<Rightarrow> offer \<Rightarrow> selection \<Rightarrow> bool" where
  \<comment> \<open>the selection holds this offer\<close>
  "chosen peer off st \<longleftrightarrow>
     (case off of (h, fd, cs) \<Rightarrow>
        can_intersect peer cs \<and> sel_width st = uint (wWidth fd) \<and> sel_height st = uint (wHeight fd) \<and>
        sel_format st = (if h then UVC_FRAME_FORMAT_H264 else UVC_FRAME_FORMAT_H265) \<and>
        sel_best st = Some (cs, fixated_rate peer cs (top_rate (hd cs))) \<and>
        sel_rate st = fst (fixated_rate peer cs (top_rate (hd cs))) sdiv
                      snd (fixated_rate peer cs (top_rate (hd cs))))"

definition picked :: "peer_caps \<Rightarrow> offer list \<Rightarrow> selection \<Rightarrow> bool" where
  "picked peer os st \<longleftrightarrow>
     sel_ladder st = ladder_of os \<and>
     (\<forall>(h, fd, cs) \<in> set os. can_intersect peer cs \<longrightarrow> area fd \<le> sel_width st * sel_height st) \<and>
     (sel_best st = None \<and> sel_width st = -1 \<and> sel_height st = -1 \<or>
      (\<exists>off \<in> set os. chosen peer off st))"

lemma picked_start: "picked peer [] (start\<lparr>sel_width := -1, sel_height := -1, sel_best := None, sel_ladder := []\<rparr>)"
  by (simp add: picked_def ladder_of_def)

lemma picked_tmp [simp]: "picked peer os (st\<lparr>sel_tmp := r\<rparr>) = picked peer os st"
  by (simp add: picked_def chosen_def split_beta)

lemma picked_area:
  assumes "picked peer os st" "\<forall>(h, fd, cs) \<in> set os. area fd \<le> G_MAXINT"
  shows "0 \<le> sel_width st * sel_height st" "sel_width st * sel_height st \<le> G_MAXINT"
  using assms by (auto simp: picked_def chosen_def area_def)

lemma picked_take:
  assumes "picked peer os st" "chosen peer (h, fd, cs) st'" "sel_ladder st' = sel_ladder st @ cs"
    and "sel_width st * sel_height st \<le> area fd"
  shows "picked peer (os @ [(h, fd, cs)]) st'"
proof -
  have "sel_width st' * sel_height st' = area fd" using assms(2) by (simp add: chosen_def area_def)
  then show ?thesis
    using assms by (fastforce simp: picked_def ladder_of_def)
qed

lemma picked_keep:
  assumes "picked peer os st" "can_intersect peer cs \<longrightarrow> area fd \<le> sel_width st * sel_height st"
  shows "picked peer (os @ [(h, fd, cs)]) (st\<lparr>sel_tmp := r, sel_ladder := sel_ladder st @ cs\<rparr>)"
proof -
  have "chosen peer off (st\<lparr>sel_tmp := r, sel_ladder := sel_ladder st @ cs\<rparr>) = chosen peer off st" for off
    by (simp add: chosen_def split_beta)
  then show ?thesis using assms by (auto simp: picked_def ladder_of_def)
qed

lemma picked_frame:
  assumes "picked peer os st" "\<forall>(h, fd, cs) \<in> set os. area fd \<le> G_MAXINT" "area fd \<le> G_MAXINT"
  shows "picked peer (os @ offers sr l is_h264 [fd] (sel_tmp st))
           (consider_frame sr l peer is_h264 fd st)"
proof (cases "frame_rates sr fd (sel_tmp st)")
  case None
  then show ?thesis using assms(1) by (simp add: consider_frame_def)
next
  case (Some rates)
  define cs where "cs = uvc_quirks_filter_caps sr (Some l) (mode_caps is_h264 fd rates)"
  have 1: "to_gint (sel_width st * sel_height st) = sel_width st * sel_height st"
    using picked_area [OF assms(1,2)] by (intro to_gint_id) auto
  have 2: "to_gint (uint (wWidth fd) * uint (wHeight fd)) = area fd"
    using assms(3) area_nonneg [of fd] unfolding area_def by (intro to_gint_id) linarith+
  define better where "better \<longleftrightarrow> can_intersect peer cs \<and> (area fd > sel_width st * sel_height st \<or>
        area fd = sel_width st * sel_height st \<and> top_rate (hd cs) > sel_rate st)"
  have c: "consider_frame sr l peer is_h264 fd st =
      (if cs = [] then st\<lparr>sel_tmp := rates\<rparr>
       else let st2 = st\<lparr>sel_tmp := rates, sel_ladder := sel_ladder st @ cs\<rparr> in
         if better then (case fixated_rate peer cs (top_rate (hd cs)) of (num, den) \<Rightarrow>
           st2\<lparr>sel_width := uint (wWidth fd), sel_height := uint (wHeight fd),
              sel_format := (if is_h264 then UVC_FRAME_FORMAT_H264 else UVC_FRAME_FORMAT_H265),
              sel_best := Some (cs, (num, den)), sel_rate := num sdiv den\<rparr>)
         else st2)"
    unfolding consider_frame_def Some option.case mode_caps_def [symmetric] cs_def [symmetric] Let_def
      better_def
    by (simp add: 1 2 cong: if_cong)
  consider (none) "cs = []" | (better) "cs \<noteq> []" better | (worse) "cs \<noteq> []" "\<not> better" by blast
  then show ?thesis
  proof cases
    case none
    then show ?thesis using assms(1) c Some by (simp add: cs_def)
  next
    case better
    have "chosen peer (is_h264, fd, cs) (consider_frame sr l peer is_h264 fd st)"
      "sel_ladder (consider_frame sr l peer is_h264 fd st) = sel_ladder st @ cs"
      using better by (simp_all add: c chosen_def split_beta Let_def better_def)
    from picked_take [OF assms(1) this] better show ?thesis
      using Some by (auto simp: better_def cs_def Let_def)
  next
    case worse
    have "can_intersect peer cs \<longrightarrow> area fd \<le> sel_width st * sel_height st"
      using worse by (auto simp: better_def)
    from picked_keep [OF assms(1) this] worse show ?thesis
      using Some c by (simp add: cs_def Let_def)
  qed
qed


lemma tmp_frame: "sel_tmp (consider_frame sr l peer h fd st) =
    (case frame_rates sr fd (sel_tmp st) of None \<Rightarrow> sel_tmp st | Some r \<Rightarrow> r)"
  by (simp add: consider_frame_def Let_def split: option.split prod.split)

lemma ladder_frame: "sel_ladder (consider_frame sr l peer h fd st) =
    sel_ladder st @ ladder_of (offers sr l h [fd] (sel_tmp st))"
  by (simp add: consider_frame_def Let_def mode_caps_def ladder_of_def split: option.split prod.split)

lemma offers_Cons:
  "offers sr l h (fd # fds) old = offers sr l h [fd] old @
     offers sr l h fds (case frame_rates sr fd old of None \<Rightarrow> old | Some r \<Rightarrow> r)"
  by (simp add: Let_def split: option.split)

lemma ladder_append [simp]: "ladder_of (os @ os') = ladder_of os @ ladder_of os'"
  by (simp add: ladder_of_def)

lemma ladder_frames:
  "sel_ladder (fold (consider_frame sr l peer h) fds st) =
     sel_ladder st @ ladder_of (offers sr l h fds (sel_tmp st))"
proof (induction fds arbitrary: st)
  case (Cons fd fds)
  show ?case
    unfolding offers_Cons [of sr l h fd fds "sel_tmp st"]
    using Cons.IH [of "consider_frame sr l peer h fd st"] by (simp add: ladder_frame tmp_frame del: offers.simps)
qed (simp add: ladder_of_def)

lemma picked_frames:
  assumes "picked peer os st" "\<forall>(h, fd, cs) \<in> set os. area fd \<le> G_MAXINT"
    "\<forall>fd \<in> set fds. area fd \<le> G_MAXINT"
  shows "picked peer (os @ offers sr l h fds (sel_tmp st)) (fold (consider_frame sr l peer h) fds st)"
  using assms
proof (induction fds arbitrary: os st)
  case (Cons fd fds)
  have "picked peer (os @ offers sr l h [fd] (sel_tmp st)) (consider_frame sr l peer h fd st)"
    using Cons.prems by (intro picked_frame) auto
  moreover have "\<forall>(h, fd, cs) \<in> set (os @ offers sr l h [fd] (sel_tmp st)). area fd \<le> G_MAXINT"
    using Cons.prems(2,3) by (auto dest!: offer_from_frame simp del: offers.simps)
  ultimately have "picked peer ((os @ offers sr l h [fd] (sel_tmp st)) @
      offers sr l h fds (sel_tmp (consider_frame sr l peer h fd st)))
      (fold (consider_frame sr l peer h) fds (consider_frame sr l peer h fd st))"
    using Cons.prems(3) by (intro Cons.IH) auto
  then show ?case
    unfolding offers_Cons [of sr l h fd fds "sel_tmp st"] by (simp add: tmp_frame del: offers.simps)
qed simp

lemma consider_format_eq:
  "consider_format sr l peer f (b, st) =
     (if is_codec f then (True, fold (consider_frame sr l peer (fourcc f = ''H264'')) (frame_descs f)
        (st\<lparr>sel_tmp := None\<rparr>)) else (b, st))"
  by (auto simp: consider_format_def is_codec_def)

lemma found_format: "fst (fold (consider_format sr l peer) fs (b, st)) \<longleftrightarrow> b \<or> (\<exists>f \<in> set fs. is_codec f)"
  by (induction fs arbitrary: b st) (auto simp: consider_format_eq)

lemma ladder_formats:
  "sel_ladder (snd (fold (consider_format sr l peer) fs (b, st))) =
     sel_ladder st @ ladder_of (device_offers sr l fs)"
proof (induction fs arbitrary: b st)
  case (Cons f fs)
  then show ?case
    by (simp add: consider_format_eq device_offers_def format_offers_def ladder_frames ladder_of_def)
qed (simp add: device_offers_def ladder_of_def)

lemma picked_formats:
  assumes "picked peer os st" "\<forall>(h, fd, cs) \<in> set os. area fd \<le> G_MAXINT" "areas_fit fs"
  shows "picked peer (os @ device_offers sr l fs) (snd (fold (consider_format sr l peer) fs (b, st)))"
  using assms
proof (induction fs arbitrary: os b st)
  case (Cons f fs)
  note fit = Cons.prems(3) [unfolded areas_fit_def]
  let ?st = "snd (consider_format sr l peer f (b, st))"
  have "picked peer (os @ format_offers sr l f) ?st"
  proof (cases "is_codec f")
    case True
    have "picked peer (os @ offers sr l (fourcc f = ''H264'') (frame_descs f) (sel_tmp (st\<lparr>sel_tmp := None\<rparr>)))
        (fold (consider_frame sr l peer (fourcc f = ''H264'')) (frame_descs f) (st\<lparr>sel_tmp := None\<rparr>))"
      using Cons.prems(1,2) fit by (intro picked_frames) simp_all
    with True show ?thesis by (simp add: consider_format_eq format_offers_def)
  qed (use Cons.prems(1) in \<open>simp add: consider_format_eq format_offers_def\<close>)
  moreover have "\<forall>(h, fd, cs) \<in> set (os @ format_offers sr l f). area fd \<le> G_MAXINT"
    using Cons.prems(2) fit by (auto simp: format_offers_def dest!: offer_from_frame split: if_splits)
  ultimately have "picked peer ((os @ format_offers sr l f) @ device_offers sr l fs)
      (snd (fold (consider_format sr l peer) fs (fst (consider_format sr l peer f (b, st)), ?st)))"
    using fit by (intro Cons.IH) (simp_all add: areas_fit_def)
  then show ?case by (simp add: device_offers_def)
qed (simp add: device_offers_def)

subsection \<open>Selection and negotiation\<close>

abbreviation "offers_of sr formats s \<equiv> device_offers sr (device_limits (uvc_dev s)) formats"

lemma select_mode_picked:
  assumes "areas_fit formats"
  shows "picked peer (offers_of sr formats s) (snd (select_mode sr peer formats s))"
  using picked_formats [of peer "[]", OF _ _ assms] unfolding select_mode_def
  by (simp add: picked_def ladder_of_def)

lemma select_mode_ladder:
  "fst (select_mode sr peer formats s) \<longleftrightarrow> (\<exists>f \<in> set formats. is_codec f)"
  "sel_ladder (snd (select_mode sr peer formats s)) = ladder_of (offers_of sr formats s)"
  by (simp_all add: select_mode_def found_format ladder_formats)

definition payload_update :: "elem \<Rightarrow> elem \<Rightarrow> bool" where
  \<comment> \<open>nothing else changed\<close>
  "payload_update s t \<longleftrightarrow>
     (\<exists>c p e. t = s\<lparr>calls := c, ctrl_payload := p, max_payload_effective := e\<rparr>)"

lemma payload_update_trans:
  assumes "payload_update s t" "payload_update t u"
  shows "payload_update s u"
proof -
  obtain c p e where "t = s\<lparr>calls := c, ctrl_payload := p, max_payload_effective := e\<rparr>"
    using assms(1) by (auto simp: payload_update_def)
  moreover obtain c' p' e' where
    "u = t\<lparr>calls := c', ctrl_payload := p', max_payload_effective := e'\<rparr>"
    using assms(2) by (auto simp: payload_update_def)
  ultimately have "u = s\<lparr>calls := c', ctrl_payload := p', max_payload_effective := e'\<rparr>" by simp
  then show ?thesis unfolding payload_update_def by blast
qed

lemma payload_update_intros:
  "payload_update s s" "payload_update s (s\<lparr>calls := c, ctrl_payload := p\<rparr>)"
  "payload_update s (s\<lparr>max_payload_effective := e\<rparr>)"
  "payload_update s (s\<lparr>calls := c, ctrl_payload := p, max_payload_effective := e\<rparr>)"
proof -
  show "payload_update s s"
    unfolding payload_update_def
    by (intro exI [of _ "calls s"] exI [of _ "ctrl_payload s"] exI [of _ "max_payload_effective s"]) simp
  show "payload_update s (s\<lparr>calls := c, ctrl_payload := p\<rparr>)"
    unfolding payload_update_def
    by (intro exI [of _ c] exI [of _ p] exI [of _ "max_payload_effective s"]) simp
  show "payload_update s (s\<lparr>max_payload_effective := e\<rparr>)"
    unfolding payload_update_def
    by (intro exI [of _ "calls s"] exI [of _ "ctrl_payload s"] exI [of _ e]) simp
  show "payload_update s (s\<lparr>calls := c, ctrl_payload := p, max_payload_effective := e\<rparr>)"
    unfolding payload_update_def
    by (intro exI [of _ c] exI [of _ p] exI [of _ e]) simp
qed

lemma get_ctrl_update: "payload_update s (snd (get_stream_ctrl env w h f s))"
  by (simp add: get_stream_ctrl_def log_call_def payload_update_intros split: prod.split)

lemma clean_update: "payload_update s (snd (negotiate_clean_payload env w h f s))"
proof -
  obtain r t where g: "get_stream_ctrl env w h f s = (r, t)" by fastforce
  then have "payload_update s t" using get_ctrl_update by (metis snd_conv)
  then have "payload_update s (t\<lparr>max_payload_effective := ctrl_payload t\<rparr>)"
    using payload_update_trans payload_update_intros(3) by blast
  with \<open>payload_update s t\<close> show ?thesis by (simp add: negotiate_clean_payload_def g)
qed

lemma payload_effect: "payload_update s (apply_max_payload env w h f s)"
proof -
  have 1: "payload_update s ((log_call ev s)\<lparr>ctrl_payload := q\<rparr>)"
    "payload_update s ((log_call ev s)\<lparr>ctrl_payload := q, max_payload_effective := q\<rparr>)" for ev q
    by (simp_all add: payload_update_intros log_call_def)
  then show ?thesis
    using payload_update_trans [OF 1(1) clean_update] payload_update_intros(3)
    by (simp add: apply_max_payload_def Let_def split: prod.split)
qed

lemma probe_effect: "payload_update s (snd (probe_stream_ctrl env w h f policy s))"
proof -
  define u where "u = (if policy = PROBE_POLICY_DOUBLE then snd (get_stream_ctrl env w h f s) else s)"
  have "payload_update s u" using get_ctrl_update by (simp add: u_def payload_update_intros)
  then have 1: "payload_update s (snd (get_stream_ctrl env w h f u))"
    using payload_update_trans get_ctrl_update by blast
  obtain r t where g: "get_stream_ctrl env w h f u = (r, t)" by fastforce
  have "payload_update s t" using 1 g by simp
  then show ?thesis
    using payload_update_trans [OF _ get_ctrl_update, of s t]
    by (simp add: probe_stream_ctrl_def u_def [symmetric] g)
qed

lemma load_unit_geometry [simp]:
  "negotiated_width (load_unit u m) = negotiated_width m"
  "negotiated_height (load_unit u m) = negotiated_height m"
  "frame_interval (load_unit u m) = frame_interval m"
  by (cases "utype u"; simp add: load_unit_def)+

lemma load_spspps_geometry [simp]:
  "negotiated_width (load_spspps fs k m) = negotiated_width m"
  "negotiated_height (load_spspps fs k m) = negotiated_height m"
  "frame_interval (load_spspps fs k m) = frame_interval m"
  "frame_format (load_spspps fs k m) = frame_format m"
proof -
  have "negotiated_width (fold load_unit us m) = negotiated_width m"
    "negotiated_height (fold load_unit us m) = negotiated_height m"
    "frame_interval (fold load_unit us m) = frame_interval m"
    "frame_format (fold load_unit us m) = frame_format m" for us
    by (induction us arbitrary: m) (simp_all add: elem_simps)
  then show "negotiated_width (load_spspps fs k m) = negotiated_width m"
    "negotiated_height (load_spspps fs k m) = negotiated_height m"
    "frame_interval (load_spspps fs k m) = frame_interval m"
    "frame_format (load_spspps fs k m) = frame_format m"
    by (simp_all add: load_spspps_def Let_def split: prod.split option.split)
qed

lemma negotiate_success:
  assumes "negotiate env sr peer formats s = (True, t)"
  defines "sel \<equiv> snd (select_mode sr peer formats s)"
  shows "fst (select_mode sr peer formats s)" "0 \<le> sel_width sel" "0 < sel_rate sel"
    "sel_best sel \<noteq> None" "negotiated_width (media t) = sel_width sel"
    "negotiated_height (media t) = sel_height sel" "frame_format (media t) = sel_format sel"
    "frame_interval (media t) = 1000000000 div sel_rate sel"
    "negotiated_framerate t = sel_rate sel" "pad_caps t = sel_best sel"
    "deliverable_caps t = Some (sel_ladder sel)" "uvc_dev t = uvc_dev s"
proof -
  define s0 where "s0 = s\<lparr>media := (media s)\<lparr>frame_format := sel_format sel\<rparr>\<rparr>"
  obtain res t1 where r: "probe_stream_ctrl env (sel_width sel) (sel_height sel) (sel_rate sel)
      PROBE_POLICY_RETRY s0 = (res, t1)" by fastforce
  define t2 where "t2 = apply_max_payload env (sel_width sel) (sel_height sel) (sel_rate sel) t1"
  have "payload_update s0 t1" using probe_effect r by (metis snd_conv)
  then have "payload_update s0 t2" unfolding t2_def by (rule payload_update_trans [OF _ payload_effect])
  then obtain c' p' e where pl: "t2 = s0\<lparr>calls := c', ctrl_payload := p', max_payload_effective := e\<rparr>"
    by (auto simp: payload_update_def)
  obtain found where f: "select_mode sr peer formats s = (found, sel)"
    unfolding sel_def by (metis prod.collapse)
  note n = assms(1) [unfolded negotiate_def f, simplified Let_def prod.case s0_def [symmetric] r t2_def [symmetric] pl]
  have g: "found" "\<not> (sel_width sel < 0 \<or> sel_height sel < 0 \<or> sel_rate sel \<le> 0 \<or> sel_best sel = None)"
      "res = UVC_SUCCESS"
    using n by (simp_all split: if_splits)
  have t: "t = (s0\<lparr>calls := c', ctrl_payload := p', max_payload_effective := e\<rparr>)
      \<lparr>media := load_spspps (disk s) (spspps_key_snapshot ((media s0)\<lparr>frame_interval := 1000000000 div sel_rate sel,
          negotiated_width := sel_width sel, negotiated_height := sel_height sel\<rparr>))
        ((media s0)\<lparr>frame_interval := 1000000000 div sel_rate sel,
          negotiated_width := sel_width sel, negotiated_height := sel_height sel\<rparr>),
       negotiated_framerate := sel_rate sel, pad_caps := sel_best sel,
       deliverable_caps := Some (sel_ladder sel)\<rparr>"
    using n g by (simp add: s0_def)
  show "fst (select_mode sr peer formats s)" "0 \<le> sel_width sel" "0 < sel_rate sel" "sel_best sel \<noteq> None"
    using g f by simp_all
  show "negotiated_width (media t) = sel_width sel"
    "negotiated_height (media t) = sel_height sel" "frame_format (media t) = sel_format sel"
    "frame_interval (media t) = 1000000000 div sel_rate sel"
    "negotiated_framerate t = sel_rate sel" "pad_caps t = sel_best sel"
    "deliverable_caps t = Some (sel_ladder sel)" "uvc_dev t = uvc_dev s"
    unfolding t by (simp_all add: s0_def)
qed

subsection \<open>Properties\<close>

text \<open>
  Claim C10. Negotiation takes the best mode the camera and the peer share, for a camera whose frame areas
  fit the \<open>gint\<close> they are computed in (\<open>areas_fit\<close>; the two sizes are 16 bits each): the negotiated
  geometry, codec and caps are those of one descriptor that survived the quirk filter and that
  the peer accepts, no other such descriptor has a larger area, the rate is the one of the
  fixated caps and positive, the frame interval is \<open>10\<^sup>9\<close> divided by it, and the published ladder
  holds exactly what was offered.
\<close>
theorem negotiate_best_mode:
  assumes "negotiate env sr peer formats s = (True, t)" "areas_fit formats"
  shows "deliverable_caps t = Some (ladder_of (offers_of sr formats s)) \<and>
    (\<exists>(h264, fd, cs) \<in> set (offers_of sr formats s).
       can_intersect peer cs \<and>
       negotiated_width (media t) = uint (wWidth fd) \<and>
       negotiated_height (media t) = uint (wHeight fd) \<and>
       frame_format (media t) = (if h264 then UVC_FRAME_FORMAT_H264 else UVC_FRAME_FORMAT_H265) \<and>
       pad_caps t = Some (cs, fixated_rate peer cs (top_rate (hd cs))) \<and>
       negotiated_framerate t = fst (fixated_rate peer cs (top_rate (hd cs))) sdiv
                                snd (fixated_rate peer cs (top_rate (hd cs))) \<and>
       0 < negotiated_framerate t \<and>
       frame_interval (media t) = 1000000000 div negotiated_framerate t \<and>
       (\<forall>(h', fd', cs') \<in> set (offers_of sr formats s).
          can_intersect peer cs' \<longrightarrow> area fd' \<le> area fd))"
proof -
  define sel where "sel = snd (select_mode sr peer formats s)"
  note n = negotiate_success [OF assms(1), folded sel_def]
  have p: "picked peer (offers_of sr formats s) sel"
    unfolding sel_def by (rule select_mode_picked [OF assms(2)])
  then obtain h fd cs where o: "(h, fd, cs) \<in> set (offers_of sr formats s)"
      and c: "chosen peer (h, fd, cs) sel"
    using n(4) by (auto simp: picked_def)
  have a: "sel_width sel * sel_height sel = area fd" using c by (simp add: chosen_def area_def)
  have "deliverable_caps t = Some (ladder_of (offers_of sr formats s))"
    using n(11) p by (simp add: picked_def)
  moreover have "\<forall>(h', fd', cs') \<in> set (offers_of sr formats s).
      can_intersect peer cs' \<longrightarrow> area fd' \<le> area fd"
    using p a by (simp add: picked_def)
  ultimately show ?thesis
    using c n by (intro conjI bexI [OF _ o]) (simp_all add: chosen_def)
qed


definition demo_formats :: "format_desc list" where
  \<comment> \<open>4K at 60 and 30, full HD at 60, and a format the element does not stream\<close>
  "demo_formats =
     [\<lparr>fourcc = ''MJPG'', frame_descs = [\<lparr>wWidth = 7680, wHeight = 4320, intervals = Some [333333],
         dwMinFrameInterval = 0, dwMaxFrameInterval = 0\<rparr>]\<rparr>,
      \<lparr>fourcc = ''H264'', frame_descs =
        [\<lparr>wWidth = 1920, wHeight = 1080, intervals = Some [166666],
           dwMinFrameInterval = 0, dwMaxFrameInterval = 0\<rparr>,
         \<lparr>wWidth = 3840, wHeight = 2160, intervals = Some [166666, 333333],
           dwMinFrameInterval = 0, dwMaxFrameInterval = 0\<rparr>]\<rparr>]"

definition demo_peer :: peer_caps where
  \<comment> \<open>takes every mode that has a rate, and its first rate\<close>
  "demo_peer =
     \<lparr>can_intersect = (\<lambda>cs. case cs of
        s # _ \<Rightarrow> (case rates_of (framerate s) of GFraction n d # _ \<Rightarrow> True | _ \<Rightarrow> False)
      | [] \<Rightarrow> False),
      fixated_rate = (\<lambda>cs fps. case rates_of (framerate (hd cs)) of
        GFraction n d # _ \<Rightarrow> (n, d) | _ \<Rightarrow> (0, 1))\<rparr>"

definition demo_capped :: elem where
  \<comment> \<open>started on the camera of the quirk table\<close>
  "demo_capped = demo_elem\<lparr>uvc_devh := Some 7,
     uvc_dev := Some (demo_device\<lparr>dev_descriptor :=
       Some \<lparr>idVendor = 0x2ca3, idProduct = 0x0023, serialNumber = None\<rparr>\<rparr>)\<rparr>"

lemma demo_areas: "areas_fit demo_formats"
  by (simp add: areas_fit_def demo_formats_def area_def)

lemma negotiate_best_mode_witness:
  "negotiated_width (media (snd (negotiate demo_live collect_range demo_peer demo_formats demo_capped)))
   = 3840"
proof -
  obtain r t where n: "negotiate demo_live collect_range demo_peer demo_formats demo_capped = (r, t)"
    by fastforce
  have "fst (negotiate demo_live collect_range demo_peer demo_formats demo_capped)" by code_simp
  then have r: "r" using n by simp
  have os: "map (\<lambda>(h, fd, cs). (wWidth fd, can_intersect demo_peer cs, area fd))
      (offers_of collect_range demo_formats demo_capped) =
      [(1920, True, 2073600), (3840, True, 8294400)]"
    by code_simp
  obtain h fd cs where fd: "(h, fd, cs) \<in> set (offers_of collect_range demo_formats demo_capped)"
      "negotiated_width (media t) = uint (wWidth fd)"
    and best: "\<forall>(h', fd', cs') \<in> set (offers_of collect_range demo_formats demo_capped).
      can_intersect demo_peer cs' \<longrightarrow> area fd' \<le> area fd"
    using negotiate_best_mode [OF _ demo_areas, of demo_live collect_range demo_peer demo_capped t] n r
    by auto
  have "(wWidth fd, can_intersect demo_peer cs, area fd) \<in> {(1920, True, 2073600), (3840, True, 8294400)}"
    using imageI [OF fd(1), of "\<lambda>(h, fd, cs). (wWidth fd, can_intersect demo_peer cs, area fd)"]
    unfolding set_map [symmetric] os by simp
  moreover have "(3840, True, 8294400) \<in> (\<lambda>(h, fd, cs). (wWidth fd, can_intersect demo_peer cs, area fd)) `
      set (offers_of collect_range demo_formats demo_capped)"
    unfolding set_map [symmetric] os by simp
  then have "8294400 \<le> area fd" using best by fastforce
  ultimately show ?thesis using fd(2) n by auto
qed

definition fixates_within :: "peer_caps \<Rightarrow> bool" where
  \<comment> \<open>from caps with a list of rates, fixation takes one of the list\<close>
  "fixates_within peer \<longleftrightarrow>
     (\<forall>s rates fps. can_intersect peer [s] \<longrightarrow> framerate s = Some (GList rates) \<longrightarrow>
        (case fixated_rate peer [s] fps of (num, den) \<Rightarrow> GFraction num den \<in> set rates))"

lemma filter_mode_list:
  assumes "uvc_quirks_filter_caps sr (Some l) (mode_caps h fd (Some (GList vs))) \<noteq> []"
  shows "uvc_quirks_filter_caps sr (Some l) (mode_caps h fd (Some (GList vs))) =
    mode_caps h fd (Some (GList (filter (\<lambda>r. uvc_quirk_mode_selectable (Some l)
      (word_of_int (uint (wWidth fd))) (word_of_int (uint (wHeight fd))) (quirks_fraction_fps r)) vs)))"
proof (cases "no_cap (Some l)")
  case True
  then show ?thesis
    by (simp add: filter_caps_eq uvc_quirk_mode_selectable_def)
next
  case False
  then show ?thesis
    using assms by (simp add: filter_caps_eq mode_caps_def quirks_filter_structure_def filter_rate_def
        List.map_filter_simps Let_def split: if_splits)
qed

lemma offer_discrete:
  assumes "(h, fd, cs) \<in> set (offers sr l is_h264 fds old)" "intervals fd = Some ivs"
  shows "\<exists>rs. cs = mode_caps h fd (Some (GList rs)) \<and>
    (\<forall>r \<in> set rs. (\<exists>n. r = GFraction n 1) \<and>
       uvc_quirk_mode_selectable (Some l) (word_of_int (uint (wWidth fd)))
         (word_of_int (uint (wHeight fd))) (quirks_fraction_fps r))"
  using assms
proof (induction sr l is_h264 fds old rule: offers.induct)
  case (2 sr l is_h264 f fds old)
  show ?case
  proof (cases "frame_rates sr f old")
    case None
    with 2 show ?thesis by simp
  next
    case (Some rates)
    let ?cs = "uvc_quirks_filter_caps sr (Some l) (mode_caps is_h264 f rates)"
    show ?thesis
    proof (cases "(h, fd, cs) \<in> set (offers sr l is_h264 fds rates)")
      case True
      with 2 Some show ?thesis by simp
    next
      case False
      then have o: "(h, fd, cs) = (is_h264, f, ?cs)" "?cs \<noteq> []"
        using 2(3) Some by (auto simp: Let_def split: if_splits)
      then have "rates = Some (GList (map (\<lambda>i. GFraction (fps_of_interval i) 1) ivs))"
        using Some 2(4) by (simp add: frame_rates_def)
      then obtain vs where v: "rates = Some (GList vs)" "\<forall>r \<in> set vs. \<exists>n. r = GFraction n 1"
        by auto
      show ?thesis
      proof (intro exI conjI)
        show "cs = mode_caps h fd (Some (GList (filter (\<lambda>r. uvc_quirk_mode_selectable (Some l)
            (word_of_int (uint (wWidth fd))) (word_of_int (uint (wHeight fd)))
            (quirks_fraction_fps r)) vs)))"
          using o v filter_mode_list [of sr l is_h264 f vs] by (simp del: word_of_int_uint)
      qed (use v(2) in simp)
    qed
  qed
qed simp

text \<open>
  Claim C21. No mode above the limit is negotiated: on a camera whose descriptors list their rates, whatever
  the peer accepts, the geometry and rate that are negotiated pass \<open>uvc_quirk_mode_selectable\<close> for
  the limits of the attached camera (frame areas that fit a \<open>gint\<close>, and fixation that takes one of
  the rates it is given).
\<close>
theorem negotiated_mode_selectable:
  assumes "negotiate env sr peer formats s = (True, t)" "areas_fit formats" "fixates_within peer"
    and "\<forall>f \<in> set formats. \<forall>fd \<in> set (frame_descs f). intervals fd \<noteq> None"
  shows "uvc_quirk_mode_selectable (Some (device_limits (uvc_dev s)))
    (word_of_int (negotiated_width (media t))) (word_of_int (negotiated_height (media t)))
    (word_of_int (negotiated_framerate t))"
proof -
  define sel where "sel = snd (select_mode sr peer formats s)"
  note n = negotiate_success [OF assms(1), folded sel_def]
  have "picked peer (offers_of sr formats s) sel"
    unfolding sel_def by (rule select_mode_picked [OF assms(2)])
  then obtain h fd cs where o: "(h, fd, cs) \<in> set (offers_of sr formats s)"
      and c: "chosen peer (h, fd, cs) sel"
    using n(4) by (auto simp: picked_def)
  obtain f is_h264 where f: "f \<in> set formats"
      "(h, fd, cs) \<in> set (offers sr (device_limits (uvc_dev s)) is_h264 (frame_descs f) None)"
    using o by (auto simp: device_offers_def format_offers_def split: if_splits)
  then obtain ivs where "intervals fd = Some ivs" using assms(4) offer_from_frame by blast
  from offer_discrete [OF f(2) this] obtain rs where cs: "cs = mode_caps h fd (Some (GList rs))"
    and rs: "\<forall>r \<in> set rs. (\<exists>n. r = GFraction n 1) \<and>
      uvc_quirk_mode_selectable (Some (device_limits (uvc_dev s))) (word_of_int (uint (wWidth fd)))
        (word_of_int (uint (wHeight fd))) (quirks_fraction_fps r)" by blast
  obtain num den where fx: "fixated_rate peer cs (top_rate (hd cs)) = (num, den)" by fastforce
  have "can_intersect peer cs" using c by (simp add: chosen_def)
  moreover obtain g where g: "cs = [g]" "framerate g = Some (GList rs)"
    by (simp add: cs mode_caps_def)
  ultimately have m: "GFraction num den \<in> set rs"
    using assms(3) [unfolded fixates_within_def, rule_format, of g rs "top_rate (hd cs)"] fx by simp
  with rs have "den = 1" by auto
  moreover have r: "sel_rate sel = num sdiv den" using c fx by (simp add: chosen_def)
  ultimately have "quirks_fraction_fps (GFraction num den) = word_of_int (sel_rate sel)"
    using n(3) by (simp add: quirks_fraction_fps_def fps_of_def)
  moreover have "uvc_quirk_mode_selectable (Some (device_limits (uvc_dev s)))
      (word_of_int (uint (wWidth fd))) (word_of_int (uint (wHeight fd)))
      (quirks_fraction_fps (GFraction num den))"
    using rs m by blast
  moreover have "negotiated_width (media t) = uint (wWidth fd)"
      "negotiated_height (media t) = uint (wHeight fd)" "negotiated_framerate t = sel_rate sel"
    using c n(5,6,9) by (simp_all add: chosen_def)
  ultimately show ?thesis by (simp only:)
qed

lemma negotiated_mode_selectable_witness:
  "uvc_quirk_mode_selectable (Some (uvc_quirks_limits 0x2ca3 0x0023)) 3840 2160 30"
proof -
  obtain r t where n: "negotiate demo_live collect_range demo_peer demo_formats demo_capped = (r, t)"
    by fastforce
  have "(\<lambda>(r, t). (r, negotiated_width (media t), negotiated_height (media t), negotiated_framerate t))
      (negotiate demo_live collect_range demo_peer demo_formats demo_capped) = (True, 3840, 2160, 30)"
    by code_simp
  then have v: "r" "negotiated_width (media t) = 3840" "negotiated_height (media t) = 2160"
      "negotiated_framerate t = 30" using n by simp_all
  have l: "device_limits (uvc_dev demo_capped) = uvc_quirks_limits 0x2ca3 0x0023" by code_simp
  have "fixates_within demo_peer"
    by (auto simp: fixates_within_def demo_peer_def split: list.splits gvalue.splits)
  moreover have "\<forall>f \<in> set demo_formats. \<forall>fd \<in> set (frame_descs f). intervals fd \<noteq> None"
    by (simp add: demo_formats_def)
  ultimately show ?thesis
    using negotiated_mode_selectable [of demo_live collect_range demo_peer demo_formats demo_capped t]
      n v l demo_areas by simp
qed


lemma get_ctrl_facts [simp]:
  "fst (get_stream_ctrl env w h f s) =
     fst (env_get_ctrl env (calls s) (uvc_devh s) (frame_format (media s)) w h f)"
  "calls (snd (get_stream_ctrl env w h f s)) = calls s @ [Ev_get_ctrl (uvc_devh s)]"
  "max_payload_effective (snd (get_stream_ctrl env w h f s)) = max_payload_effective s"
  "uvc_devh (snd (get_stream_ctrl env w h f s)) = uvc_devh s"
  "media (snd (get_stream_ctrl env w h f s)) = media s"
  by (simp_all add: get_stream_ctrl_def log_call_def split_beta)

lemma probe_calls:
  defines "G \<equiv> \<lambda>s. Ev_get_ctrl (uvc_devh s)"
  shows "calls (snd (probe_stream_ctrl env w h f PROBE_POLICY_RETRY s)) =
    calls s @ (if fst (env_get_ctrl env (calls s) (uvc_devh s) (frame_format (media s)) w h f) =
                 UVC_ERROR_INVALID_MODE then [G s, G s] else [G s])"
    "max_payload_effective (snd (probe_stream_ctrl env w h f PROBE_POLICY_RETRY s)) =
       max_payload_effective s"
    "fst (probe_stream_ctrl env w h f PROBE_POLICY_RETRY s) =
       (if fst (env_get_ctrl env (calls s) (uvc_devh s) (frame_format (media s)) w h f) =
          UVC_ERROR_INVALID_MODE
        then fst (env_get_ctrl env (calls s @ [G s]) (uvc_devh s) (frame_format (media s)) w h f)
        else fst (env_get_ctrl env (calls s) (uvc_devh s) (frame_format (media s)) w h f))"
  by (simp_all add: probe_stream_ctrl_def G_def split_beta)

definition mode_found :: "selection \<Rightarrow> bool" where
  \<comment> \<open>the selection holds a mode with a geometry and a positive rate\<close>
  "mode_found sel \<longleftrightarrow>
     0 \<le> sel_width sel \<and> 0 \<le> sel_height sel \<and> 0 < sel_rate sel \<and> sel_best sel \<noteq> None"

text \<open>
  Claim C22. A refused negotiation changes only this: the ladder is still published, \<open>frame_format\<close> is
  the codec of the selection, a message is posted exactly when the camera has no H.264 or H.265
  format, and the camera is asked if and only if a mode was found, once, or twice when its first
  answer was \<open>UVC_ERROR_INVALID_MODE\<close>; then its last answer was an error and the payload of the
  control block is what it left there. No other field changes, the negotiated geometry, rate and
  caps among them.
\<close>
theorem negotiate_refusal:
  fixes s :: elem and env :: uvc_env
  assumes "negotiate env sr peer formats s = (False, t)"
  defines "sel \<equiv> snd (select_mode sr peer formats s)"
    and "codec \<equiv> \<exists>f \<in> set formats. is_codec f"
    and "ask \<equiv> Ev_get_ctrl (uvc_devh s)"
  defines "answer \<equiv> \<lambda>h. fst (env_get_ctrl env h (uvc_devh s) (sel_format sel) (sel_width sel)
    (sel_height sel) (sel_rate sel))"
  shows "\<exists>p. t = s\<lparr>media := (media s)\<lparr>frame_format := sel_format sel\<rparr>, ctrl_payload := p,
      deliverable_caps := Some (ladder_of (offers_of sr formats s)),
      calls := calls s @ (if \<not> (codec \<and> mode_found sel) then []
        else if answer (calls s) = UVC_ERROR_INVALID_MODE then [ask, ask] else [ask]),
      messages := (if codec then messages s else post_error UVC_ERROR_NOT_SUPPORTED
        (Some ''negotiating caps: device exposes no H264/H265 format'') (messages s))\<rparr> \<and>
    (if codec \<and> mode_found sel
     then (if answer (calls s) = UVC_ERROR_INVALID_MODE then answer (calls s @ [ask])
           else answer (calls s)) \<noteq> UVC_SUCCESS
     else p = ctrl_payload s)"
proof -
  define s0 where "s0 = s\<lparr>media := (media s)\<lparr>frame_format := sel_format sel\<rparr>\<rparr>"
  have f: "select_mode sr peer formats s = (codec, sel)"
    by (simp add: prod_eq_iff sel_def codec_def select_mode_ladder(1))
  have l: "sel_ladder sel = ladder_of (offers_of sr formats s)"
    unfolding sel_def by (rule select_mode_ladder(2))
  obtain res t1 where r: "probe_stream_ctrl env (sel_width sel) (sel_height sel) (sel_rate sel)
      PROBE_POLICY_RETRY s0 = (res, t1)" by fastforce
  obtain c p e where t1: "t1 = s0\<lparr>calls := c, ctrl_payload := p, max_payload_effective := e\<rparr>"
    using probe_effect [of s0 env] r unfolding payload_update_def by (metis snd_conv)
  have e: "e = max_payload_effective s"
    using probe_calls(2) [of env "sel_width sel" "sel_height sel" "sel_rate sel" s0] r t1
    by (simp add: s0_def)
  have c: "c = calls s @ (if answer (calls s) = UVC_ERROR_INVALID_MODE then [ask, ask] else [ask])"
    using probe_calls(1) [of env "sel_width sel" "sel_height sel" "sel_rate sel" s0] r t1
    by (simp add: s0_def ask_def answer_def)
  have res: "res = (if answer (calls s) = UVC_ERROR_INVALID_MODE then answer (calls s @ [ask])
      else answer (calls s))"
    using probe_calls(3) [of env "sel_width sel" "sel_height sel" "sel_rate sel" s0] r
    by (simp add: s0_def ask_def answer_def)
  obtain u where n: "negotiate env sr peer formats s =
      (if \<not> codec then (False, (s0\<lparr>messages := post_error UVC_ERROR_NOT_SUPPORTED
          (Some ''negotiating caps: device exposes no H264/H265 format'') (messages s0)\<rparr>)
          \<lparr>deliverable_caps := Some (sel_ladder sel)\<rparr>)
       else if sel_width sel < 0 \<or> sel_height sel < 0 \<or> sel_rate sel \<le> 0 \<or> sel_best sel = None
       then (False, s0\<lparr>deliverable_caps := Some (sel_ladder sel)\<rparr>)
       else if res \<noteq> UVC_SUCCESS then (False, t1\<lparr>deliverable_caps := Some (sel_ladder sel)\<rparr>)
       else (True, u))"
    unfolding negotiate_def f Let_def prod.case s0_def [symmetric] r by (simp cong: if_cong)
  consider (none) "\<not> codec" "t = (s0\<lparr>messages := post_error UVC_ERROR_NOT_SUPPORTED
        (Some ''negotiating caps: device exposes no H264/H265 format'') (messages s0)\<rparr>)
        \<lparr>deliverable_caps := Some (sel_ladder sel)\<rparr>"
    | (nothing) "codec" "\<not> mode_found sel" "t = s0\<lparr>deliverable_caps := Some (sel_ladder sel)\<rparr>"
    | (probe) "codec" "mode_found sel" "res \<noteq> UVC_SUCCESS"
        "t = t1\<lparr>deliverable_caps := Some (sel_ladder sel)\<rparr>"
    using trans [OF n [symmetric] assms(1)] by (auto simp: mode_found_def split: if_splits)
  then show ?thesis
  proof cases
    case none
    then show ?thesis by (intro exI [of _ "ctrl_payload s"]) (simp add: l s0_def)
  next
    case nothing
    then show ?thesis by (intro exI [of _ "ctrl_payload s"]) (simp add: l s0_def)
  next
    case probe
    show ?thesis using probe(1,2,3) unfolding probe(4) t1 res
      by (intro exI [of _ p]) (simp add: l s0_def e c)
  qed
qed

lemma negotiate_refusal_witness:
  "\<exists>t. negotiate demo_live collect_range demo_peer (take 1 demo_formats) demo_capped = (False, t) \<and>
     deliverable_caps t = Some [] \<and> map code (messages t) = [RESOURCE_SETTINGS]"
proof -
  obtain r t where n: "negotiate demo_live collect_range demo_peer (take 1 demo_formats) demo_capped = (r, t)"
    by fastforce
  have "fst (negotiate demo_live collect_range demo_peer (take 1 demo_formats) demo_capped) = False"
    by code_simp
  then have r: "r = False" using n by simp
  have "ladder_of (offers_of collect_range (take 1 demo_formats) demo_capped) = []"
    "\<not> (\<exists>f \<in> set (take 1 demo_formats). is_codec f)" "messages demo_capped = []"
    by code_simp+
  then show ?thesis
    using negotiate_refusal [OF n [unfolded r]] n r by (simp add: post_error_def)
qed

end
