(* ===== verification/StreamOverrides.thy ===== *)
theory StreamOverrides
  imports ModeChoice
begin

text \<open>
  The two opt-in USB overrides: what \<open>max-payload\<close> and \<open>transfer-buffers\<close> do to the stream that is
  about to start, and what the element then reports about them.
\<close>

definition payload_request :: "u32 \<Rightarrow> u32" where
  \<comment> \<open>a request moved to the nearer end of the band from 512 bytes to 4 MiB\<close>
  "payload_request n = (if n < 512 then 512 else if 4194304 < n then 4194304 else n)"

lemma clamp_request: "clamp_u32 MAX_PAYLOAD_MIN_LEGAL MAX_PAYLOAD_MAX n = payload_request n"
  by (auto simp: clamp_u32_def Let_def payload_request_def MAX_PAYLOAD_MIN_LEGAL_def MAX_PAYLOAD_MAX_def)

text \<open>
  Claim C36. The payload override is a hint: with the default of zero the camera is not touched and
  the payload of the control block is the effective one; a request is moved to the nearer end of
  its band and probed once; a camera that commits exactly that streams with it; any other answer
  leads to exactly one negotiation without the override, whose payload is taken and becomes the
  effective one if it succeeds, and the effective one stays as it was if it fails. The property
  reads the effective payload when there is one, and the request otherwise.
\<close>
theorem max_payload_is_a_hint:
  fixes s :: elem and env :: uvc_env and w h f :: int
  defines "t \<equiv> apply_max_payload env w h f s"
    and "asked \<equiv> calls s @ [Ev_probe (uvc_devh s)]"
    and "c \<equiv> payload_request (max_payload s)"
  shows "(if max_payload s = 0
      then calls t = calls s \<and> ctrl_payload t = ctrl_payload s \<and> max_payload_effective t = ctrl_payload s
      else if env_probe env (calls s) (uvc_devh s) c = (UVC_SUCCESS, c)
      then calls t = asked \<and> ctrl_payload t = c \<and> max_payload_effective t = c
      else calls t = asked @ [Ev_get_ctrl (uvc_devh s)] \<and>
        (case env_get_ctrl env asked (uvc_devh s) (frame_format (media s)) w h f of
           (res, v) \<Rightarrow> ctrl_payload t = v \<and>
             max_payload_effective t = (if res = UVC_SUCCESS then v else max_payload_effective s))) \<and>
    max_payload t = max_payload s \<and>
    src_get_property ID_MAX_PAYLOAD t =
      V_uint (if 0 < max_payload_effective t then max_payload_effective t else max_payload s)"
proof (cases "max_payload s = 0")
  case True
  then show ?thesis by (simp add: t_def apply_max_payload_def)
next
  case False
  obtain res committed where p: "env_probe env (calls s) (uvc_devh s) c = (res, committed)" by fastforce
  define s1 where "s1 = (log_call (Ev_probe (uvc_devh s)) s)\<lparr>ctrl_payload := committed\<rparr>"
  obtain g v where g: "env_get_ctrl env asked (uvc_devh s) (frame_format (media s)) w h f = (g, v)"
    by fastforce
  have s1: "calls s1 = asked" "uvc_devh s1 = uvc_devh s" "media s1 = media s" "ctrl_payload s1 = committed"
      "max_payload_effective s1 = max_payload_effective s" "max_payload s1 = max_payload s"
    by (simp_all add: s1_def asked_def log_call_def)
  have n: "snd (negotiate_clean_payload env w h f s1) =
      s1\<lparr>calls := asked @ [Ev_get_ctrl (uvc_devh s)], ctrl_payload := v,
         max_payload_effective := (if g = UVC_SUCCESS then v else max_payload_effective s)\<rparr>"
    by (simp add: negotiate_clean_payload_def get_stream_ctrl_def s1 g log_call_def)
  have t: "t = (if res \<noteq> UVC_SUCCESS \<or> committed \<noteq> c
      then s1\<lparr>calls := asked @ [Ev_get_ctrl (uvc_devh s)], ctrl_payload := v,
         max_payload_effective := (if g = UVC_SUCCESS then v else max_payload_effective s)\<rparr>
      else s1\<lparr>max_payload_effective := committed\<rparr>)"
    unfolding t_def apply_max_payload_def Let_def clamp_request c_def [symmetric] p prod.case
      s1_def [symmetric] n
    using False by simp
  then show ?thesis using False by (auto simp: p g s1)
qed

text \<open>
  The reported transfer-buffer count outlives the setting: once a count has been applied, setting
  the property back to zero and starting the next stream makes no call, so libuvc uses its own
  count, while the property still reads the old one.
\<close>
theorem transfer_buffers_report_stale:
  fixes env :: uvc_env
  assumes "0 < transfer_buffers_effective s"
  defines "t \<equiv> apply_transfer_buffers env (src_set_property env (PROP_TRANSFER_BUFFERS 0) s)"
  shows "calls t = calls s \<and> transfer_buffers t = 0 \<and>
    src_get_property ID_TRANSFER_BUFFERS t = V_uint (transfer_buffers_effective s)"
  using assms by (simp add: apply_transfer_buffers_def)

lemma transfer_buffers_report_stale_witness:
  "src_get_property ID_TRANSFER_BUFFERS (apply_transfer_buffers demo_live
     (src_set_property demo_live (PROP_TRANSFER_BUFFERS 0)
       (apply_transfer_buffers demo_live (demo_elem\<lparr>transfer_buffers := 20\<rparr>)))) = V_uint 20"
proof -
  have "transfer_buffers_effective (apply_transfer_buffers demo_live (demo_elem\<lparr>transfer_buffers := 20\<rparr>)) = 20"
    by code_simp
  then show ?thesis
    using transfer_buffers_report_stale
      [of "apply_transfer_buffers demo_live (demo_elem\<lparr>transfer_buffers := 20\<rparr>)" demo_live] by simp
qed

end
