(* ===== verification/RecoverySteps.thy ===== *)
theory RecoverySteps
  imports HandleProtocol
begin

text \<open>
  What the steps of a recovery leave alone. \<open>reopening\<close> is the interface of a relation between
  the element before and after: closed under the calls and the field updates that a reopen is
  made of, \<open>reopening_any\<close> adds the mark of a loop out of fuel. \<open>waiting\<close> adds the three steps at
  which other threads act, for one environment, and gives the relation for the reconnect ladder
  and the settle loop; \<open>silent_handling\<close> adds the resets and gives it for all of
  \<open>handle_silence\<close>; \<open>creating\<close> adds the queue pop and the bookkeeping of \<open>create\<close> and gives it for
  \<open>create\<close>. \<open>blocking\<close> and \<open>recovering\<close> are for relations that do not care what the
  environment does: there the laws are about single queue updates, and \<open>recovering\<close> is a
  \<open>waiting\<close> for every environment. Every loop of the recovery is in such a relation, once and for
  all; the relations are then given as interpretations:
  \<open>steady\<close>, which says that configuration, episode flags and messages are untouched and no port
  was reset, \<open>same_waits\<close>, which says that a reopen does not wait, and \<open>stays_fresh\<close>, which says
  that no flush sentinel outlives its flush and the parameter-set arrays keep their bounds.
\<close>

subsection \<open>The interfaces\<close>

fun reopen_event :: "uvc_event \<Rightarrow> bool" where
  "reopen_event (Ev_resolved d) = True"
| "reopen_event (Ev_unref d) = True"
| "reopen_event (Ev_open d h) = True"
| "reopen_event (Ev_close h) = True"
| "reopen_event (Ev_get_ctrl h) = True"
| "reopen_event (Ev_probe h) = True"
| "reopen_event (Ev_set_buffers h n) = True"
| "reopen_event (Ev_start h b) = True"
| "reopen_event (Ev_stop h) = True"
| "reopen_event Ev_now = True"
| "reopen_event e = False"

locale reopening =
  fixes R :: "elem \<Rightarrow> elem \<Rightarrow> bool"
  assumes R_refl: "R s s"
    and R_trans: "R s t \<Longrightarrow> R t u \<Longrightarrow> R s u"
    and R_log: "reopen_event e \<Longrightarrow> R s (log_call e s)"
    and R_unlock: "R s (src_unlock s)"
    and R_empty: "R s (set_queue [] s)"
    and R_devh: "R s (s\<lparr>uvc_devh := h\<rparr>)"
    and R_dev: "R s (s\<lparr>uvc_dev := d\<rparr>)"
    and R_streaming: "R s (s\<lparr>streaming := b\<rparr>)"
    and R_ctrl: "R s (s\<lparr>ctrl_payload := n\<rparr>)"
    and R_payload: "R s (s\<lparr>max_payload_effective := n\<rparr>)"
    and R_buffers: "R s (s\<lparr>transfer_buffers_effective := n\<rparr>)"
    and R_rearm: "R s (rearm_stream s)"
begin

lemmas R_update =
  R_trans [OF _ R_log]
  R_trans [OF _ R_devh] R_trans [OF _ R_dev] R_trans [OF _ R_streaming] R_trans [OF _ R_ctrl]
  R_trans [OF _ R_payload] R_trans [OF _ R_buffers]

lemma R_now: "monotonic_now env s = (n, s') \<Longrightarrow> R s s'"
  using R_log [of Ev_now s] by (auto simp: monotonic_now_def)

lemma R_check: "check_deadline env d s = (b, s') \<Longrightarrow> R s s'"
  unfolding check_deadline_def
  by (cases "d = 0"; cases "monotonic_now env s") (auto intro: R_refl R_now)

lemma R_deadline: "settle_deadline env ms s = (d, s') \<Longrightarrow> R s s'"
  unfolding settle_deadline_def by (cases "monotonic_now env s") (auto intro: R_now)

lemma R_drain: "R s (drain_queue s)"
  unfolding drain_queue_def by (rule R_empty)

lemma R_resolved:
  assumes "resolve_in env fuel sel d s = (r, ef, s')"
    "resolve_device (poll_env_of env s) sel d fuel \<noteq> None"
  shows "R s s'"
  using R_log [of "Ev_resolved (map_option snd r)" s] assms
    R_trans [OF R_log R_unlock, of "Ev_resolved (map_option snd r)" s]
  by (auto simp: resolve_in_def Let_def split: option.splits if_splits)

lemma R_get: "get_stream_ctrl env w h f s = (r, s') \<Longrightarrow> R s s'"
  using R_trans [OF R_log R_ctrl, of "Ev_get_ctrl (uvc_devh s)" s]
  by (auto simp: get_stream_ctrl_def split: prod.splits)

lemma R_clean: "negotiate_clean_payload env w h f s = (b, s') \<Longrightarrow> R s s'"
  using R_get [of env w h f s] R_trans [OF _ R_payload]
  by (auto simp: negotiate_clean_payload_def split: prod.splits if_splits)

lemma R_max_payload: "R s (apply_max_payload env w h f s)"
proof (cases "max_payload s = 0")
  case True
  then show ?thesis using R_payload by (simp add: apply_max_payload_def)
next
  case False
  define cl where "cl = clamp_u32 MAX_PAYLOAD_MIN_LEGAL MAX_PAYLOAD_MAX (max_payload s)"
  obtain res com where e: "env_probe env (calls s) (uvc_devh s) cl = (res, com)" by fastforce
  define s1 where "s1 = (log_call (Ev_probe (uvc_devh s)) s)\<lparr>ctrl_payload := com\<rparr>"
  have 1: "R s s1" unfolding s1_def by (intro R_update R_refl) simp
  obtain b s2 where n: "negotiate_clean_payload env w h f s1 = (b, s2)" by fastforce
  have "apply_max_payload env w h f s =
      (if res \<noteq> UVC_SUCCESS \<or> com \<noteq> cl then s2 else s1\<lparr>max_payload_effective := com\<rparr>)"
    using False e n by (simp add: apply_max_payload_def Let_def cl_def s1_def)
  then show ?thesis using R_trans [OF 1 R_clean [OF n]] R_trans [OF 1 R_payload] by simp
qed

lemma R_transfer_buffers: "R s (apply_transfer_buffers env s)"
  by (auto simp: apply_transfer_buffers_def Let_def intro!: R_update R_refl)

lemma R_start: "start_streaming env s = (r, s') \<Longrightarrow> R s s'"
  using R_log [of "Ev_start (uvc_devh s) (r = UVC_SUCCESS)" s] by (auto simp: start_streaming_def Let_def)

lemma R_begin:
  assumes "begin_streaming env s = (r, s')" "\<And>t. R t (rebaseline t)"
    "\<And>t ms. R t (t\<lparr>messages := ms\<rparr>)"
  shows "R s s'"
proof -
  define s1 where "s1 = apply_transfer_buffers env ((rebaseline s)\<lparr>streaming := True\<rparr>)"
  have 1: "R s s1" unfolding s1_def
    by (rule R_trans [OF assms(2)], rule R_trans [OF R_streaming], rule R_transfer_buffers)
  obtain res s2 where st: "start_streaming env s1 = (res, s2)" by fastforce
  obtain clean s3 where cl: "(if max_payload s2 > 0
      then negotiate_clean_payload env (negotiated_width (media s2)) (negotiated_height (media s2))
             (negotiated_framerate s2) s2 else (False, s2)) = (clean, s3)" by fastforce
  obtain res2 s4 where st2: "(if clean then start_streaming env s3 else (res, s3)) = (res2, s4)"
    by fastforce
  have 2: "R s s2" using R_trans [OF 1 R_start [OF st]] .
  have 3: "R s s3" using cl R_trans [OF 2 R_clean] 2 by (auto split: if_splits)
  have 4: "R s s4" using st2 R_trans [OF 3 R_start] 3 by (auto split: if_splits)
  have "begin_streaming env s =
      (if res = UVC_SUCCESS then (res, s2)
       else if res2 = UVC_SUCCESS then (res2, s4)
       else (res2, s4\<lparr>streaming := False,
               messages := post_error res2 (Some ''starting UVC stream'') (messages s4)\<rparr>))"
    unfolding begin_streaming_def Let_def s1_def [symmetric] st prod.case cl st2 by simp
  then show ?thesis
    using assms(1) 2 4 R_trans [OF R_trans [OF 4 R_streaming] assms(3)] by (auto split: if_splits)
qed

lemma R_close: "R s (close_and_unref s)"
  unfolding close_and_unref_def by (intro R_update R_refl) simp_all

lemma R_teardown: "R s (teardown_handle s)"
  unfolding teardown_handle_def Let_def by (auto intro!: R_update R_refl)

lemma R_reopened:
  assumes "reopen_once env fuel sel deadline s = (b, s')"
    "resolve_device (poll_env_of env s) sel deadline fuel \<noteq> None"
  shows "R s s'"
proof -
  obtain r ef s1 where r: "resolve_in env fuel sel deadline s = (r, ef, s1)" by (metis prod_cases3)
  have 1: "R s s1" using R_resolved [OF r assms(2)] .
  show ?thesis
  proof (cases r)
    case None
    then show ?thesis using assms(1) r 1 by (simp add: reopen_once_def)
  next
    case (Some p)
    obtain i d where p: "p = (i, d)" by fastforce
    note r = r [unfolded Some p]
    obtain l s2 where l: "check_deadline env deadline s1 = (l, s2)" by fastforce
    have 2: "R s s2" using R_trans [OF 1 R_check [OF l]] .
    show ?thesis
    proof (cases "l \<or> (\<exists>e. env_open env (calls s2) d = Inl e)")
      case True
      then have "s' = log_call (Ev_unref (Some d)) s2 \<or>
          s' = log_call (Ev_unref (Some d)) ((log_call (Ev_open d None) s2)\<lparr>uvc_devh := None\<rparr>)"
        using assms(1) r l by (cases l) (auto simp: reopen_once_def)
      then show ?thesis using 2 by (auto intro!: R_update)
    next
      case False
      then obtain h where h: "env_open env (calls s2) d = Inr h" and lf: "l = False"
        by (cases "env_open env (calls s2) d") auto
      note l = l [unfolded lf]
      define s3 where "s3 = (log_call (Ev_open d (Some h)) s2)\<lparr>uvc_devh := Some h, uvc_dev := Some d\<rparr>"
      define m where "m = media s3"
      have 3: "R s s3" unfolding s3_def by (intro R_update 2) simp
      define prep where "prep = (\<lambda>s5. apply_transfer_buffers env (rearm_stream
          (apply_max_payload env (negotiated_width m) (negotiated_height m)
             (negotiated_framerate s3) s5)))"
      have un: "reopen_once env fuel sel deadline s =
          (case check_deadline env deadline s3 of (l2, s4) \<Rightarrow>
            (case (if l2 then (UVC_SUCCESS, s4)
                   else get_stream_ctrl env (negotiated_width m) (negotiated_height m)
                          (negotiated_framerate s3) s4) of (res, s5) \<Rightarrow>
               if l2 \<or> res \<noteq> UVC_SUCCESS then (False, close_and_unref s5)
               else (case check_deadline env deadline (prep s5) of (l3, s8) \<Rightarrow>
                 (case (if l3 then (UVC_SUCCESS, s8) else start_streaming env s8) of (res2, s9) \<Rightarrow>
                    if l3 \<or> res2 \<noteq> UVC_SUCCESS then (False, close_and_unref s9)
                    else (True, s9\<lparr>streaming := True\<rparr>)))))"
        unfolding reopen_once_def r l h prod.case option.case sum.case bool.case Let_def
          s3_def m_def prep_def ..
      obtain l2 s4 where l2: "check_deadline env deadline s3 = (l2, s4)" by fastforce
      obtain res s5 where g: "(if l2 then (UVC_SUCCESS, s4)
          else get_stream_ctrl env (negotiated_width m) (negotiated_height m)
                 (negotiated_framerate s3) s4) = (res, s5)" by fastforce
      have 5: "R s s5"
        using g R_trans [OF 3 R_check [OF l2]] R_get R_trans by (auto split: if_splits)
      obtain l3 s8 where l3: "check_deadline env deadline (prep s5) = (l3, s8)" by fastforce
      have "R s (prep s5)" unfolding prep_def
        by (rule R_trans [OF 5], rule R_trans [OF R_max_payload], rule R_trans [OF R_rearm],
            rule R_transfer_buffers)
      then have 8: "R s s8" using R_trans [OF _ R_check [OF l3]] by blast
      obtain res2 s9 where t: "(if l3 then (UVC_SUCCESS, s8) else start_streaming env s8) =
          (res2, s9)" by fastforce
      have 9: "R s s9" using t 8 R_start R_trans by (auto split: if_splits)
      have "s' \<in> {close_and_unref s5, close_and_unref s9, s9\<lparr>streaming := True\<rparr>}"
        using assms(1) unfolding un l2 prod.case g l3 t by (auto split: if_splits)
      then show ?thesis using R_trans [OF 5 R_close] R_trans [OF 9 R_close] R_trans [OF 9 R_streaming] by auto
    qed
  qed
qed

end

locale reopening_any = reopening +
  assumes R_stuck: "R s (s\<lparr>stuck := True\<rparr>)"
begin

lemma R_reopen:
  assumes "reopen_once env fuel sel deadline s = (b, s')"
  shows "R s s'"
proof (cases "resolve_device (poll_env_of env s) sel deadline fuel")
  case None
  then have "s' = s\<lparr>stuck := True\<rparr>" using assms by (simp add: reopen_once_def resolve_in_def)
  then show ?thesis using R_stuck by simp
next
  case (Some r)
  then show ?thesis using R_reopened [OF assms] by simp
qed

lemma R_resolve:
  assumes "resolve_in env fuel sel d s = (r, ef, s')"
  shows "R s s'"
proof (cases "resolve_device (poll_env_of env s) sel d fuel")
  case None
  then show ?thesis using assms R_stuck by (auto simp: resolve_in_def)
next
  case (Some r)
  then show ?thesis using R_resolved [OF assms] by simp
qed

end

locale blocking = reopening +
  assumes R_waits: "R s (log_call (Ev_wait t) s)"
    and R_pops: "R s (log_call Ev_pop s)"
    and R_frames: "R s (set_queue (queue_of s @ map Frame fs) s)"
    and R_take: "queue_of s = i # q \<Longrightarrow> R s (set_queue q s)"
    and R_back: "R s (set_queue (Frame b # queue_of s) s)"
    and R_exits: "R s (log_call (Ev_exit c) s)"
    and R_inits: "R s (log_call (Ev_init c) s)"
    and R_ctx: "R s (s\<lparr>uvc_ctx := c\<rparr>)"
begin

lemma R_interfere: "R s (interfere env s)"
  unfolding interfere_def Let_def using R_frames R_trans [OF R_frames R_unlock] by simp

lemma R_wait: "interruptible_wait env us s = (b, s') \<Longrightarrow> R s s'"
  using R_trans [OF R_interfere R_waits] R_refl
  by (auto simp: interruptible_wait_def Let_def split: if_splits)

lemma R_pop: "timeout_pop env s = (i, s') \<Longrightarrow> R s s'"
proof -
  define s1 where "s1 = log_call Ev_pop (if queue_of s = [] then interfere env s else s)"
  have 1: "R s s1" unfolding s1_def using R_pops R_trans [OF R_interfere R_pops] by simp
  assume "timeout_pop env s = (i, s')"
  then have "s' = s1 \<or> (\<exists>i q. queue_of s1 = i # q \<and> s' = set_queue q s1)"
    by (auto simp: timeout_pop_def Let_def s1_def split: list.splits)
  then show ?thesis using 1 R_trans [OF 1 R_take] by auto
qed

lemma R_reinit: "reinit_context env s = (b, s') \<Longrightarrow> R s s'"
  using R_trans [OF R_trans [OF R_exits R_ctx] R_trans [OF R_inits R_ctx]]
  by (auto simp: reinit_context_def Let_def)

end

locale waiting = reopening_any R for R +
  fixes env :: uvc_env
  assumes W_wait: "interruptible_wait env us s = (b, s') \<Longrightarrow> R s s'"
    and W_await: "await_first_frame env fuel us s = (b, s') \<Longrightarrow> R s s'"
    and W_reinit: "reinit_context env s = (b, s') \<Longrightarrow> R s s'"
begin

lemma R_reconnect_loop: "reconnect_loop env fuel sel a n s = (b, s') \<Longrightarrow> R s s'"
proof (induction n arbitrary: a s)
  case 0
  then show ?case using R_refl by simp
next
  case (Suc n)
  obtain w s1 where w: "interruptible_wait env (backoff_wait_us a) s = (w, s1)" by fastforce
  obtain r s2 where r: "reopen_once env fuel sel 0 s1 = (r, s2)" by fastforce
  have "R s s1" "R s s2" using W_wait [OF w] R_reopen [OF r] R_trans by blast+
  with Suc w r R_trans show ?case by (auto split: bool.splits)
qed

lemma R_reconnect: "reconnect_bounded env fuel n s = (b, s') \<Longrightarrow> R s s'"
  using R_refl R_trans [OF R_teardown R_trans [OF R_drain R_reconnect_loop]]
  by (auto simp: reconnect_bounded_def split: sum.splits)

lemma R_settle_loop: "settle_loop env fuel inner sel d ms s = (b, s') \<Longrightarrow> R s s'"
proof (induction fuel arbitrary: ms s)
  case 0
  then show ?case using R_stuck by auto
next
  case (Suc fuel)
  obtain now s1 where n: "monotonic_now env s = (now, s1)" by fastforce
  obtain r s2 where r: "reopen_once env inner sel d s1 = (r, s2)" by fastforce
  have 1: "R s s1" "R s s2" using R_now [OF n] R_reopen [OF r] R_trans by blast+
  obtain w s3 where w: "interruptible_wait env (ms * G_TIME_SPAN_MILLISECOND) s2 = (w, s3)" by fastforce
  obtain now2 t3 where n2: "monotonic_now env s2 = (now2, t3)" by fastforce
  obtain got s4 where g: "(if min (d - now2) TIMEOUT_DURATION > 0
      then await_first_frame env inner (min (d - now2) TIMEOUT_DURATION) t3
      else (False, t3)) = (got, s4)" by fastforce
  have 3: "R s s3" using 1 W_wait [OF w] R_trans by blast
  have "R s t3" using 1 R_now [OF n2] R_trans by blast
  then have 4: "R s s4" using g W_await R_trans by (auto split: if_splits)
  then have "R s (drain_queue (teardown_handle s4))"
    by (rule R_trans [OF _ R_trans [OF R_teardown R_drain]])
  moreover have "settle_loop env (Suc fuel) inner sel d ms s =
      (if flushing s then (False, s) else if now \<ge> d then (False, s1)
       else if r then (if got then (True, s4)
          else settle_loop env fuel inner sel d ms (drain_queue (teardown_handle s4)))
       else if w then settle_loop env fuel inner sel d (min (ms * 2) 200) s3 else (False, s3))"
    unfolding settle_loop.simps n prod.case Let_def r
    by (cases r) (simp_all only: bool.case n2 prod.case g w if_True if_False split: bool.split, simp_all)
  ultimately show ?case
    using Suc.prems 1 3 4 R_refl R_trans [OF 3 Suc.IH]
      R_trans [of s "drain_queue (teardown_handle s4)", OF _ Suc.IH]
    by (auto split: if_splits)
qed

end

locale silent_handling = waiting R env for R env +
  assumes S_target: "R s (capture_recovery_target env s)"
    and S_reset: "reset_silent_device env s = (b, s') \<Longrightarrow> R s s'"
    and S_deep: "deep_recovery env s = (b, s') \<Longrightarrow> R s s'"
    and S_armed: "R s (s\<lparr>reset_recovery_used := u, frames_since_reset := k\<rparr>)"
begin

lemma R_escalate:
  assumes "escalate env fuel sel ms s = (b, t)"
  shows "R s t"
proof -
  obtain d s1 where d: "deep_recovery env s = (d, s1)" by fastforce
  obtain c s2 where c: "reinit_context env s1 = (c, s2)" by fastforce
  obtain dl s3 where dl: "settle_deadline env ms s2 = (dl, s3)" by fastforce
  obtain r s4 where r: "settle_loop env fuel fuel sel dl 25 s3 = (r, s4)" by fastforce
  note 1 = S_deep [OF d]
  note 2 = R_trans [OF 1 W_reinit [OF c]]
  note 4 = R_trans [OF R_trans [OF 2 R_deadline [OF dl]] R_settle_loop [OF r]]
  have "escalate env fuel sel ms s =
      (if flushing s then (False, s) else if \<not> d then (False, s1) else if \<not> c then (False, s2)
       else (r, s4))"
    using d c dl r by (simp add: escalate_def settle_until_frame_def split: bool.split)
  then show ?thesis using assms 1 2 4 R_refl by (auto split: if_splits)
qed

lemma R_recover:
  assumes "recover_wedged_device env fuel s = (b, t)"
  shows "R s t"
proof (cases "parse_selector (index (media s))")
  case (Inl e)
  then show ?thesis using assms R_refl by (simp add: recover_wedged_device_def)
next
  case (Inr sel)
  define s0 where "s0 = capture_recovery_target env s"
  obtain r s1 where r: "reset_silent_device env s0 = (r, s1)" by fastforce
  define ms where "ms = reset_settle_max_ms s1"
  obtain dl s2 where dl: "settle_deadline env ms s1 = (dl, s2)" by fastforce
  define s3 where "s3 = drain_queue (teardown_handle s2)"
  obtain c s4 where c: "reinit_context env s3 = (c, s4)" by fastforce
  obtain f s5 where f: "settle_loop env fuel fuel sel dl 25 s4 = (f, s5)" by fastforce
  obtain g s6 where g: "escalate env fuel sel ms s5 = (g, s6)" by fastforce
  have 1: "R s s1" using R_trans [OF S_target S_reset [OF r [unfolded s0_def]]] .
  have 3: "R s s3" unfolding s3_def
    by (rule R_trans [OF R_trans [OF 1 R_deadline [OF dl]] R_trans [OF R_teardown R_drain]])
  note 4 = R_trans [OF 3 W_reinit [OF c]]
  note 5 = R_trans [OF 4 R_settle_loop [OF f]]
  note 6 = R_trans [OF 5 R_escalate [OF g]]
  have "recover_wedged_device env fuel s =
      (if \<not> r then (False, s1) else if \<not> c then (False, s4) else if f then (True, s5) else (g, s6))"
    using Inr r dl c f g
    by (simp add: recover_wedged_device_def s0_def [symmetric] ms_def [symmetric] s3_def [symmetric]
        Let_def settle_until_frame_def split: bool.split)
  then show ?thesis using assms 1 4 5 6 by (auto split: if_splits)
qed

lemma R_silence:
  assumes "handle_silence env fuel s = (b, t)"
  shows "R s t"
proof (cases "reconnect_enabled s \<or> reset_recovery_used s \<or> \<not> auto_port_reset s")
  case True
  then show ?thesis using assms R_reconnect [of fuel RECONNECT_MAX_RETRIES s b t] R_refl
    by (auto simp: handle_silence_def reconnect_def split: if_splits)
next
  case False
  then have "recover_wedged_device env fuel (s\<lparr>reset_recovery_used := True, frames_since_reset := 0\<rparr>)
      = (b, t)" using assms by (simp add: handle_silence_def)
  from R_trans [OF S_armed R_recover [OF this]] show ?thesis .
qed

end

locale creating = silent_handling R env for R env +
  assumes C_pop: "timeout_pop env s = (i, s') \<Longrightarrow> R s s'"
    and C_count: "R s (s\<lparr>consecutive_timeouts := n\<rparr>)"
    and C_post: "R s (s\<lparr>messages := ms\<rparr>)"
    and C_frame: "R s (note_frame s)"
    and C_rebase: "R s (rebaseline s)"
begin

lemma R_create_loop: "create_loop env fuel inner s = (r, t) \<Longrightarrow> R s t"
proof (induction fuel arbitrary: s)
  case 0
  then show ?case using R_stuck by auto
next
  case (Suc fuel)
  obtain i s1 where p: "timeout_pop env s = (i, s1)" by fastforce
  note 1 = C_pop [OF p]
  note tick = R_trans [OF 1 C_count]
  have step: ?case if "R s u" "create_loop env fuel inner u = (r, t)" for u
    using R_trans [OF that(1) Suc.IH [OF that(2)]] .
  from p show ?case
  proof (cases rule: create_loop_step [where fuel = fuel and inner = inner])
    case flush
    with Suc.prems 1 show ?thesis by auto
  next
    case silent
    with Suc.prems step [OF tick] show ?thesis by metis
  next
    case (recovered s3)
    with Suc.prems step [OF R_trans [OF R_trans [OF tick R_silence [OF recovered(4)]] C_count]]
    show ?thesis by metis
  next
    case (lost s3)
    note 3 = R_trans [OF tick R_silence [OF lost(4)]]
    with Suc.prems lost R_trans [OF 3 C_post] show ?thesis by (auto split: if_splits)
  next
    case sentinel
    with Suc.prems step [OF tick] show ?thesis by metis
  next
    case (frame b)
    with Suc.prems R_trans [OF 1 C_frame] show ?thesis by auto
  qed
qed

lemma R_create: "src_create env fuel s = (r, t) \<Longrightarrow> R s t"
  using R_create_loop R_begin [of env s _ _, OF _ C_rebase C_post] R_trans
  by (auto simp: src_create_def split: if_splits prod.splits)

end

locale recovering = blocking R + reopening_any R for R
begin

lemma R_await_loop: "await_loop env fuel d s = (b, s') \<Longrightarrow> R s s'"
proof (induction fuel arbitrary: s)
  case 0
  then show ?case using R_stuck by auto
next
  case (Suc fuel)
  obtain n s1 where n: "monotonic_now env s = (n, s1)" by fastforce
  obtain i s2 where p: "timeout_pop env s1 = (i, s2)" by fastforce
  have 2: "R s s1" "R s s2" using R_now [OF n] R_pop [OF p] R_trans by blast+
  show ?case
  proof (cases i)
    case (Some item)
    then show ?thesis
      using Suc.prems 2 n p R_trans [OF 2(2) Suc.IH] R_trans [OF 2(2) R_back]
      by (cases item) (auto split: if_splits)
  qed (use Suc.prems 2 n p in \<open>auto split: if_splits\<close>)
qed

lemma R_await: "await_first_frame env fuel us s = (b, s') \<Longrightarrow> R s s'"
  using R_now [of env s] R_await_loop R_trans
  by (fastforce simp: await_first_frame_def split: prod.splits)

end

sublocale recovering \<subseteq> waiting R env for env
  using R_wait R_await R_reinit by unfold_locales

subsection \<open>What a recovery leaves alone\<close>

definition is_reset :: "uvc_event \<Rightarrow> bool" where
  "is_reset e \<longleftrightarrow> (case e of Ev_reset h \<Rightarrow> True | _ \<Rightarrow> False)"

definition resets :: "elem \<Rightarrow> nat" where
  "resets s = length (filter is_reset (calls s))"

definition waits :: "elem \<Rightarrow> int list" where
  "waits s = concat (map (\<lambda>e. case e of Ev_wait t \<Rightarrow> [t] | _ \<Rightarrow> []) (calls s))"

definition same_episode :: "elem \<Rightarrow> elem \<Rightarrow> bool" where
  "same_episode s t \<longleftrightarrow> reset_recovery_used t = reset_recovery_used s \<and>
     frames_since_reset t = frames_since_reset s \<and> deep_recovery_used t = deep_recovery_used s \<and>
     sys_history t = sys_history s \<and> consecutive_timeouts t = consecutive_timeouts s \<and>
     messages t = messages s \<and> resets t = resets s"

definition same_config :: "elem \<Rightarrow> elem \<Rightarrow> bool" where
  "same_config s t \<longleftrightarrow> reconnect_enabled t = reconnect_enabled s \<and>
     reset_rearm_frames t = reset_rearm_frames s \<and> auto_port_reset t = auto_port_reset s \<and>
     deep_port_recovery t = deep_port_recovery s \<and> reset_settle_max_ms t = reset_settle_max_ms s \<and>
     index (media t) = index (media s) \<and> prefix (calls s) (calls t)"

definition steady :: "elem \<Rightarrow> elem \<Rightarrow> bool" where
  "steady s t \<longleftrightarrow> same_episode s t \<and> same_config s t \<and> target t = target s"

lemmas steady_defs = steady_def same_episode_def same_config_def resets_def

interpretation quiet_steps: recovering steady
proof unfold_locales
  fix s t u :: elem
  show "steady s t \<Longrightarrow> steady t u \<Longrightarrow> steady s u"
    unfolding steady_def same_episode_def same_config_def by (auto elim: prefix_order.trans)
next
  fix s :: elem and e
  show "reopen_event e \<Longrightarrow> steady s (log_call e s)"
    by (cases e) (simp_all add: steady_defs log_call_def is_reset_def)
qed (simp_all add: steady_defs log_call_def is_reset_def set_queue_def src_unlock_def
    rearm_stream_def rebaseline_def)

definition same_waits :: "elem \<Rightarrow> elem \<Rightarrow> bool" where
  "same_waits s t \<longleftrightarrow> waits t = waits s"

interpretation no_wait: reopening_any same_waits
proof unfold_locales
  fix s :: elem and e
  show "reopen_event e \<Longrightarrow> same_waits s (log_call e s)"
    by (cases e) (simp_all add: same_waits_def waits_def log_call_def)
qed (simp_all add: same_waits_def waits_def set_queue_def src_unlock_def rearm_stream_def rebaseline_def)

definition no_stale :: "elem \<Rightarrow> bool" where
  \<comment> \<open>a sentinel in the queue means a flush is on\<close>
  "no_stale s \<longleftrightarrow> flushing s \<or> Flush_sentinel \<notin> set (queue_of s)"

definition stays_fresh :: "elem \<Rightarrow> elem \<Rightarrow> bool" where
  "stays_fresh s t \<longleftrightarrow> (no_stale s \<longrightarrow> no_stale t) \<and> (flushing s \<longrightarrow> flushing t) \<and>
     (sets_wf (media s) \<longrightarrow> sets_wf (media t))"

interpretation fresh_steps: recovering stays_fresh
  by unfold_locales
    (auto simp: stays_fresh_def no_stale_def sets_wf_def log_call_def set_queue_def src_unlock_def
      rearm_stream_def rebaseline_def)

text \<open>No step of a recovery but a loop that is out of fuel marks the element as stuck.\<close>

definition same_stuck :: "elem \<Rightarrow> elem \<Rightarrow> bool" where
  "same_stuck s t \<longleftrightarrow> stuck t = stuck s"

interpretation fuelled: blocking same_stuck
proof unfold_locales
  fix s :: elem and e
  show "reopen_event e \<Longrightarrow> same_stuck s (log_call e s)"
    by (simp add: same_stuck_def log_call_def)
qed (simp_all add: same_stuck_def log_call_def set_queue_def src_unlock_def rearm_stream_def
    rebaseline_def)

end
