(* ===== verification/Session.thy ===== *)
theory Session
  imports RecoverySteps
begin

text \<open>
  Sessions: whatever the base class, the application and libuvc's thread call, in any order and
  without any restriction. \<open>create\<close> and \<open>negotiate\<close> do not check the handle, so a session may call
  libuvc on \<open>NULL\<close>, which libuvc leaves undefined; \<open>never_null\<close> says that this has not happened.
  The theory shows that the protocol of \<open>HandleProtocol\<close> is kept as long as it has not, where the
  first such call can come from, and that a flush during a reconnect leads to one.
\<close>

subsection \<open>Calls on NULL\<close>

fun on_null :: "uvc_event \<Rightarrow> bool" where
  "on_null (Ev_exit c) = (c = None)"
| "on_null (Ev_unref d) = (d = None)"
| "on_null (Ev_close h) = (h = None)"
| "on_null (Ev_get_ctrl h) = (h = None)"
| "on_null (Ev_probe h) = (h = None)"
| "on_null (Ev_set_buffers h n) = (h = None)"
| "on_null (Ev_start h b) = (h = None)"
| "on_null (Ev_stop h) = (h = None)"
| "on_null (Ev_reset h) = (h = None)"
| "on_null e = False"

definition never_null :: "elem \<Rightarrow> bool" where
  "never_null s \<longleftrightarrow> (\<forall>e \<in> set (calls s). \<not> on_null e)"

lemma observe_ok: "v_ok (observe e v) \<Longrightarrow> v_ok v \<and> \<not> on_null e"
  by (cases e) (auto simp: demand_def on_handle_def)

lemma view_ok_never_null: "v_ok (view_of h) \<Longrightarrow> \<forall>e \<in> set h. \<not> on_null e"
proof (induction h rule: rev_induct)
  case (snoc e h)
  then show ?case using observe_ok [of e "view_of h"] by simp
qed simp

lemma wired_never_null: "wired s \<Longrightarrow> never_null s"
  using view_ok_never_null [of "calls s"] by (simp add: wired_def sees_def never_null_def)

subsection \<open>Calls are only added\<close>

definition extends :: "elem \<Rightarrow> elem \<Rightarrow> bool" where
  "extends s t \<longleftrightarrow> prefix (calls s) (calls t)"

lemma extends_same: "calls t = calls s \<Longrightarrow> extends s t"
  by (simp add: extends_def)

interpretation extending: recovering extends
  by unfold_locales
    (auto simp: extends_def log_call_def set_queue_def src_unlock_def rearm_stream_def rebaseline_def
      elim: prefix_order.trans)

interpretation extending_create: creating extends env for env
proof unfold_locales
  show "extends s (capture_recovery_target env s)" for s
    by (rule extends_same) (simp add: capture_recovery_target_def Let_def split: option.split)
  show "reset_silent_device env s = (b, t) \<Longrightarrow> extends s t" for s b t
    by (auto simp: reset_silent_device_def Let_def extends_def log_call_def split: if_splits)
  show "deep_recovery env s = (b, t) \<Longrightarrow> extends s t" for s b t
    by (rule extends_same) (auto simp: deep_recovery_def split: if_splits prod.splits)
  show "extends s (note_frame s)" for s
    by (rule extends_same) (simp add: note_frame_def Let_def)
qed (use extending.R_pop in \<open>auto simp: extends_same rebaseline_def\<close>)

lemma extends_null: "extends s t \<Longrightarrow> never_null t \<Longrightarrow> never_null s"
  by (auto simp: extends_def never_null_def dest: set_mono_prefix)

lemma extends_start:
  assumes "src_start env fuel s = (b, t)"
  shows "extends s t"
proof -
  have "prefix (calls s) (calls (src_stop s))" by (simp add: stop_calls(5))
  then have fresh: "extends s (fresh_session s)"
    by (simp add: extends_def fresh_session_def reset_session_def)
  have s4: "prefix (calls s) (calls s4)"
    if "begun env (with_context c (fresh_session s)) s3" "resolve_in env fuel sel dl s3 = (r, ef, s4)"
    for c s3 sel dl r ef s4
  proof -
    have "extends (with_context c (fresh_session s)) s4"
      using begun_prefix [OF that(1)] extending.R_resolve [OF that(2)]
      by (auto simp: extends_def elim: prefix_order.trans)
    then show ?thesis using fresh
      by (auto simp: extends_def with_context_def log_call_def elim!: prefix_order.trans dest: append_prefixD)
  qed
  from assms show ?thesis
  proof (cases rule: src_start_cases)
    case (no_device c sel dl s3 ef s4 msg)
    show ?thesis unfolding no_device(4)
      using s4 [OF no_device(1,2)] by (simp add: extends_def drop_context_def element_error_def log_call_def)
  next
    case (no_handle c sel dl s3 i d ef s4)
    show ?thesis unfolding no_handle(4)
      using s4 [OF no_handle(1,2)] by (simp add: extends_def drop_context_def element_error_def log_call_def)
  next
    case (opens c sel dl s3 i d ef s4 h p)
    have "calls (start_control env u) = calls u" for u
      by (simp add: start_control_def split: prod.split bool.split)
    then show ?thesis unfolding opens(4) using s4 [OF opens(1,2)] by (simp add: extends_def log_call_def)
  qed (use fresh in \<open>auto simp: extends_def element_error_def log_call_def\<close>)
qed

subsection \<open>Sessions\<close>

inductive session :: "elem \<Rightarrow> bool" where
  constructed: "session (src_init fmt seq d)"
| started: "session s \<Longrightarrow> session (snd (src_start env fuel s))"
| negotiated: "session s \<Longrightarrow> session (snd (negotiate env rng peer formats s))"
| created: "session s \<Longrightarrow> session (snd (src_create env fuel s))"
| delivered: "session s \<Longrightarrow> frame_callback ce frame (media s, disk s) = (m, d) \<Longrightarrow>
    session (s\<lparr>media := m, disk := d\<rparr>)"
| flushed: "session s \<Longrightarrow> session (src_unlock s)"
| resumed: "session s \<Longrightarrow> session (src_unlock_stop s)"
| stopped: "session s \<Longrightarrow> session (src_stop s)"
| property_set: "session s \<Longrightarrow> session (src_set_property env v s)"
| ptz_called: "session s \<Longrightarrow> session (snd (src_action_set_ptz env p t z s))"
| clock_set: "session s \<Longrightarrow> session (src_set_clock c s)"
| state_changed: "session s \<Longrightarrow> session (src_change_state t s)"

lemma same_device_with_ptz [simp]: "same_device s (snd (with_ptz f s))"
  by (simp add: with_ptz_def same_device_def split: prod.split)

lemma same_device_property [simp]: "same_device s (src_set_property env v s)"
  by (cases v) (simp_all, simp_all add: same_device_def)

lemma same_device_others [simp]:
  "same_device s (src_unlock_stop s)" "same_device s (snd (src_action_set_ptz env p t z s))"
  "same_device s (src_set_clock c s)" "same_device s (src_change_state tr s)"
  "same_device s (s\<lparr>media := m, disk := d\<rparr>)"
  by (simp_all add: src_action_set_ptz_def src_set_clock_def src_change_state_def
      rebaseline_def split: option.split)
    (simp_all add: src_unlock_stop_def set_queue_def same_device_def)

subsection \<open>Entering without a handle\<close>

definition null_entry :: "elem \<Rightarrow> uvc_event \<Rightarrow> bool" where
  \<comment> \<open>\<open>negotiate\<close> or \<open>create\<close> is called while no handle is held, and \<open>e\<close> is its first call\<close>
  "null_entry s e \<longleftrightarrow> uvc_devh s = None \<and> \<not> streaming s \<and>
     (e = Ev_get_ctrl None \<or> (\<exists>n. e = Ev_set_buffers None n) \<or> (\<exists>b. e = Ev_start None b))"

lemma begin_null:
  assumes "begin_streaming env s = (r, t)" "uvc_devh s = None"
  shows "\<exists>pre b. prefix (calls s @ pre @ [Ev_start None b]) (calls t) \<and>
    (pre = [] \<or> (\<exists>n. pre = [Ev_set_buffers None n]))"
proof -
  define s1 where "s1 = apply_transfer_buffers env ((rebaseline s)\<lparr>streaming := True\<rparr>)"
  have s1: "(\<exists>pre. calls s1 = calls s @ pre \<and> (pre = [] \<or> (\<exists>n. pre = [Ev_set_buffers None n])))"
      "uvc_devh s1 = None"
    using assms(2) by (auto simp: s1_def apply_transfer_buffers_def Let_def log_call_def rebaseline_def)
  obtain res s2 where st: "start_streaming env s1 = (res, s2)" by fastforce
  obtain clean s3 where cl: "(if max_payload s2 > 0
      then negotiate_clean_payload env (negotiated_width (media s2)) (negotiated_height (media s2))
             (negotiated_framerate s2) s2 else (False, s2)) = (clean, s3)" by fastforce
  obtain res2 s4 where st2: "(if clean then start_streaming env s3 else (res, s3)) = (res2, s4)"
    by fastforce
  have 3: "extends s2 s3" using cl extending.R_clean by (auto simp: extends_def split: if_splits)
  have 4: "extends s2 s4"
    using st2 extending.R_trans [OF 3 extending.R_start] 3 by (auto split: if_splits)
  have "begin_streaming env s =
      (if res = UVC_SUCCESS then (res, s2)
       else if res2 = UVC_SUCCESS then (res2, s4)
       else (res2, s4\<lparr>streaming := False,
               messages := post_error res2 (Some ''starting UVC stream'') (messages s4)\<rparr>))"
    unfolding begin_streaming_def Let_def s1_def [symmetric] st prod.case cl st2 by simp
  then have "extends s2 t" using assms(1) 4 by (auto simp: extends_def split: if_splits)
  then have goes: "prefix (calls s1 @ [Ev_start None (res = UVC_SUCCESS)]) (calls t)"
    using s1(2) start_streaming_steps(1) [OF st] by (simp add: extends_def)
  obtain pre where pre: "calls s1 = calls s @ pre" "pre = [] \<or> (\<exists>n. pre = [Ev_set_buffers None n])"
    using s1(1) by blast
  show ?thesis
    by (rule exI [of _ pre], rule exI [of _ "res = UVC_SUCCESS"]) (use goes pre in simp)
qed

lemma create_null:
  assumes "uvc_devh s = None" "\<not> streaming s"
  shows "\<exists>pre b. prefix (calls s @ pre @ [Ev_start None b]) (calls (snd (src_create env fuel s))) \<and>
    (pre = [] \<or> (\<exists>n. pre = [Ev_set_buffers None n]))"
proof -
  obtain r s1 where b: "begin_streaming env s = (r, s1)" by fastforce
  obtain q t where c: "create_loop env fuel fuel s1 = (q, t)" by fastforce
  have "extends s1 (snd (src_create env fuel s))"
    using assms(2) b c extending_create.R_create_loop [OF c] by (simp add: src_create_def extends_def)
  moreover obtain pre b' where "prefix (calls s @ pre @ [Ev_start None b']) (calls s1)"
      "pre = [] \<or> (\<exists>n. pre = [Ev_set_buffers None n])"
    using begin_null [OF b assms(1)] by blast
  ultimately show ?thesis
    by (intro exI [of _ pre] exI [of _ b']) (auto simp: extends_def elim: prefix_order.trans)
qed

lemma negotiate_null:
  assumes "uvc_devh s = None" "t = snd (negotiate env rng peer formats s)"
  shows "calls t = calls s \<and> same_device s t \<or> prefix (calls s @ [Ev_get_ctrl None]) (calls t)"
proof -
  obtain found sel where sel: "select_mode rng peer formats s = (found, sel)" by fastforce
  define s0 where "s0 = s\<lparr>media := (media s)\<lparr>frame_format := sel_format sel\<rparr>\<rparr>"
  obtain r0 t0 where g: "get_stream_ctrl env (sel_width sel) (sel_height sel) (sel_rate sel) s0 =
      (r0, t0)" by fastforce
  obtain res s1 where p: "probe_stream_ctrl env (sel_width sel) (sel_height sel) (sel_rate sel)
      PROBE_POLICY_RETRY s0 = (res, s1)" by fastforce
  have "extends t0 s1"
    using p g extending.R_get extends_same by (auto simp: probe_stream_ctrl_def split: if_splits)
  moreover have "calls t0 = calls s @ [Ev_get_ctrl None]"
    using get_stream_ctrl_steps(1) [OF g] assms(1) by (simp add: s0_def)
  ultimately have 1: "prefix (calls s @ [Ev_get_ctrl None]) (calls s1)" by (simp add: extends_def)
  define s2 where "s2 = apply_max_payload env (sel_width sel) (sel_height sel) (sel_rate sel) s1"
  have 2: "prefix (calls s @ [Ev_get_ctrl None]) (calls s2)" unfolding s2_def
    using extending.R_max_payload 1 prefix_order.trans by (metis extends_def)
  show ?thesis
    using assms(2) 1 2 unfolding negotiate_def Let_def sel prod.case s0_def [symmetric] p s2_def [symmetric]
    by (auto simp: s0_def same_device_def)
qed

lemma extends_negotiate: "extends s (snd (negotiate env rng peer formats s))"
proof -
  obtain found sel where sel: "select_mode rng peer formats s = (found, sel)" by fastforce
  define s0 where "s0 = s\<lparr>media := (media s)\<lparr>frame_format := sel_format sel\<rparr>\<rparr>"
  obtain res s1 where p: "probe_stream_ctrl env (sel_width sel) (sel_height sel) (sel_rate sel)
      PROBE_POLICY_RETRY s0 = (res, s1)" by fastforce
  obtain r0 t0 where g: "get_stream_ctrl env (sel_width sel) (sel_height sel) (sel_rate sel) s0 =
      (r0, t0)" by fastforce
  have "extends s0 s1"
    using p g extending.R_get [OF g] extending.R_trans [OF extending.R_get [OF g] extending.R_get]
    by (auto simp: probe_stream_ctrl_def split: if_splits)
  then have 1: "extends s s1" by (simp add: extends_def s0_def)
  define s2 where "s2 = apply_max_payload env (sel_width sel) (sel_height sel) (sel_rate sel) s1"
  have 2: "extends s s2" unfolding s2_def using extending.R_trans [OF 1 extending.R_max_payload] .
  show ?thesis
    using 1 2 unfolding negotiate_def Let_def sel prod.case s0_def [symmetric] p s2_def [symmetric]
    by (auto simp: extends_def s0_def)
qed

subsection \<open>The protocol, and where it can end\<close>

definition null_start :: "elem \<Rightarrow> elem \<Rightarrow> bool" where
  \<comment> \<open>in the state \<open>u\<close> before, all was well, and then \<open>create\<close> or \<open>negotiate\<close> was called without a handle\<close>
  "null_start u s \<longleftrightarrow> session u \<and> wired u \<and> (\<exists>e. null_entry u e \<and> prefix (calls u @ [e]) (calls s))"

lemma null_start_later: "null_start u s \<Longrightarrow> extends s t \<Longrightarrow> null_start u t"
  by (auto simp: null_start_def extends_def elim: prefix_order.trans)

lemma negotiate_wired:
  assumes "session s" "wired s" "t = snd (negotiate env rng peer formats s)"
  shows "wired t \<or> null_start s t"
proof (cases "uvc_devh s")
  case None
  then have "\<not> streaming s" using assms(2) by (auto simp: wired_def)
  then show ?thesis using negotiate_null [OF None assms(3)] same_device_wired [of s t] assms(1,2) None
    by (auto simp: null_start_def null_entry_def)
next
  case (Some h)
  then show ?thesis using assms same_device_wired [OF negotiate_same] by (simp add: attached_def)
qed

lemma create_wired:
  assumes "session s" "wired s" "t = snd (src_create env fuel s)"
  shows "wired t \<or> null_start s t"
proof (cases "uvc_devh s")
  case None
  then have ns: "\<not> streaming s" using assms(2) by (auto simp: wired_def)
  obtain pre b where pre: "prefix (calls s @ pre @ [Ev_start None b]) (calls t)"
      "pre = [] \<or> (\<exists>n. pre = [Ev_set_buffers None n])"
    using create_null [OF None ns] assms(3) by blast
  define e where "e = hd (pre @ [Ev_start None b])"
  have "null_entry s e" "prefix (calls s @ [e]) (calls t)"
    using pre None ns by (auto simp: e_def null_entry_def prefix_def)
  then show ?thesis using assms(1,2) by (auto simp: null_start_def)
next
  case (Some h)
  then show ?thesis using assms create_protocol [of env fuel s "fst (src_create env fuel s)" t]
    by (simp add: attached_def)
qed

lemma start_wired: "wired s \<Longrightarrow> wired (snd (src_start env fuel s))"
  using start_protocol [of env fuel s] by (metis prod.collapse)

lemma session_step:
  assumes "wired s \<or> (\<exists>u. null_start u s)" "wired s \<Longrightarrow> wired t \<or> null_start s t" "extends s t"
  shows "wired t \<or> (\<exists>u. null_start u t)"
  using assms null_start_later by blast

lemma extends_others [simp]:
  "extends s (src_stop s)" "extends s (src_unlock_stop s)"
  "extends s (snd (src_action_set_ptz env p t z s))" "extends s (src_set_clock c s)"
  "extends s (src_change_state tr s)" "extends s (s\<lparr>media := m, disk := d\<rparr>)"
  by (simp_all add: extends_def stop_calls(5))
    (simp_all add: src_action_set_ptz_def with_ptz_def src_set_clock_def src_change_state_def
      rebaseline_def src_unlock_stop_def set_queue_def split: option.split prod.split)

lemma extends_property [simp]: "extends s (src_set_property env v s)"
  by (cases v) (simp_all add: extends_def with_ptz_def split: prod.split)

lemma session_wired_or: "session s \<Longrightarrow> wired s \<or> (\<exists>u. null_start u s)"
proof (induction rule: session.induct)
  case (constructed fmt seq d)
  then show ?case by (simp add: wired_def sees_def src_init_def view_of_def idle_view_def)
next
  case (started s env fuel)
  have x: "extends s (snd (src_start env fuel s))" using extends_start by (metis prod.collapse)
  show ?case by (rule session_step [OF started.IH disjI1 [OF start_wired] x])
next
  case (negotiated s env rng peer formats)
  from negotiated.IH negotiate_wired [OF negotiated.hyps _ refl] extends_negotiate
  show ?case by (rule session_step)
next
  case (created s env fuel)
  have "extends s (snd (src_create env fuel s))" using extending_create.R_create by (metis prod.collapse)
  with created.IH create_wired [OF created.hyps _ refl] show ?case by (rule session_step)
next
  case (flushed s)
  from flushed.IH _ extending.R_unlock show ?case
    by (rule session_step) (simp add: same_device_wired [OF same_device_unlock])
qed (rule session_step, assumption, simp add: same_device_wired [OF same_device_others(1)]
    same_device_wired [OF same_device_others(2)] same_device_wired [OF same_device_others(3)]
    same_device_wired [OF same_device_others(4)] same_device_wired [OF same_device_others(5)]
    same_device_wired [OF same_device_property] stop_protocol, simp)+

lemma null_entry_on_null: "null_entry s e \<Longrightarrow> on_null e"
  by (auto simp: null_entry_def)

lemma session_wired: "session s \<Longrightarrow> never_null s \<Longrightarrow> wired s"
  using session_wired_or [of s] null_entry_on_null
  by (auto simp: null_start_def never_null_def prefix_def)

subsection \<open>Properties of the protocol\<close>


lemma demo_start_ok: "fst (src_start demo_live 9 demo_elem)"
  by code_simp

lemma demo_started:
  "uvc_devh (snd (src_start demo_live 9 demo_elem)) = Some 7"
  by code_simp


text \<open>
  Claim C8. \<open>stop\<close> releases everything in the native order: it stops a running stream, closes the handle,
  drops the device reference and exits the context, each if there is one and only then; after it
  nothing is held, the queue is empty and the control socket closed, and a second \<open>stop\<close> calls
  nothing. That libuvc then holds nothing, and that a running stream has a handle to stop it on,
  is for sessions that have not called libuvc on \<open>NULL\<close>; the rest holds of every session.
\<close>
theorem stop_releases_all:
  assumes "session s"
  shows "calls (src_stop s) = calls s @
       (if streaming s \<and> uvc_devh s \<noteq> None then [Ev_stop (uvc_devh s)] else []) @
       (if uvc_devh s \<noteq> None then [Ev_close (uvc_devh s)] else []) @
       (if uvc_dev s \<noteq> None then [Ev_unref (uvc_dev s)] else []) @
       (if uvc_ctx s \<noteq> None then [Ev_exit (uvc_ctx s)] else []) \<and>
     uvc_ctx (src_stop s) = None \<and> uvc_dev (src_stop s) = None \<and> uvc_devh (src_stop s) = None \<and>
     queue_of (src_stop s) = [] \<and>
     control_socket (sock_part (src_stop s)) = None \<and> \<not> control_running (src_stop s) \<and>
     calls (src_stop (src_stop s)) = calls (src_stop s) \<and>
     (never_null s \<longrightarrow> (streaming s \<longrightarrow> uvc_devh s \<noteq> None) \<and> \<not> streaming (src_stop s) \<and>
        view_of (calls (src_stop s)) = idle_view)"
proof -
  have "(streaming s \<longrightarrow> uvc_devh s \<noteq> None) \<and> \<not> streaming (src_stop s) \<and>
        view_of (calls (src_stop s)) = idle_view" if "never_null s"
  proof -
    have w: "wired s" using session_wired [OF assms that] .
    then show ?thesis
      using stop_protocol [OF w] by (auto simp: wired_def sees_def released_def idle_view_def)
  qed
  moreover have "calls (src_stop (src_stop s)) = calls (src_stop s)"
    using stop_calls(5) [of "src_stop s"] by (simp add: stop_calls(1,2,3))
  ultimately show ?thesis
    using stop_calls [of s] stop_rest [of s] by blast
qed

lemma stop_releases_all_witness:
  "view_of (calls (src_stop (snd (src_start demo_live 9 demo_elem)))) = idle_view"
proof -
  have "never_null (snd (src_start demo_live 9 demo_elem))" by code_simp
  then show ?thesis
    using stop_releases_all [OF session.started [OF session.constructed
        [of UVC_FRAME_FORMAT_H264 0 demo_fs]], of demo_live 9]
    unfolding demo_elem_def by blast
qed

text \<open>
  Claim C19. \<open>start\<close> is all or nothing: when it succeeds a handle of an open device is held and no stream
  runs yet, and when it fails, at whatever step, nothing is held; either way a session left over
  from before was released first, and the protocol was kept. The session it is called in has not
  called libuvc on \<open>NULL\<close>; \<open>start\<close> itself never does.
\<close>
theorem start_all_or_nothing:
  assumes "session s" "never_null s" "src_start env fuel s = (ok, s')"
  shows "v_ok (view_of (calls s')) \<and> never_null s' \<and>
    (if ok then uvc_devh s' \<noteq> None \<and> uvc_dev s' \<noteq> None \<and> uvc_ctx s' \<noteq> None \<and> \<not> streaming s'
     else view_of (calls s') = idle_view \<and> released s') \<and>
    (uvc_ctx s \<noteq> None \<longrightarrow> prefix (calls (src_stop s)) (calls s'))"
proof -
  have w: "wired s'" "if ok then uvc_devh s' \<noteq> None \<and> \<not> streaming s' else released s'"
    using start_protocol [OF assms(3) session_wired [OF assms(1,2)]] by auto
  then show ?thesis
    using start_cleans_up [OF assms(3)] wired_never_null [OF w(1)]
    by (auto simp: wired_def sees_def released_def idle_view_def split: if_splits)
qed

lemma start_all_or_nothing_witness:
  "uvc_dev (snd (src_start demo_live 9 demo_elem)) \<noteq> None"
proof -
  have "never_null demo_elem" by code_simp
  then show ?thesis
    using start_all_or_nothing [OF session.constructed, of UVC_FRAME_FORMAT_H264 0 demo_fs demo_live 9
        True "snd (src_start demo_live 9 demo_elem)"]
    by (simp add: demo_elem_def [symmetric] prod_eq_iff demo_start_ok)
qed

subsection \<open>A flush during a reconnect\<close>








lemma unlock_stop_keeps [simp]:
  "uvc_devh (src_unlock_stop s) = uvc_devh s" "streaming (src_unlock_stop s) = streaming s"
  "calls (src_unlock_stop s) = calls s"
  by (simp_all add: src_unlock_stop_def set_queue_def)

definition demo_lost :: uvc_env where
  \<comment> \<open>the camera falls silent, and an unlock comes in the first wait of the reconnect\<close>
  "demo_lost = demo_usb (\<lambda>h. [])
     (\<lambda>h. case rev h of Ev_unref d # _ \<Rightarrow> True | _ \<Rightarrow> False)"

definition demo_reconnecting :: elem where
  "demo_reconnecting =
     snd (src_create demo_lost 9 (snd (src_start demo_lost 9 (demo_elem\<lparr>reconnect_enabled := True\<rparr>))))"





text \<open>It is what happens in a whole session, by evaluation.\<close>

lemma flushed_reconnect_session:
  "session demo_reconnecting \<and> flushing demo_reconnecting \<and> uvc_devh demo_reconnecting = None \<and>
   \<not> never_null (snd (src_create demo_live 2 (src_unlock_stop demo_reconnecting)))"
proof -
  have "session (src_set_property demo_lost (PROP_RECONNECT True) demo_elem)"
    by (simp add: demo_elem_def session.intros del: src_set_property.simps)
  then have "session demo_reconnecting"
    by (simp add: demo_reconnecting_def session.intros)
  moreover have "let s = demo_reconnecting in flushing s \<and> uvc_devh s = None \<and>
      \<not> never_null (snd (src_create demo_live 2 (src_unlock_stop s)))"
    by code_simp
  ultimately show ?thesis by (simp add: Let_def)
qed

end
