(* ===== verification/SessionInvariants.thy ===== *)
theory SessionInvariants
  imports Session
begin

text \<open>
  Invariants of whole sessions, beside the protocol: whatever the camera, the cache file, the
  clocks and the other threads do, the three parameter-set arrays stay in bounds, and a flush
  sentinel is only in the queue while its flush is on.
\<close>

definition sound :: "elem \<Rightarrow> bool" where
  "sound s \<longleftrightarrow> no_stale s \<and> sets_wf (media s)"

lemma fresh_sound: "stays_fresh s t \<Longrightarrow> sound s \<Longrightarrow> sound t"
  by (simp add: stays_fresh_def sound_def)

lemma fresh_same:
  "queue_of t = queue_of s \<Longrightarrow> flushing t = flushing s \<Longrightarrow> vps (media t) = vps (media s) \<Longrightarrow>
   sps (media t) = sps (media s) \<Longrightarrow> pps (media t) = pps (media s) \<Longrightarrow> stays_fresh s t"
  by (simp add: stays_fresh_def no_stale_def sets_wf_def)

lemma fresh_update [simp]:
  "stays_fresh s (s\<lparr>consecutive_timeouts := n\<rparr>)" "stays_fresh s (s\<lparr>messages := ms\<rparr>)"
  "stays_fresh s (s\<lparr>stuck := b\<rparr>)" "stays_fresh s (note_frame s)" "stays_fresh s (rebaseline s)"
  "stays_fresh s (s\<lparr>reset_recovery_used := b, frames_since_reset := k\<rparr>)"
  "stays_fresh s (capture_recovery_target env s)"
  by (rule fresh_same; simp add: note_frame_def rebaseline_def capture_recovery_target_def Let_def
      split: option.split)+

lemma fresh_deep: "deep_recovery env s = (b, t) \<Longrightarrow> stays_fresh s t"
  by (rule fresh_same) (auto simp: deep_recovery_def split: if_splits prod.splits)

lemma fresh_reset: "reset_silent_device env s = (b, t) \<Longrightarrow> stays_fresh s t"
  by (rule fresh_same) (auto simp: reset_silent_device_def Let_def log_call_def split: if_splits)

interpretation fresh_creating: creating stays_fresh env for env
  using fresh_update fresh_reset fresh_deep fresh_steps.R_pop by unfold_locales

lemmas fresh_silence = fresh_creating.R_silence
lemmas fresh_create_loop = fresh_creating.R_create_loop
lemmas fresh_create = fresh_creating.R_create

lemma fresh_stop: "stays_fresh s (src_stop s)"
  by (simp add: stays_fresh_def no_stale_def sets_wf_def stop_calls(6,7))

subsection \<open>start and negotiate\<close>

lemma fresh_log: "stays_fresh s (log_call e s)" "stays_fresh s (s\<lparr>uvc_ctx := c\<rparr>)"
    "stays_fresh s (s\<lparr>ptz_part := p\<rparr>)" "stays_fresh s (element_error ec w s)"
    "stays_fresh s (drop_context s)" "stays_fresh s (start_control env s)"
    "stays_fresh s (s\<lparr>uvc_dev := d\<rparr>)" "stays_fresh s (s\<lparr>uvc_devh := h\<rparr>)"
  by (rule fresh_same; simp add: log_call_def element_error_def drop_context_def start_control_def
      split: prod.split bool.split)+

lemma fresh_fresh_session: "stays_fresh s (fresh_session s)"
proof -
  have "stays_fresh u (reset_session u)" for u
    by (rule fresh_same) (simp_all add: reset_session_def)
  then show ?thesis
    unfolding fresh_session_def using fresh_stop fresh_steps.R_trans fresh_steps.R_refl
    by (metis (full_types))
qed

lemma fresh_start:
  assumes "src_start env fuel s = (b, t)"
  shows "stays_fresh s t"
proof -
  note tr = fresh_steps.R_trans
  have wc: "stays_fresh s (with_context c (fresh_session s))" for c
    unfolding with_context_def by (intro tr [OF tr [OF fresh_fresh_session fresh_log(1)] fresh_log(2)])
  have s4: "stays_fresh s s4" if "begun env (with_context c (fresh_session s)) s3"
      "resolve_in env fuel sel dl s3 = (r, ef, s4)" for c s3 sel dl r ef s4
  proof -
    have "stays_fresh s s3" using that(1) wc tr [OF wc fresh_steps.R_deadline] by (auto simp: begun_def)
    then show ?thesis using tr fresh_steps.R_resolve [OF that(2)] by blast
  qed
  from assms show ?thesis
  proof (cases rule: src_start_cases)
    case bad_index
    then show ?thesis using tr [OF fresh_fresh_session fresh_log(4)] by simp
  next
    case no_context
    then show ?thesis using tr [OF fresh_fresh_session fresh_log(1)] by simp
  next
    case (no_device c sel dl s3 ef s4 msg)
    show ?thesis unfolding no_device(4)
      by (rule tr [OF tr [OF s4 [OF no_device(1,2)] fresh_log(4)] fresh_log(5)])
  next
    case (no_handle c sel dl s3 i d ef s4)
    show ?thesis unfolding no_handle(4)
      by (rule tr [OF tr [OF tr [OF tr [OF tr [OF tr [OF s4 [OF no_handle(1,2)] fresh_log(7)]
        fresh_log(1)] fresh_log(4)] fresh_log(1)] fresh_log(7)] fresh_log(5)])
  next
    case (opens c sel dl s3 i d ef s4 h p)
    show ?thesis unfolding opens(4)
      by (rule tr [OF tr [OF tr [OF tr [OF tr [OF s4 [OF opens(1,2)] fresh_log(7)]
        fresh_log(1)] fresh_log(8)] fresh_log(3)] fresh_log(6)])
  qed
qed

lemma probe_fresh:
  assumes "probe_stream_ctrl env w h f p s = (r, t)"
  shows "stays_fresh s t"
proof -
  obtain r0 s0 where g0: "get_stream_ctrl env w h f s = (r0, s0)" by fastforce
  define s1 where "s1 = (if p = PROBE_POLICY_DOUBLE then s0 else s)"
  obtain r1 s2 where g1: "get_stream_ctrl env w h f s1 = (r1, s2)" by fastforce
  obtain r2 s3 where g2: "get_stream_ctrl env w h f s2 = (r2, s3)" by fastforce
  have "stays_fresh s s1" using fresh_steps.R_get [OF g0] fresh_steps.R_refl by (simp add: s1_def)
  then have "stays_fresh s s2" "stays_fresh s s3"
    using fresh_steps.R_get [OF g1] fresh_steps.R_get [OF g2] fresh_steps.R_trans by blast+
  then show ?thesis using assms g0 g1 g2
    by (auto simp: probe_stream_ctrl_def Let_def s1_def split: if_splits)
qed

lemma fresh_negotiate: "stays_fresh s (snd (negotiate env rng peer formats s))"
proof -
  obtain found sel where sel: "select_mode rng peer formats s = (found, sel)" by fastforce
  define s0 where "s0 = s\<lparr>media := (media s)\<lparr>frame_format := sel_format sel\<rparr>\<rparr>"
  obtain res s1 where p: "probe_stream_ctrl env (sel_width sel) (sel_height sel) (sel_rate sel)
      PROBE_POLICY_RETRY s0 = (res, s1)" by fastforce
  define s2 where "s2 = apply_max_payload env (sel_width sel) (sel_height sel) (sel_rate sel) s1"
  have 0: "stays_fresh s s0" by (rule fresh_same) (simp_all add: s0_def)
  have 1: "stays_fresh s s1" using fresh_steps.R_trans [OF 0 probe_fresh [OF p]] .
  have 2: "stays_fresh s s2" unfolding s2_def
    using fresh_steps.R_trans [OF 1 fresh_steps.R_max_payload] .
  define m where "m = (media s2)\<lparr>frame_interval := 1000000000 div sel_rate sel,
    negotiated_width := sel_width sel, negotiated_height := sel_height sel\<rparr>"
  define m1 where "m1 = load_spspps (disk s2) (spspps_key_snapshot m) m"
  have "frame_queue m1 = queue_of s2"
    by (simp add: m1_def m_def load_spspps_queue)
  moreover have "sets_wf (media s2) \<longrightarrow> sets_wf m1"
    by (auto simp: m1_def m_def sets_wf_def intro!: load_spspps_wf [unfolded sets_wf_def])
  ultimately have 3: "stays_fresh s2 (s2\<lparr>media := m1, negotiated_framerate := k, pad_caps := c\<rparr>)" for k c
    by (simp add: stays_fresh_def no_stale_def)
  have pub: "stays_fresh s (t\<lparr>deliverable_caps := c\<rparr>)" if "stays_fresh s t" for t c
    by (rule fresh_steps.R_trans [OF that]) (rule fresh_same; simp)
  show ?thesis
    unfolding negotiate_def Let_def sel prod.case s0_def [symmetric] p s2_def [symmetric]
      m_def [symmetric] m1_def [symmetric]
    using pub [OF fresh_steps.R_trans [OF 0 fresh_update(2)]] pub [OF 0] pub [OF 1]
      pub [OF fresh_steps.R_trans [OF 2 3]]
    by simp
qed

subsection \<open>Sessions\<close>

lemma fresh_with_ptz: "stays_fresh s (snd (with_ptz f s))"
  by (rule fresh_same) (simp_all add: with_ptz_def split: prod.split)

lemma fresh_property: "stays_fresh s (src_set_property env v s)"
  by (cases v) (simp_all add: fresh_with_ptz fresh_same)

lemma session_sound: "session s \<Longrightarrow> sound s"
proof (induction rule: session.induct)
  case (constructed fmt seq d)
  then show ?case using sets_wf_init [of fmt]
    by (simp add: sound_def no_stale_def src_init_def pipeline_init_def sets_wf_def)
next
  case (started s env fuel)
  then show ?case using fresh_sound fresh_start by (metis prod.collapse)
next
  case (negotiated s env rng peer formats)
  then show ?case using fresh_sound fresh_negotiate by metis
next
  case (created s env fuel)
  then show ?case using fresh_sound fresh_create by (metis prod.collapse)
next
  case (delivered s ce frame m d)
  obtain bs where "frame_queue m = queue_of s @ map Frame bs"
    using callback_appends [of "media s" ce frame "disk s"] delivered by (auto simp: sound_def)
  moreover have "sets_wf m"
    using callback_wf [of "media s" ce frame "disk s"] delivered by (simp add: sound_def)
  ultimately show ?case using delivered.IH by (auto simp: sound_def no_stale_def)
next
  case (flushed s)
  then show ?case using fresh_sound [OF fresh_steps.R_unlock] by blast
next
  case (resumed s)
  then show ?case by (simp add: sound_def no_stale_def src_unlock_stop_def set_queue_def sets_wf_def)
next
  case (stopped s)
  then show ?case using fresh_sound [OF fresh_stop] by blast
next
  case (property_set s env v)
  then show ?case using fresh_sound [OF fresh_property] by blast
next
  case (ptz_called s env p t z)
  then show ?case using fresh_sound [OF fresh_with_ptz] by (simp add: src_action_set_ptz_def)
next
  case (clock_set s c)
  then show ?case
    by (auto simp: sound_def no_stale_def src_set_clock_def rebaseline_def sets_wf_def split: option.split)
next
  case (state_changed s t)
  then show ?case
    by (auto simp: sound_def no_stale_def src_change_state_def rebaseline_def sets_wf_def)
qed

text \<open>
  Claim C3. In every session the three parameter-set arrays keep their 1024 bytes and a length between 0
  and 1024, whatever the camera delivers and the cache file holds, and a flush sentinel in the
  queue means that its flush is still on, so that \<open>create\<close> never meets a stale one.
\<close>
theorem session_memory_safe:
  assumes "session s"
  shows "sets_wf (media s) \<and> (Flush_sentinel \<in> set (queue_of s) \<longrightarrow> flushing s)"
  using session_sound [OF assms] by (auto simp: sound_def no_stale_def)

lemma session_memory_safe_witness:
  "sets_wf (media (src_unlock (snd (src_start demo_live 9 demo_elem))))"
  using session_memory_safe [OF session.flushed [OF session.started [OF session.constructed
      [of UVC_FRAME_FORMAT_H264 0 demo_fs]]], of demo_live 9]
  by (simp add: demo_elem_def)

end
