(* ===== verification/RecoveryBudget.thy ===== *)
theory RecoveryBudget
  imports RecoverySteps
begin

text \<open>
  What a silence episode may cost. Port resets are paid for: the one-shot is a credit that a
  reset spends and delivered frames earn back, so over any run the resets are bounded by the
  frames (\<open>paid_operation\<close> is the argument, interpreted on \<open>create\<close>). The deep rung is not
  given back before the next \<open>start\<close>. A recovery only ends well with a frame in hand, and the
  reconnect ladder keeps its schedule.
\<close>

subsection \<open>Paid operations\<close>

fun run_all :: "('op \<Rightarrow> 's \<Rightarrow> 'r \<times> 's) \<Rightarrow> 'op list \<Rightarrow> 's \<Rightarrow> 'r list \<times> 's" where
  "run_all run [] s = ([], s)"
| "run_all run (a # as) s =
     (let (r, s1) = run a s; (rs, s2) = run_all run as s1 in (r # rs, s2))"

locale paid_operation =
  fixes run :: "'op \<Rightarrow> 's \<Rightarrow> 'r \<times> 's" and inv :: "'s \<Rightarrow> bool"
    and cost :: "'s \<Rightarrow> nat" and credit :: "'s \<Rightarrow> nat" and earns :: "'r \<Rightarrow> nat"
  assumes keeps: "run a s = (r, t) \<Longrightarrow> inv s \<Longrightarrow> inv t"
    and pays: "run a s = (r, t) \<Longrightarrow> inv s \<Longrightarrow> cost t + credit t \<le> cost s + credit s + earns r"
begin

lemma run_pays:
  "run_all run as s = (rs, t) \<Longrightarrow> inv s \<Longrightarrow>
   inv t \<and> cost t + credit t \<le> cost s + credit s + sum_list (map earns rs)"
proof (induction as arbitrary: s rs)
  case (Cons a as)
  obtain r s1 where 1: "run a s = (r, s1)" by fastforce
  obtain rs' where 2: "run_all run as s1 = (rs', t)" "rs = r # rs'"
    using Cons.prems(1) 1 by (auto split: prod.splits)
  from Cons.IH [OF 2(1) keeps [OF 1 Cons.prems(2)]] pays [OF 1 Cons.prems(2)] 2(2) show ?case
    by simp
qed simp

end

subsection \<open>Within an episode\<close>

definition within_episode :: "elem \<Rightarrow> elem \<Rightarrow> bool" where
  "within_episode s t \<longleftrightarrow> same_config s t \<and>
     reset_recovery_used t = reset_recovery_used s \<and> frames_since_reset t = frames_since_reset s \<and>
     consecutive_timeouts t = consecutive_timeouts s \<and> messages t = messages s \<and>
     (deep_recovery_used s \<or> \<not> deep_port_recovery s \<longrightarrow> sys_history t = sys_history s) \<and>
     (deep_recovery_used s \<longrightarrow> deep_recovery_used t)"

lemma within_episode_refl [simp]: "within_episode s s"
  by (simp add: within_episode_def same_config_def)

lemma within_episode_trans: "within_episode s t \<Longrightarrow> within_episode t u \<Longrightarrow> within_episode s u"
  unfolding within_episode_def same_config_def by (auto elim: prefix_order.trans)

lemma steady_within: "steady s t \<Longrightarrow> within_episode s t \<and> resets t = resets s"
  by (simp add: steady_def same_episode_def within_episode_def)

lemma capture_within: "within_episode s (capture_recovery_target env s) \<and>
    resets (capture_recovery_target env s) = resets s"
  by (simp add: capture_recovery_target_def Let_def within_episode_def same_config_def resets_def
      split: option.split)

lemma reset_within:
  "reset_silent_device env s = (b, t) \<Longrightarrow>
   within_episode s t \<and> resets s \<le> resets t \<and> resets t \<le> resets s + 1"
  by (auto simp: reset_silent_device_def Let_def within_episode_def same_config_def resets_def
      log_call_def is_reset_def split: if_splits)

lemma deep_within:
  "deep_recovery env s = (b, t) \<Longrightarrow> within_episode s t \<and> resets t = resets s"
  by (auto simp: deep_recovery_def within_episode_def same_config_def resets_def
      split: if_splits prod.splits)

lemma escalate_within:
  assumes "escalate env fuel sel ms s = (b, t)"
  shows "within_episode s t \<and> resets t = resets s"
proof -
  obtain d s1 where d: "deep_recovery env s = (d, s1)" by fastforce
  obtain c s2 where c: "reinit_context env s1 = (c, s2)" by fastforce
  obtain dl s3 where dl: "settle_deadline env ms s2 = (dl, s3)" by fastforce
  obtain r s4 where r: "settle_loop env fuel fuel sel dl 25 s3 = (r, s4)" by fastforce
  have 1: "within_episode s s1" "resets s1 = resets s" using deep_within [OF d] by auto
  have "steady s1 s2" "steady s1 s4"
    using quiet_steps.R_reinit [OF c] quiet_steps.R_deadline [OF dl] quiet_steps.R_settle_loop [OF r]
      quiet_steps.R_trans by blast+
  then have 2: "within_episode s s2" "resets s2 = resets s" "within_episode s s4" "resets s4 = resets s"
    using 1 steady_within within_episode_trans by metis+
  have "escalate env fuel sel ms s =
      (if flushing s then (False, s) else if \<not> d then (False, s1) else if \<not> c then (False, s2)
       else (r, s4))"
    using d c dl r by (simp add: escalate_def settle_until_frame_def split: bool.split)
  then show ?thesis using assms 1 2 by (auto split: if_splits)
qed

lemma recover_within:
  assumes "recover_wedged_device env fuel s = (b, t)"
  shows "within_episode s t \<and> resets s \<le> resets t \<and> resets t \<le> resets s + 1"
proof (cases "parse_selector (index (media s))")
  case (Inl e)
  then show ?thesis using assms by (simp add: recover_wedged_device_def)
next
  case (Inr sel)
  define s0 where "s0 = capture_recovery_target env s"
  obtain r s1 where r: "reset_silent_device env s0 = (r, s1)" by fastforce
  define ms where "ms = reset_settle_max_ms s1"
  obtain dl s2 where dl: "settle_deadline env ms s1 = (dl, s2)" by fastforce
  define s3 where "s3 = drain_queue (teardown_handle s2)"
  obtain c s4 where c: "reinit_context env s3 = (c, s4)" by fastforce
  obtain f s5 where f: "settle_loop env fuel fuel sel dl 25 s4 = (f, s5)" by fastforce
  obtain g s6 where g: "escalate env fuel sel ms s5 = (g, s6)" by fastforce
  have 1: "within_episode s s1" "resets s \<le> resets s1" "resets s1 \<le> resets s + 1"
    using capture_within [of s env] reset_within [OF r] within_episode_trans
    by (auto simp: s0_def)
  have "steady s2 s3" unfolding s3_def
    using quiet_steps.R_trans [OF quiet_steps.R_teardown quiet_steps.R_drain] .
  then have "steady s1 s4" "steady s1 s5"
    using quiet_steps.R_deadline [OF dl] quiet_steps.R_reinit [OF c] quiet_steps.R_settle_loop [OF f]
      quiet_steps.R_trans by blast+
  then have 2: "within_episode s s4" "resets s4 = resets s1" "within_episode s s5"
    "resets s5 = resets s1"
    using 1 steady_within within_episode_trans by metis+
  have 3: "within_episode s s6" "resets s6 = resets s1"
    using escalate_within [OF g] 2 within_episode_trans by auto
  have "recover_wedged_device env fuel s =
      (if \<not> r then (False, s1) else if \<not> c then (False, s4) else if f then (True, s5) else (g, s6))"
    using Inr r dl c f g
    by (simp add: recover_wedged_device_def s0_def [symmetric] ms_def [symmetric] s3_def [symmetric]
        Let_def settle_until_frame_def split: bool.split)
  then show ?thesis using assms 1 2 3 by (auto split: if_splits)
qed

definition steady_but_messages :: "elem \<Rightarrow> elem \<Rightarrow> bool" where
  "steady_but_messages s t \<longleftrightarrow> steady s (t\<lparr>messages := messages s\<rparr>)"

interpretation steady_but_messages: reopening steady_but_messages
proof unfold_locales
  fix s t u :: elem
  show "steady_but_messages s t \<Longrightarrow> steady_but_messages t u \<Longrightarrow> steady_but_messages s u"
    unfolding steady_but_messages_def steady_defs by (auto elim: prefix_order.trans)
next
  fix s :: elem and e
  show "reopen_event e \<Longrightarrow> steady_but_messages s (log_call e s)"
    by (cases e) (simp_all add: steady_but_messages_def steady_defs log_call_def is_reset_def)
qed (simp_all add: steady_but_messages_def steady_defs log_call_def set_queue_def src_unlock_def
    rearm_stream_def rebaseline_def)

subsection \<open>The one-shot as a credit\<close>

definition rearm :: "elem \<Rightarrow> nat" where
  "rearm s = unat (reset_rearm_frames s)"

definition one_shot_ok :: "elem \<Rightarrow> bool" where
  "one_shot_ok s \<longleftrightarrow> 1 \<le> rearm s \<and>
     (reset_recovery_used s \<longrightarrow> unat (frames_since_reset s) < rearm s)"

definition credit :: "elem \<Rightarrow> nat" where
  "credit s = (if reset_recovery_used s then unat (frames_since_reset s) else rearm s)"

definition spent :: "elem \<Rightarrow> nat" where
  "spent s = resets s * rearm s"

definition no_dearer :: "elem \<Rightarrow> elem \<Rightarrow> bool" where
  \<comment> \<open>from \<open>s\<close> to \<open>t\<close> what was spent is covered by credit\<close>
  "no_dearer s t \<longleftrightarrow> one_shot_ok t \<and> rearm t = rearm s \<and> spent t + credit t \<le> spent s + credit s"

lemma no_dearer_trans: "no_dearer s t \<Longrightarrow> no_dearer t u \<Longrightarrow> no_dearer s u"
  by (auto simp: no_dearer_def)

lemma same_account:
  "one_shot_ok s \<Longrightarrow> reset_recovery_used t = reset_recovery_used s \<Longrightarrow>
   frames_since_reset t = frames_since_reset s \<Longrightarrow> reset_rearm_frames t = reset_rearm_frames s \<Longrightarrow>
   calls t = calls s \<Longrightarrow> no_dearer s t"
  by (simp add: no_dearer_def one_shot_ok_def rearm_def spent_def credit_def resets_def)

lemma steady_account: "one_shot_ok s \<Longrightarrow> steady s t \<Longrightarrow> no_dearer s t"
  by (simp add: no_dearer_def one_shot_ok_def rearm_def spent_def credit_def steady_def
      same_episode_def same_config_def)

lemma silence_account:
  assumes "handle_silence env fuel s = (b, t)" "one_shot_ok s"
  shows "no_dearer s t"
proof -
  consider (reconnect) "steady s t" | (refused) "t = s"
    | (recover) "\<not> reset_recovery_used s" "recover_wedged_device env fuel
        (s\<lparr>reset_recovery_used := True, frames_since_reset := 0\<rparr>) = (b, t)"
    using assms(1) quiet_steps.R_reconnect
    by (auto simp: handle_silence_def reconnect_def split: if_splits)
  then show ?thesis
  proof cases
    case reconnect
    then show ?thesis using assms(2) steady_account by simp
  next
    case refused
    then show ?thesis using assms(2) same_account by simp
  next
    case recover
    from recover_within [OF recover(2)] have
      "reset_recovery_used t" "frames_since_reset t = 0" "rearm t = rearm s" "resets t \<le> resets s + 1"
      by (auto simp: within_episode_def same_config_def rearm_def resets_def)
    moreover from this(4) have "resets t * rearm s \<le> resets s * rearm s + rearm s"
      by (metis add_mult_distrib mult_le_mono1 nat_mult_1)
    ultimately show ?thesis using assms(2) recover(1)
      by (simp add: no_dearer_def one_shot_ok_def spent_def credit_def)
  qed
qed

fun earned :: "flow \<Rightarrow> nat" where
  "earned (FLOW_OK i) = 1"
| "earned r = 0"

lemma note_frame_account:
  assumes "one_shot_ok s"
  shows "one_shot_ok (note_frame s) \<and> rearm (note_frame s) = rearm s \<and>
    spent (note_frame s) + credit (note_frame s) \<le> spent s + credit s + 1"
proof (cases "reset_recovery_used s")
  case False
  then show ?thesis using assms
    by (simp add: note_frame_def one_shot_ok_def rearm_def spent_def credit_def resets_def)
next
  case True
  have lt: "unat (frames_since_reset s) < unat (reset_rearm_frames s)"
    using assms True by (simp add: one_shot_ok_def rearm_def)
  then have "frames_since_reset s < reset_rearm_frames s" by (simp add: word_less_nat_alt)
  then have "frames_since_reset s \<noteq> - 1" using word_order.extremum_strict by metis
  then have "frames_since_reset s + 1 \<noteq> 0" by (simp add: add_eq_0_iff2)
  then have suc: "unat (frames_since_reset s + 1) = unat (frames_since_reset s) + 1"
    by (simp add: unatSuc add.commute)
  show ?thesis
    using True lt suc assms
    by (auto simp: note_frame_def Let_def one_shot_ok_def rearm_def spent_def credit_def
        resets_def word_le_nat_alt)
qed

lemma create_loop_account:
  "create_loop env fuel inner s = (r, t) \<Longrightarrow> one_shot_ok s \<Longrightarrow>
   one_shot_ok t \<and> rearm t = rearm s \<and> spent t + credit t \<le> spent s + credit s + earned r"
proof (induction fuel arbitrary: s)
  case 0
  then show ?case using same_account [of s t] by (auto simp: no_dearer_def)
next
  case (Suc fuel)
  obtain i s1 where p: "timeout_pop env s = (i, s1)" by fastforce
  have 1: "no_dearer s s1" using steady_account [OF Suc.prems(2) quiet_steps.R_pop [OF p]] .
  then have ok1: "one_shot_ok s1" by (simp add: no_dearer_def)
  have ct: "no_dearer u (u\<lparr>consecutive_timeouts := n\<rparr>)" if "one_shot_ok u" for u n
    using same_account [OF that] by simp
  have step: ?case if "no_dearer s u" "create_loop env fuel inner u = (r, t)" for u
    using Suc.IH [OF that(2)] that(1) by (auto simp: no_dearer_def)
  from p show ?case
  proof (cases rule: create_loop_step [where fuel = fuel and inner = inner])
    case flush
    with Suc.prems 1 show ?thesis by (auto simp: no_dearer_def)
  next
    case silent
    with Suc.prems step no_dearer_trans [OF 1 ct [OF ok1]] show ?thesis by metis
  next
    case (recovered s3)
    have 3: "no_dearer s s3"
      using silence_account [OF recovered(4)] ct [OF ok1] 1 no_dearer_trans
      by (metis no_dearer_def)
    then have "no_dearer s (s3\<lparr>consecutive_timeouts := 0\<rparr>)"
      using ct no_dearer_trans by (metis no_dearer_def)
    with Suc.prems step recovered(5) show ?thesis by metis
  next
    case (lost s3)
    have 3: "no_dearer s s3"
      using silence_account [OF lost(4)] ct [OF ok1] 1 no_dearer_trans by (metis no_dearer_def)
    then have "one_shot_ok s3" by (simp add: no_dearer_def)
    then have "no_dearer s3 (s3\<lparr>messages := ms\<rparr>)" for ms by (rule same_account) simp_all
    with 3 have "no_dearer s t" using Suc.prems(1) lost(5) no_dearer_trans
      by (auto split: if_splits)
    then show ?thesis by (simp add: no_dearer_def)
  next
    case sentinel
    with Suc.prems step no_dearer_trans [OF 1 ct [OF ok1]] show ?thesis by metis
  next
    case (frame b)
    with Suc.prems 1 note_frame_account [OF ok1] show ?thesis by (auto simp: no_dearer_def)
  qed
qed

lemma begin_streaming_account:
  assumes "begin_streaming env s = (r, t)"
  shows "resets t = resets s \<and> same_config s t \<and> reset_recovery_used t = reset_recovery_used s \<and>
    frames_since_reset t = frames_since_reset s \<and> deep_recovery_used t = deep_recovery_used s \<and>
    sys_history t = sys_history s"
  using steady_but_messages.R_begin [OF assms]
  by (simp add: steady_but_messages_def steady_defs rebaseline_def)

lemma create_account:
  assumes "src_create env fuel s = (r, t)" "one_shot_ok s"
  shows "one_shot_ok t \<and> rearm t = rearm s \<and> spent t + credit t \<le> spent s + credit s + earned r"
proof (cases "streaming s")
  case True
  then show ?thesis using assms create_loop_account by (simp add: src_create_def)
next
  case False
  obtain res s1 where b: "begin_streaming env s = (res, s1)" by fastforce
  have 1: "one_shot_ok s1 \<and> rearm s1 = rearm s \<and> spent s1 = spent s \<and> credit s1 = credit s"
    using begin_streaming_account [OF b] assms(2)
    by (simp add: one_shot_ok_def rearm_def spent_def credit_def same_config_def)
  show ?thesis
    using assms(1) b False 1 create_loop_account [of env fuel fuel s1 r t]
    by (auto simp: src_create_def split: if_splits)
qed

subsection \<open>The deep rung\<close>

definition no_escalation :: "elem \<Rightarrow> elem \<Rightarrow> bool" where
  \<comment> \<open>nothing written to sysfs unless the rung is on and unused\<close>
  "no_escalation s t \<longleftrightarrow> deep_port_recovery t = deep_port_recovery s \<and>
     (deep_recovery_used s \<or> \<not> deep_port_recovery s \<longrightarrow> sys_history t = sys_history s) \<and>
     (deep_recovery_used s \<longrightarrow> deep_recovery_used t)"

lemma no_escalation_refl [simp]: "no_escalation s s"
  by (simp add: no_escalation_def)

lemma no_escalation_trans: "no_escalation s t \<Longrightarrow> no_escalation t u \<Longrightarrow> no_escalation s u"
  by (auto simp: no_escalation_def)

lemma no_escalation_update [simp]:
  "no_escalation s (s\<lparr>consecutive_timeouts := n\<rparr>)" "no_escalation s (s\<lparr>messages := ms\<rparr>)"
  "no_escalation s (s\<lparr>stuck := b\<rparr>)" "no_escalation s (note_frame s)"
  "no_escalation s (s\<lparr>reset_recovery_used := b, frames_since_reset := k\<rparr>)"
  by (simp_all add: no_escalation_def note_frame_def Let_def)

lemma within_no_escalation: "within_episode s t \<Longrightarrow> no_escalation s t"
  by (simp add: within_episode_def no_escalation_def same_config_def)

lemma steady_no_escalation: "steady s t \<Longrightarrow> no_escalation s t"
  using steady_within within_no_escalation by blast

lemma silence_no_escalation:
  assumes "handle_silence env fuel s = (b, t)"
  shows "no_escalation s t"
proof (cases "reconnect_enabled s \<or> reset_recovery_used s \<or> \<not> auto_port_reset s")
  case True
  then show ?thesis using assms quiet_steps.R_reconnect [THEN steady_no_escalation]
    by (auto simp: handle_silence_def reconnect_def split: if_splits)
next
  case False
  then have "recover_wedged_device env fuel (s\<lparr>reset_recovery_used := True, frames_since_reset := 0\<rparr>)
      = (b, t)"
    using assms by (simp add: handle_silence_def)
  from within_no_escalation [OF recover_within [OF this, THEN conjunct1]] show ?thesis
    by (rule no_escalation_trans [OF no_escalation_update(5)])
qed

lemma create_loop_no_escalation:
  "create_loop env fuel inner s = (r, t) \<Longrightarrow> no_escalation s t"
proof (induction fuel arbitrary: s)
  case 0
  then show ?case by auto
next
  case (Suc fuel)
  obtain i s1 where p: "timeout_pop env s = (i, s1)" by fastforce
  have 1: "no_escalation s s1" using steady_no_escalation [OF quiet_steps.R_pop [OF p]] .
  have step: ?case if "no_escalation s u" "create_loop env fuel inner u = (r, t)" for u
    using no_escalation_trans [OF that(1) Suc.IH [OF that(2)]] .
  have silence: "no_escalation s s3" if
    "handle_silence env inner (s1\<lparr>consecutive_timeouts := n\<rparr>) = (b, s3)" for n b s3
    by (rule no_escalation_trans [OF 1 no_escalation_trans [OF no_escalation_update(1)
      silence_no_escalation [OF that]]])
  note up = no_escalation_trans [OF _ no_escalation_update(1)]
  from p show ?case
  proof (cases rule: create_loop_step [where fuel = fuel and inner = inner])
    case flush
    with Suc.prems 1 show ?thesis by auto
  next
    case silent
    with Suc.prems step up [OF 1] show ?thesis by metis
  next
    case (recovered s3)
    with Suc.prems step up [OF silence [OF recovered(4)]] show ?thesis by metis
  next
    case (lost s3)
    with Suc.prems silence [OF lost(4)] no_escalation_trans [OF _ no_escalation_update(2)]
    show ?thesis by (auto split: if_splits)
  next
    case sentinel
    with Suc.prems step up [OF 1] show ?thesis by metis
  next
    case (frame b)
    with Suc.prems no_escalation_trans [OF 1 no_escalation_update(4)] show ?thesis by auto
  qed
qed

lemma create_no_escalation:
  assumes "src_create env fuel s = (r, t)"
  shows "no_escalation s t"
proof (cases "streaming s")
  case True
  then show ?thesis using assms create_loop_no_escalation by (simp add: src_create_def)
next
  case False
  obtain res s1 where b: "begin_streaming env s = (res, s1)" by fastforce
  have "no_escalation s s1"
    using begin_streaming_account [OF b] by (simp add: no_escalation_def same_config_def)
  then show ?thesis
    using assms b False no_escalation_trans [OF _ create_loop_no_escalation, of s s1 env fuel fuel r t]
    by (auto simp: src_create_def split: if_splits)
qed

subsection \<open>Runs of a started element\<close>

datatype source_op =
    Create uvc_env nat
  | Unlock
  | Unlock_stop
  | Deliver clock_env "byte list option"

fun do_op :: "source_op \<Rightarrow> elem \<Rightarrow> flow option \<times> elem" where
  "do_op (Create env fuel) s = (case src_create env fuel s of (r, t) \<Rightarrow> (Some r, t))"
| "do_op Unlock s = (None, src_unlock s)"
| "do_op Unlock_stop s = (None, src_unlock_stop s)"
| "do_op (Deliver ce frame) s =
     (case frame_callback ce frame (media s, disk s) of (m, d) \<Rightarrow> (None, s\<lparr>media := m, disk := d\<rparr>))"

definition op_earned :: "flow option \<Rightarrow> nat" where
  "op_earned r = (case r of None \<Rightarrow> 0 | Some f \<Rightarrow> earned f)"

definition handed_on :: "flow option list \<Rightarrow> nat" where
  "handed_on rs = length (filter (\<lambda>r. \<exists>i. r = Some (FLOW_OK i)) rs)"

lemma handed_on_earned: "sum_list (map op_earned rs) = handed_on rs"
proof (induction rs)
  case (Cons r rs)
  have "op_earned r = (if \<exists>i. r = Some (FLOW_OK i) then 1 else 0)"
    by (cases r; cases "the r") (auto simp: op_earned_def)
  with Cons show ?case by (simp add: handed_on_def)
qed (simp add: handed_on_def)

lemma do_op_account:
  assumes "do_op a s = (r, t)" "one_shot_ok s"
  shows "one_shot_ok t \<and> rearm t = rearm s \<and> spent t + credit t \<le> spent s + credit s + op_earned r"
proof (cases a)
  case (Create env fuel)
  then obtain f where f: "src_create env fuel s = (f, t)" "r = Some f"
    using assms(1) by (auto split: prod.splits)
  from create_account [OF f(1) assms(2)] f(2) show ?thesis by (simp add: op_earned_def)
next
  case Unlock
  then show ?thesis using assms same_account [OF assms(2), of t]
    by (auto simp: no_dearer_def src_unlock_def set_queue_def)
next
  case Unlock_stop
  then show ?thesis using assms same_account [OF assms(2), of t]
    by (auto simp: no_dearer_def src_unlock_stop_def set_queue_def)
next
  case (Deliver ce frame)
  then show ?thesis using assms same_account [OF assms(2), of t]
    by (auto simp: no_dearer_def split: prod.splits)
qed

interpretation resets_paid: paid_operation do_op one_shot_ok spent credit op_earned
  by unfold_locales (use do_op_account in blast)+

lemma run_rearm: "run_all do_op ops s = (rs, t) \<Longrightarrow> one_shot_ok s \<Longrightarrow> rearm t = rearm s"
proof (induction ops arbitrary: s rs)
  case (Cons a ops)
  obtain r s1 where 1: "do_op a s = (r, s1)" by fastforce
  with Cons do_op_account [OF 1] show ?case by (auto split: prod.splits)
qed simp

lemma run_no_escalation: "run_all do_op ops s = (rs, t) \<Longrightarrow> no_escalation s t"
proof (induction ops arbitrary: s rs)
  case (Cons a ops)
  obtain r s1 where 1: "do_op a s = (r, s1)" by fastforce
  have "no_escalation s s1"
  proof (cases a)
    case (Create env fuel)
    then show ?thesis using 1 create_no_escalation by (auto split: prod.splits)
  qed (use 1 in \<open>auto simp: no_escalation_def src_unlock_def src_unlock_stop_def set_queue_def
        split: prod.splits\<close>)
  moreover have "no_escalation s1 t" using Cons 1 by (auto split: prod.splits)
  ultimately show ?case by (rule no_escalation_trans)
qed simp

subsection \<open>Properties of the budget\<close>

definition demo_wedged :: uvc_env where
  \<comment> \<open>a camera that delivers nothing until its port is reset\<close>
  "demo_wedged = demo_usb
     (\<lambda>h. if list_ex is_reset h then [demo_buffer] else []) (\<lambda>h. False)"

definition demo_running :: elem where
  "demo_running = demo_elem\<lparr>uvc_ctx := Some 1, uvc_devh := Some 7, streaming := True\<rparr>"

text \<open>
  Claim C9. The port is not reset forever: over any run of \<open>create\<close> calls, flushes and deliveries, the
  number of port resets is at most one plus one for every \<open>reset-rearm-frames\<close> buffers handed
  on, whatever the camera does.
\<close>
theorem reset_budget:
  assumes "1 \<le> unat (reset_rearm_frames s)" "\<not> reset_recovery_used s"
    "run_all do_op ops s = (rs, t)"
  shows "resets t \<le> resets s + 1 + handed_on rs div unat (reset_rearm_frames s)"
proof -
  define k where "k = rearm s"
  have ok: "one_shot_ok s" "credit s = k" "1 \<le> k"
    using assms(1,2) by (simp_all add: one_shot_ok_def rearm_def credit_def k_def)
  have "spent t \<le> spent s + k + handed_on rs"
    using resets_paid.run_pays [OF assms(3) ok(1)] by (simp add: handed_on_earned ok(2))
  then have "resets t * k \<le> (resets s + 1) * k + handed_on rs"
    using run_rearm [OF assms(3) ok(1)] by (simp add: spent_def k_def)
  then have "resets t * k div k \<le> ((resets s + 1) * k + handed_on rs) div k" by (rule div_le_mono)
  also have "((resets s + 1) * k + handed_on rs) div k = resets s + 1 + handed_on rs div k"
    using ok(3) by (intro div_mult_self3) simp
  finally show ?thesis using ok(3) by (simp add: k_def rearm_def)
qed

lemma reset_budget_witness:
  "resets (snd (run_all do_op [Create demo_wedged 12] demo_running)) \<le> 1 \<and>
   resets (snd (src_create demo_wedged 12 demo_running)) = 1"
proof -
  have s: "resets demo_running = 0" "reset_rearm_frames demo_running = 30"
      "\<not> reset_recovery_used demo_running"
    by (simp_all add: demo_running_def demo_elem_def src_init_def resets_def
        RESET_REARM_FRAMES_DEFAULT_def)
  have one: "resets (snd (src_create demo_wedged 12 demo_running)) = 1"
    by code_simp
  obtain rs t where r: "run_all do_op [Create demo_wedged 12] demo_running = (rs, t)" by fastforce
  then have "handed_on rs \<le> 1" by (auto simp: handed_on_def split: prod.splits)
  then show ?thesis using reset_budget [OF _ _ r] s one r by simp
qed

text \<open>
  Where the code leaves its documentation: the comment on \<open>deep_recovery_used\<close>, and the property
  page, say that the deep rung is re-armed on the same delivered-frame proof as the port reset.
  No \<open>create\<close>, flush or delivery gives it back, however many frames are delivered; only \<open>start\<close>
  does.
\<close>
theorem deep_rung_not_rearmed:
  assumes "deep_recovery_used s \<or> \<not> deep_port_recovery s" "run_all do_op ops s = (rs, t)"
  shows "sys_history t = sys_history s \<and> (deep_recovery_used s \<longrightarrow> deep_recovery_used t)"
  using run_no_escalation [OF assms(2)] assms(1) by (auto simp: no_escalation_def)

lemma deep_rung_not_rearmed_witness:
  "sys_history (snd (run_all do_op [Create demo_wedged 12, Unlock, Unlock_stop] demo_running)) = []"
  using deep_rung_not_rearmed [OF _ prod.collapse [symmetric], of demo_running]
  by (simp add: demo_running_def demo_elem_def src_init_def del: run_all.simps)

end
