(* ===== verification/RecoveryLadder.thy ===== *)
theory RecoveryLadder
  imports RecoveryBudget
begin

text \<open>
  How a recovery ends. It succeeds only with a delivered frame at the head of the queue, the
  reconnect ladder keeps its schedule of waits, \<open>create\<close> answers each flow for its own reason,
  and with \<open>reconnect\<close> off it always answers, provided that the clocks advance. With
  \<open>reconnect\<close> on there is a camera for which it never does.
\<close>

subsection \<open>A frame in hand\<close>

definition frame_ready :: "elem \<Rightarrow> bool" where
  "frame_ready s \<longleftrightarrow> \<not> flushing s \<and> (\<exists>b q. queue_of s = Frame b # q)"

lemma await_loop_ready: "await_loop env fuel d s = (True, t) \<Longrightarrow> frame_ready t"
proof (induction fuel arbitrary: s)
  case (Suc fuel)
  obtain n s1 where n: "monotonic_now env s = (n, s1)" by fastforce
  obtain i s2 where p: "timeout_pop env s1 = (i, s2)" by fastforce
  show ?case
  proof (cases i)
    case None
    with Suc.prems n p show ?thesis by (auto split: if_splits)
  next
    case (Some item)
    with Suc n p show ?thesis
      by (cases item) (auto simp: frame_ready_def set_queue_def split: if_splits)
  qed
qed simp

lemma settle_loop_step:
  obtains
    (flush) "flushing s" "settle_loop env (Suc fuel) inner sel d ms s = (False, s)"
  | (expired) now s1 where "\<not> flushing s" "monotonic_now env s = (now, s1)" "d \<le> now"
      "settle_loop env (Suc fuel) inner sel d ms s = (False, s1)"
  | (interrupted) now s1 s2 s3 where "\<not> flushing s" "monotonic_now env s = (now, s1)" "now < d"
      "reopen_once env inner sel d s1 = (False, s2)"
      "interruptible_wait env (ms * G_TIME_SPAN_MILLISECOND) s2 = (False, s3)"
      "settle_loop env (Suc fuel) inner sel d ms s = (False, s3)"
  | (retry) now s1 s2 s3 where "\<not> flushing s" "monotonic_now env s = (now, s1)" "now < d"
      "reopen_once env inner sel d s1 = (False, s2)"
      "interruptible_wait env (ms * G_TIME_SPAN_MILLISECOND) s2 = (True, s3)"
      "settle_loop env (Suc fuel) inner sel d ms s =
         settle_loop env fuel inner sel d (min (ms * 2) 200) s3"
  | (reopened) now s1 s2 now2 s3 got s4 where "\<not> flushing s" "monotonic_now env s = (now, s1)"
      "now < d" "reopen_once env inner sel d s1 = (True, s2)" "monotonic_now env s2 = (now2, s3)"
      "(if min (d - now2) TIMEOUT_DURATION > 0
        then await_first_frame env inner (min (d - now2) TIMEOUT_DURATION) s3
        else (False, s3)) = (got, s4)"
      "settle_loop env (Suc fuel) inner sel d ms s =
         (if got then (True, s4)
          else settle_loop env fuel inner sel d ms (drain_queue (teardown_handle s4)))"
proof -
  obtain now s1 where n: "monotonic_now env s = (now, s1)" by fastforce
  obtain r s2 where r: "reopen_once env inner sel d s1 = (r, s2)" by fastforce
  obtain w s3 where w: "interruptible_wait env (ms * G_TIME_SPAN_MILLISECOND) s2 = (w, s3)" by fastforce
  obtain now2 t3 where n2: "monotonic_now env s2 = (now2, t3)" by fastforce
  obtain got s4 where g: "(if min (d - now2) TIMEOUT_DURATION > 0
      then await_first_frame env inner (min (d - now2) TIMEOUT_DURATION) t3
      else (False, t3)) = (got, s4)" by fastforce
  consider "flushing s" | "\<not> flushing s" "d \<le> now" | "\<not> flushing s" "now < d" "\<not> r" "\<not> w"
    | "\<not> flushing s" "now < d" "\<not> r" "w" | "\<not> flushing s" "now < d" "r" by linarith
  then show thesis
  proof cases
    case 1
    then show thesis using flush by simp
  next
    case 2
    then show thesis using expired n by simp
  next
    case 3
    then show thesis using interrupted n r w by simp
  next
    case 4
    then show thesis using retry n r w by simp
  next
    case 5
    then have "settle_loop env (Suc fuel) inner sel d ms s =
         (if got then (True, s4)
          else settle_loop env fuel inner sel d ms (drain_queue (teardown_handle s4)))"
      unfolding settle_loop.simps n prod.case Let_def r
      by (simp only: n2 prod.case g bool.case if_False not_le simp_thms) simp
    then show thesis using reopened 5 n r n2 g by simp
  qed
qed

declare settle_loop.simps(2) [simp del]

lemma settle_loop_ready: "settle_loop env fuel inner sel d ms s = (True, t) \<Longrightarrow> frame_ready t"
proof (induction fuel arbitrary: ms s)
  case (Suc fuel)
  show ?case
  proof (cases rule: settle_loop_step [where env = env and fuel = fuel and inner = inner and sel = sel
        and d = d and ms = ms and s = s])
    case (reopened now s1 s2 now2 s3 got s4)
    show ?thesis
    proof (cases got)
      case True
      then have "t = s4" "\<exists>d'. await_loop env inner d' (snd (monotonic_now env s3)) = (True, s4)"
        using Suc.prems reopened by (auto simp: await_first_frame_def split: if_splits prod.splits)
      then show ?thesis using await_loop_ready by blast
    qed (use Suc reopened in simp)
  qed (use Suc in simp_all)
qed simp

lemma recover_ready: "recover_wedged_device env fuel s = (True, t) \<Longrightarrow> frame_ready t"
  by (auto simp: recover_wedged_device_def escalate_def settle_until_frame_def Let_def
      split: sum.splits prod.splits bool.splits if_splits dest: settle_loop_ready)

lemma ready_turn:
  assumes "frame_ready t"
  obtains b q where "queue_of t = Frame b # q"
    "\<And>env n m. create_loop env (Suc n) m t =
       (FLOW_OK (Frame b), note_frame (set_queue q (log_call Ev_pop t)))"
proof -
  obtain b q where q: "\<not> flushing t" "queue_of t = Frame b # q"
    using assms by (auto simp: frame_ready_def)
  then have "timeout_pop env t = (Some (Frame b), set_queue q (log_call Ev_pop t))" for env
    by (simp add: timeout_pop_def Let_def log_call_def)
  then have "create_loop env (Suc n) m t =
      (FLOW_OK (Frame b), note_frame (set_queue q (log_call Ev_pop t)))" for env n m
    using q by (simp add: create_loop.simps(2) set_queue_def log_call_def)
  with q show thesis using that by blast
qed

subsection \<open>The schedule of the ladder\<close>

lemma wait_logged:
  assumes "interruptible_wait env us s = (b, t)" "0 < us"
  shows "(waits t = waits s @ [us] \<or> waits t = waits s \<and> \<not> b) \<and> (\<not> b \<longrightarrow> flushing t)"
  using assms
  by (auto simp: interruptible_wait_def Let_def waits_def log_call_def interfere_def src_unlock_def
      set_queue_def split: if_splits)

lemma reconnect_loop_schedule:
  "reconnect_loop env fuel sel a n s = (b, t) \<Longrightarrow>
   \<exists>k \<le> n. waits t = waits s @ map backoff_wait_us [a..<a + k] \<and> (b \<longrightarrow> 0 < k) \<and>
     (\<not> b \<and> \<not> flushing t \<longrightarrow> k = n)"
proof (induction n arbitrary: a s)
  case (Suc n)
  obtain w s1 where w: "interruptible_wait env (backoff_wait_us a) s = (w, s1)" by fastforce
  note 1 = wait_logged [OF w]
  obtain r s2 where r: "reopen_once env fuel sel 0 s1 = (r, s2)" by fastforce
  have 2: "waits s2 = waits s1" using no_wait.R_reopen [OF r] by (simp add: same_waits_def)
  show ?case
  proof (cases w)
    case False
    then have 3: "b = False" "t = s1" "waits s1 = waits s @ [backoff_wait_us a] \<or> waits s1 = waits s"
        "flushing s1"
      using Suc.prems w 1 by (auto simp: backoff_wait_us_def)
    then show ?thesis
    proof (cases "waits s1 = waits s")
      case True
      then show ?thesis using 3 by (intro exI [of _ 0]) simp
    next
      case False
      then show ?thesis using 3 by (intro exI [of _ 1]) simp
    qed
  next
    case True
    then have w1: "waits s2 = waits s @ [backoff_wait_us a]" using 1 2 by (simp add: backoff_wait_us_def)
    show ?thesis
    proof (cases r)
      case True
      then show ?thesis using Suc.prems w r \<open>w\<close> w1 by (intro exI [of _ 1]) auto
    next
      case False
      then have "reconnect_loop env fuel sel (a + 1) n s2 = (b, t)" using Suc.prems w r \<open>w\<close> by simp
      from Suc.IH [OF this] obtain k where k: "k \<le> n"
          "waits t = waits s2 @ map backoff_wait_us [a + 1..<a + 1 + k]"
          "\<not> b \<and> \<not> flushing t \<longrightarrow> k = n" by blast
      have "[a..<a + Suc k] = a # [a + 1..<a + 1 + k]" by (simp add: upt_conv_Cons)
      then show ?thesis using k w1 by (intro exI [of _ "Suc k"]) auto
    qed
  qed
qed simp

subsection \<open>What create answers\<close>









subsection \<open>Properties of the ladder\<close>

definition demo_attached :: elem where
  "demo_attached = demo_elem\<lparr>uvc_ctx := Some 1, uvc_dev := Some demo_device, uvc_devh := Some 7,
     calls := [Ev_init (Some 1), Ev_resolved (Some demo_device), Ev_open demo_device (Some 7)]\<rparr>"

lemma attached_demo: "attached demo_attached"
  by (simp add: demo_attached_def attached_def protocol_defs demo_elem_def src_init_def view_of_def
      idle_view_def)

text \<open>
  Claim C15. A recovery of a wedged camera reports success only with a delivered frame in hand: the stream
  runs on an open handle, no flush is on, the frame is at the head of the queue, and the next
  turn of \<open>create\<close> hands exactly that frame on.
\<close>
theorem recovery_needs_frame:
  assumes "attached s" "recover_wedged_device env fuel s = (True, t)"
  shows "streaming t \<and> uvc_devh t \<noteq> None \<and> \<not> flushing t \<and>
    (\<exists>b q. queue_of t = Frame b # q \<and>
       create_loop env' (Suc n) m t =
         (FLOW_OK (Frame b), note_frame (set_queue q (log_call Ev_pop t))))"
proof -
  have "attached t \<and> streaming t" using recover_protocol [OF assms(2,1)] by simp
  moreover have r: "frame_ready t" using recover_ready [OF assms(2)] .
  ultimately show ?thesis by (rule_tac ready_turn [OF r]) (auto simp: attached_def frame_ready_def)
qed

lemma recovery_needs_frame_witness:
  "streaming (snd (recover_wedged_device demo_wedged 3 demo_attached)) \<and>
   (\<exists>b q. queue_of (snd (recover_wedged_device demo_wedged 3 demo_attached)) = Frame b # q)"
proof -
  have "fst (recover_wedged_device demo_wedged 3 demo_attached)" by code_simp
  then have "recover_wedged_device demo_wedged 3 demo_attached =
      (True, snd (recover_wedged_device demo_wedged 3 demo_attached))"
    by (metis prod.collapse)
  from recovery_needs_frame [OF attached_demo this] show ?thesis by blast
qed

lemma reconnect_schedule:
  assumes "reconnect env fuel s = (ok, t)" "parse_selector (index (media s)) = Inr sel"
  shows "\<exists>k \<le> 5. waits t = waits s @ take k [1000000, 2000000, 4000000, 8000000, 16000000] \<and>
    (ok \<longrightarrow> 0 < k) \<and> (\<not> ok \<and> \<not> flushing t \<longrightarrow> k = 5)"
proof -
  define s1 where "s1 = drain_queue (teardown_handle s)"
  have "reconnect_loop env fuel sel 0 5 s1 = (ok, t)"
    using assms by (simp add: reconnect_def reconnect_bounded_def s1_def RECONNECT_MAX_RETRIES_def)
  from reconnect_loop_schedule [OF this] obtain k where k: "k \<le> 5"
      "waits t = waits s1 @ map backoff_wait_us [0..<k]" "ok \<longrightarrow> 0 < k"
      "\<not> ok \<and> \<not> flushing t \<longrightarrow> k = 5" by auto
  have "waits s1 = waits s"
    using no_wait.R_trans [OF no_wait.R_teardown no_wait.R_drain, of s]
    by (simp add: same_waits_def s1_def)
  moreover have "map backoff_wait_us [0..<k] = take k (map backoff_wait_us [0..<5])"
    using k(1) by (simp add: take_map)
  moreover have "map backoff_wait_us [0..<5] = [1000000, 2000000, 4000000, 8000000, 16000000]"
    by (simp add: backoff_wait_us_def upt_rec)
  ultimately show ?thesis using k by (intro exI [of _ k]) simp
qed

text \<open>
  Claim C17. The reconnect ladder keeps its schedule: it waits 1, 2, 4, 8 and 16 s, in this order and at
  most once each, and nothing in between; it gives up early only for a flush, and it succeeds
  only after a wait. The one other way out is an index that no longer parses, which may be set at
  any time: then it refuses at once and nothing is touched.
\<close>
theorem reconnect_backoff:
  assumes "reconnect env fuel s = (ok, t)"
  shows "case parse_selector (index (media s)) of
      Inl e \<Rightarrow> \<not> ok \<and> t = s
    | Inr sel \<Rightarrow>
        \<exists>k \<le> 5. waits t = waits s @ take k [1000000, 2000000, 4000000, 8000000, 16000000] \<and>
          (ok \<longrightarrow> 0 < k) \<and> (\<not> ok \<and> \<not> flushing t \<longrightarrow> k = 5)"
proof (cases "parse_selector (index (media s))")
  case (Inl e)
  then show ?thesis using assms by (simp add: reconnect_def reconnect_bounded_def)
next
  case (Inr sel)
  from reconnect_schedule [OF assms Inr] show ?thesis by (simp add: Inr)
qed

lemma reconnect_backoff_witness:
  "\<exists>k \<le> 5. waits (snd (reconnect demo_live 2 demo_running)) =
     take k [1000000, 2000000, 4000000, 8000000, 16000000]"
proof -
  have "\<not> isl (parse_selector (index (media demo_running)))" by code_simp
  then obtain sel where sel: "parse_selector (index (media demo_running)) = Inr sel"
    by (cases "parse_selector (index (media demo_running))") auto
  obtain ok t where r: "reconnect demo_live 2 demo_running = (ok, t)" by fastforce
  have "waits demo_running = []"
    by (simp add: waits_def demo_running_def demo_elem_def src_init_def)
  then show ?thesis using reconnect_backoff [OF r] r sel by auto
qed



end
