(* ===== verification/RecoveryTermination.thy ===== *)
theory RecoveryTermination
  imports RecoveryLadder SessionInvariants
begin

text \<open>
  Enough fuel. Where the clocks advance by at least a microsecond with every call, the loops that
  wait for the outside world end: for every one of them there is a fuel from which on the answer
  is the same and the element is not marked as stuck. \<open>create\<close> answers when \<open>reconnect\<close> is off;
  with \<open>reconnect\<close> on, a camera that always reopens and never delivers keeps it busy for ever.
\<close>

definition advancing :: "uvc_env \<Rightarrow> bool" where
  "advancing env \<longleftrightarrow> (\<forall>h. int (length h) \<le> env_now env h) \<and> (\<forall>h n. int n \<le> env_poll_time env h n)"

subsection \<open>Resolving and reopening\<close>

lemma resolve_loop_mono:
  "resolve_loop e sel d f n iv ws = Some r \<Longrightarrow> f \<le> f' \<Longrightarrow> resolve_loop e sel d f' n iv ws = Some r"
proof (induction f arbitrary: f' n iv ws)
  case (Suc f)
  then obtain g where g: "f' = Suc g" "f \<le> g" by (cases f') auto
  from Suc.prems(1) Suc.IH [OF _ g(2)] show ?case
    unfolding g(1) by (auto simp: resolve_loop.simps(2) Let_def split: option.splits if_splits)
qed simp

lemma resolve_enough:
  assumes "advancing env" "nat d < f"
  shows "resolve_device (poll_env_of env s) sel d f = resolve_device (poll_env_of env s) sel d (Suc (nat d))"
    "resolve_device (poll_env_of env s) sel d f \<noteq> None"
proof -
  have "int (nat d) \<le> monotonic_time (poll_env_of env s) (nat d)"
    using assms(1) by (simp add: advancing_def poll_env_of_def del: int_nat_eq)
  then have "d = 0 \<or> d \<le> monotonic_time (poll_env_of env s) (nat d)" by linarith
  from resolve_loop_returns [OF this, of 0 "Suc (nat d)" sel RESET_POLL_INITIAL_MS "[]"] obtain r where
    r: "resolve_device (poll_env_of env s) sel d (Suc (nat d)) = Some r"
    by (auto simp: resolve_device_def)
  from resolve_loop_mono [OF r [unfolded resolve_device_def], of f] assms(2)
  have "resolve_device (poll_env_of env s) sel d f = Some r" by (simp add: resolve_device_def)
  with r show "resolve_device (poll_env_of env s) sel d f = resolve_device (poll_env_of env s) sel d (Suc (nat d))"
    "resolve_device (poll_env_of env s) sel d f \<noteq> None" by simp_all
qed

lemma reopen_enough:
  assumes "advancing env" "nat d < f"
  shows "reopen_once env f sel d s = reopen_once env (Suc (nat d)) sel d s"
  unfolding reopen_once_def resolve_in_def resolve_enough(1) [OF assms] ..

lemma reopen_not_stuck:
  assumes "advancing env" "nat d < f" "reopen_once env f sel d s = (b, t)"
  shows "stuck t = stuck s"
  using fuelled.R_reopened [OF assms(3) resolve_enough(2) [OF assms(1,2)]] by (simp add: same_stuck_def)

lemma calls_grow: "steady s t \<Longrightarrow> length (calls s) \<le> length (calls t)"
  by (simp add: steady_def same_config_def prefix_length_le)

lemma now_grows:
  "advancing env \<Longrightarrow> monotonic_now env s = (n, t) \<Longrightarrow>
   int (length (calls s)) \<le> n \<and> length (calls t) = Suc (length (calls s))"
  by (auto simp: advancing_def monotonic_now_def log_call_def)

subsection \<open>A delivered frame\<close>

lemma pop_sentinel:
  assumes "timeout_pop env s = (Some Flush_sentinel, t)" "no_stale s"
  shows "flushing t"
proof -
  define s1 where "s1 = log_call Ev_pop (if queue_of s = [] then interfere env s else s)"
  have "no_stale s1" unfolding s1_def
    using assms(2) fresh_steps.R_interfere [of s env] fresh_steps.R_pops
    by (auto simp: stays_fresh_def)
  moreover obtain q where "queue_of s1 = Flush_sentinel # q" "t = set_queue q s1"
    using assms(1) by (auto simp: timeout_pop_def Let_def s1_def split: list.splits)
  ultimately show ?thesis by (auto simp: no_stale_def set_queue_def)
qed

lemma await_enough:
  assumes "no_stale s" "0 < f"
  shows "await_first_frame env f us s = await_first_frame env 1 us s"
    "await_first_frame env f us s = (b, t) \<Longrightarrow> stuck t = stuck s"
proof -
  obtain g where g: "f = Suc g" using assms(2) by (cases f) auto
  obtain n s1 where n: "monotonic_now env s = (n, s1)" by fastforce
  have 1: "no_stale s1" "stuck s1 = stuck s"
    using fresh_steps.R_now [OF n] fuelled.R_now [OF n] assms(1)
    by (simp_all add: stays_fresh_def same_stuck_def)
  obtain n2 s2 where n2: "monotonic_now env s1 = (n2, s2)" by fastforce
  have 2: "no_stale s2" "stuck s2 = stuck s"
    using fresh_steps.R_now [OF n2] fuelled.R_now [OF n2] 1
    by (simp_all add: stays_fresh_def same_stuck_def)
  obtain i s3 where p: "timeout_pop env s2 = (i, s3)" by fastforce
  have 3: "stuck s3 = stuck s" using fuelled.R_pop [OF p] 2 by (simp add: same_stuck_def)
  have one: "await_loop env (Suc g) d s1 =
      (if d - n2 \<le> 0 then (False, s2) else case i of None \<Rightarrow> (False, s3)
       | Some item \<Rightarrow> if flushing s3 then (False, s3) else (True, set_queue (item # queue_of s3) s3))"
    for d g
    using n2 p pop_sentinel [of env s2 s3] 2(1) by (auto split: option.split)
  show "await_first_frame env f us s = await_first_frame env 1 us s"
    unfolding g One_nat_def await_first_frame_def n prod.case Let_def one ..
  show "stuck t = stuck s" if "await_first_frame env f us s = (b, t)"
    using that 2 3 unfolding g await_first_frame_def n prod.case Let_def one
    by (auto simp: set_queue_def split: if_splits option.splits)
qed

subsection \<open>Settling\<close>

lemma settle_turn:
  assumes "advancing env" "no_stale s"
  obtains
    (ends) b t where "\<And>n i. nat d < i \<Longrightarrow> settle_loop env (Suc n) i sel d ms s = (b, t)"
      "stuck t = stuck s"
  | (again) ms' t where "\<And>n i. nat d < i \<Longrightarrow>
        settle_loop env (Suc n) i sel d ms s = settle_loop env n i sel d ms' t"
      "no_stale t" "stuck t = stuck s" "length (calls s) < length (calls t)"
      "int (length (calls s)) < d"
proof -
  define k where "k = Suc (nat d)"
  obtain now s1 where n: "monotonic_now env s = (now, s1)" by fastforce
  note 1 = now_grows [OF assms(1) n]
  obtain r s2 where r: "reopen_once env k sel d s1 = (r, s2)" by fastforce
  have ri: "reopen_once env i sel d s1 = (r, s2)" if "nat d < i" for i
    using reopen_enough [OF assms(1) that] r by (simp add: k_def)
  have c2: "length (calls s) < length (calls s2)"
    using 1 calls_grow [OF quiet_steps.R_reopen [OF r]] by simp
  have f2: "no_stale s1" "no_stale s2" "stuck s1 = stuck s" "stuck s2 = stuck s"
    using fresh_steps.R_now [OF n] fresh_steps.R_reopen [OF r] fuelled.R_now [OF n]
      reopen_not_stuck [OF assms(1) _ r] assms(2)
    by (auto simp: stays_fresh_def same_stuck_def k_def)
  obtain w s3 where w: "interruptible_wait env (ms * G_TIME_SPAN_MILLISECOND) s2 = (w, s3)" by fastforce
  have f3: "no_stale s3" "stuck s3 = stuck s" "length (calls s2) \<le> length (calls s3)"
    using fresh_steps.R_wait [OF w] fuelled.R_wait [OF w] calls_grow [OF quiet_steps.R_wait [OF w]] f2
    by (auto simp: stays_fresh_def same_stuck_def)
  obtain now2 t3 where n2: "monotonic_now env s2 = (now2, t3)" by fastforce
  have g3: "no_stale t3" "stuck t3 = stuck s" "length (calls s2) \<le> length (calls t3)"
    using fresh_steps.R_now [OF n2] fuelled.R_now [OF n2] calls_grow [OF quiet_steps.R_now [OF n2]] f2
    by (auto simp: stays_fresh_def same_stuck_def)
  define us where "us = min (d - now2) TIMEOUT_DURATION"
  obtain got s4 where g: "(if us > 0 then await_first_frame env 1 us t3 else (False, t3)) = (got, s4)"
    by fastforce
  have gi: "(if us > 0 then await_first_frame env i us t3 else (False, t3)) = (got, s4)"
    if "nat d < i" for i
    using await_enough(1) [OF g3(1), of i] g that by (auto split: if_splits)
  have f4: "no_stale s4" "stuck s4 = stuck s" "length (calls s2) \<le> length (calls s4)"
    using g g3 fresh_steps.R_await [of env 1 us t3 got s4] await_enough(2) [OF g3(1), of 1 env us got s4]
      calls_grow [OF quiet_steps.R_await, of env 1 us t3 got s4]
    by (auto simp: stays_fresh_def split: if_splits)
  define s5 where "s5 = drain_queue (teardown_handle s4)"
  have s5: "no_stale s5" "stuck s5 = stuck s" "length (calls s4) \<le> length (calls s5)"
    using fresh_steps.R_trans [OF fresh_steps.R_teardown fresh_steps.R_drain, of s4]
      fuelled.R_trans [OF fuelled.R_teardown fuelled.R_drain, of s4]
      calls_grow [OF quiet_steps.R_trans [OF quiet_steps.R_teardown quiet_steps.R_drain], of s4] f4
    by (auto simp: s5_def stays_fresh_def same_stuck_def)
  have eq: "settle_loop env (Suc m) i sel d ms s =
      (if flushing s then (False, s) else if now \<ge> d then (False, s1)
       else if r then (if got then (True, s4) else settle_loop env m i sel d ms s5)
       else if w then settle_loop env m i sel d (min (ms * 2) 200) s3 else (False, s3))"
    if "nat d < i" for m i
    unfolding settle_loop.simps(2) n prod.case Let_def ri [OF that]
    by (cases r) (simp_all only: bool.case n2 prod.case us_def [symmetric] gi [OF that]
        s5_def [symmetric] w if_True if_False, simp_all split: bool.split)
  consider "flushing s" | "\<not> flushing s" "d \<le> now" | "\<not> flushing s" "now < d" "r" "got"
    | "\<not> flushing s" "now < d" "r" "\<not> got" | "\<not> flushing s" "now < d" "\<not> r" "w"
    | "\<not> flushing s" "now < d" "\<not> r" "\<not> w" by linarith
  then show thesis
  proof cases
    case 1
    then show thesis using ends [of False s] eq by simp
  next
    case 2
    then show thesis using ends [of False s1] eq f2 by simp
  next
    case 3
    then show thesis using ends [of True s4] eq f4 by simp
  next
    case 4
    show thesis by (rule again [of ms s5]) (use eq 4 1 c2 f4 s5 in auto)
  next
    case 5
    show thesis by (rule again [of "min (ms * 2) 200" s3]) (use eq 5 1 c2 f3 in auto)
  next
    case 6
    then show thesis using ends [of False s3] eq f3 by simp
  qed
qed

lemma settle_returns:
  assumes "advancing env"
  shows "no_stale s \<Longrightarrow> \<exists>N b t. stuck t = stuck s \<and>
    (\<forall>n\<ge>N. \<forall>i. nat d < i \<longrightarrow> settle_loop env n i sel d ms s = (b, t))"
proof (induction "nat (d - int (length (calls s)))" arbitrary: s ms rule: less_induct)
  case less
  from assms less.prems show ?case
  proof (cases rule: settle_turn [where d = d and sel = sel and ms = ms])
    case (ends b t)
    have "settle_loop env n i sel d ms s = (b, t)" if "Suc 0 \<le> n" "nat d < i" for n i
      using ends(1) [OF that(2), of "n - 1"] that(1) by simp
    with ends(2) show ?thesis by blast
  next
    case (again ms' u)
    have "nat (d - int (length (calls u))) < nat (d - int (length (calls s)))"
      using again(4,5) by linarith
    from less.hyps [OF this again(2), of ms'] obtain N b t where
      t: "stuck t = stuck u" "\<forall>n\<ge>N. \<forall>i. nat d < i \<longrightarrow> settle_loop env n i sel d ms' u = (b, t)"
      by blast
    have "settle_loop env n i sel d ms s = (b, t)" if "Suc N \<le> n" "nat d < i" for n i
      using again(1) [OF that(2), of "n - 1"] t(2) that by simp
    with t(1) again(3) show ?thesis by metis
  qed
qed

subsection \<open>The whole recovery\<close>

definition returns :: "(nat \<Rightarrow> 'r \<times> elem) \<Rightarrow> elem \<Rightarrow> bool" where
  \<comment> \<open>from some fuel on the answer is always the same and no loop ran out of it\<close>
  "returns f s \<longleftrightarrow> (\<exists>N r t. stuck t = stuck s \<and> (\<forall>n\<ge>N. f n = (r, t)))"

lemma returnsI: "(\<And>n. f n = (r, t)) \<Longrightarrow> stuck t = stuck s \<Longrightarrow> returns f s"
  by (auto simp: returns_def)

lemma returns_eventually: "returns g s \<Longrightarrow> (\<And>n. N \<le> n \<Longrightarrow> f n = g n) \<Longrightarrow> returns f s"
  unfolding returns_def by (metis max.bounded_iff max.cobounded1 max.cobounded2)

lemma returns_from: "returns f s \<Longrightarrow> stuck s = stuck s0 \<Longrightarrow> returns f s0"
  by (simp add: returns_def)

lemma settle_until_returns:
  assumes "advancing env" "no_stale s"
  shows "returns (\<lambda>n. settle_until_frame env n sel d s) s"
proof -
  obtain N b t where t: "stuck t = stuck s"
      "\<forall>n\<ge>N. \<forall>i. nat d < i \<longrightarrow> settle_loop env n i sel d 25 s = (b, t)"
    using settle_returns [OF assms, of d sel 25] by blast
  then have "\<forall>n\<ge>max N (Suc (nat d)). settle_until_frame env n sel d s = (b, t)"
    by (auto simp: settle_until_frame_def)
  with t(1) show ?thesis unfolding returns_def by blast
qed

lemma deep_not_stuck: "deep_recovery env s = (b, t) \<Longrightarrow> stuck t = stuck s \<and> flushing t = flushing s \<and> queue_of t = queue_of s"
  by (auto simp: deep_recovery_def split: if_splits prod.splits)

lemma escalate_returns:
  assumes "advancing env" "no_stale s"
  shows "returns (\<lambda>n. escalate env n sel ms s) s"
proof -
  obtain d s1 where d: "deep_recovery env s = (d, s1)" by fastforce
  obtain c s2 where c: "reinit_context env s1 = (c, s2)" by fastforce
  obtain dl s3 where dl: "settle_deadline env ms s2 = (dl, s3)" by fastforce
  have 1: "no_stale s1" "stuck s1 = stuck s"
    using deep_not_stuck [OF d] assms(2) by (simp_all add: no_stale_def)
  have 2: "stuck s2 = stuck s" using fuelled.R_reinit [OF c] 1 by (simp add: same_stuck_def)
  have 3: "no_stale s3" "stuck s3 = stuck s"
    using fresh_steps.R_reinit [OF c] fresh_steps.R_deadline [OF dl] fuelled.R_deadline [OF dl] 1 2
    by (auto simp: stays_fresh_def same_stuck_def)
  show ?thesis
  proof (cases "flushing s \<or> \<not> d \<or> \<not> c")
    case True
    then have "escalate env n sel ms s =
        (False, if flushing s then s else if \<not> d then s1 else s2)" for n
      using d c by (auto simp: escalate_def)
    then show ?thesis by (rule returnsI) (simp add: 1 2)
  next
    case False
    then have "escalate env n sel ms s = settle_until_frame env n sel dl s3" for n
      using d c dl by (simp add: escalate_def)
    then show ?thesis
      using returns_from [OF settle_until_returns [OF assms(1) 3(1), of sel dl] 3(2)] by simp
  qed
qed

lemma recover_returns:
  assumes "advancing env" "no_stale s"
  shows "returns (\<lambda>n. recover_wedged_device env n s) s"
proof (cases "parse_selector (index (media s))")
  case (Inl e)
  then show ?thesis by (intro returnsI [of _ False s]) (simp_all add: recover_wedged_device_def)
next
  case (Inr sel)
  define s0 where "s0 = capture_recovery_target env s"
  obtain r s1 where r: "reset_silent_device env s0 = (r, s1)" by fastforce
  have 1: "no_stale s1" "stuck s1 = stuck s"
    using assms(2) r
    by (auto simp: s0_def capture_recovery_target_def reset_silent_device_def Let_def no_stale_def
        log_call_def split: if_splits option.splits)
  define ms where "ms = reset_settle_max_ms s1"
  obtain dl s2 where dl: "settle_deadline env ms s1 = (dl, s2)" by fastforce
  define s3 where "s3 = drain_queue (teardown_handle s2)"
  obtain c s4 where c: "reinit_context env s3 = (c, s4)" by fastforce
  have "no_stale s3" "stuck s3 = stuck s"
    using fresh_steps.R_deadline [OF dl] fuelled.R_deadline [OF dl] 1
      fresh_steps.R_trans [OF fresh_steps.R_teardown fresh_steps.R_drain, of s2]
      fuelled.R_trans [OF fuelled.R_teardown fuelled.R_drain, of s2]
    by (auto simp: stays_fresh_def same_stuck_def s3_def)
  then have 4: "no_stale s4" "stuck s4 = stuck s"
    using fresh_steps.R_reinit [OF c] fuelled.R_reinit [OF c]
    by (auto simp: stays_fresh_def same_stuck_def)
  obtain N f s5 where f: "stuck s5 = stuck s4" "\<forall>n\<ge>N. settle_until_frame env n sel dl s4 = (f, s5)"
    using settle_until_returns [OF assms(1) 4(1), of sel dl] by (auto simp: returns_def)
  then have "settle_loop env N N sel dl 25 s4 = (f, s5)" by (simp add: settle_until_frame_def)
  then have 5: "no_stale s5" using fresh_steps.R_settle_loop 4 by (auto simp: stays_fresh_def)
  have eq: "recover_wedged_device env n s =
      (if \<not> r then (False, s1) else if \<not> c then (False, s4) else if f then (True, s5)
       else escalate env n sel ms s5)" if "N \<le> n" for n
    using Inr r dl c f(2) that
    by (simp add: recover_wedged_device_def s0_def [symmetric] ms_def [symmetric] s3_def [symmetric]
        Let_def split: bool.split)
  have "returns (\<lambda>n. escalate env n sel ms s5) s"
    using returns_from [OF escalate_returns [OF assms(1) 5]] f(1) 4(2) by simp
  then have "returns (\<lambda>n. if \<not> r then (False, s1) else if \<not> c then (False, s4)
      else if f then (True, s5) else escalate env n sel ms s5) s"
    using 1 4 f(1)
    by (cases "\<not> r"; cases "\<not> c"; cases f) (simp_all add: returnsI [of _ False s1]
        returnsI [of _ False s4] returnsI [of _ True s5])
  then show ?thesis by (rule returns_eventually) (rule eq)
qed

subsection \<open>create\<close>

lemma silence_returns:
  assumes "advancing env" "no_stale s" "\<not> reconnect_enabled s"
  shows "returns (\<lambda>n. handle_silence env n s) s"
proof (cases "reset_recovery_used s \<or> \<not> auto_port_reset s")
  case True
  then show ?thesis using assms(3) by (intro returnsI [of _ False s]) (auto simp: handle_silence_def)
next
  case False
  define s1 where "s1 = s\<lparr>reset_recovery_used := True, frames_since_reset := 0\<rparr>"
  have "no_stale s1" "stuck s1 = stuck s" using assms(2) by (simp_all add: s1_def no_stale_def)
  with returns_from [OF recover_returns [OF assms(1)]] False assms(3) show ?thesis
    by (simp add: handle_silence_def s1_def)
qed

lemma silence_recovers_ready:
  assumes "handle_silence env n s = (True, t)" "\<not> reconnect_enabled s"
  shows "frame_ready t"
proof -
  have "recover_wedged_device env n (s\<lparr>reset_recovery_used := True, frames_since_reset := 0\<rparr>) = (True, t)"
    using assms by (simp add: handle_silence_def split: if_splits)
  then show ?thesis by (rule recover_ready)
qed

lemma no_stale_update [simp]: "no_stale (s\<lparr>consecutive_timeouts := k\<rparr>) = no_stale s"
  by (simp add: no_stale_def)

definition create_returns :: "uvc_env \<Rightarrow> elem \<Rightarrow> bool" where
  "create_returns env s \<longleftrightarrow>
     (\<exists>N r t. stuck t = stuck s \<and> (\<forall>n\<ge>N. \<forall>i\<ge>N. create_loop env n i s = (r, t)))"

lemma create_returnsI:
  assumes "\<And>n i. N \<le> i \<Longrightarrow> create_loop env (Suc n) i s = create_loop env n i u"
    "stuck u = stuck s" "create_returns env u"
  shows "create_returns env s"
proof -
  obtain M r t where t: "stuck t = stuck u" "\<forall>n\<ge>M. \<forall>i\<ge>M. create_loop env n i u = (r, t)"
    using assms(3) by (auto simp: create_returns_def)
  have "create_loop env n i s = (r, t)" if "Suc (max M N) \<le> n" "Suc (max M N) \<le> i" for n i
    using assms(1) [of i "n - 1"] t(2) that by simp
  with t(1) assms(2) show ?thesis unfolding create_returns_def by metis
qed

lemma create_returns_now:
  assumes "\<And>n i. N \<le> i \<Longrightarrow> create_loop env (Suc n) i s = (r, t)" "stuck t = stuck s"
  shows "create_returns env s"
proof -
  have "create_loop env n i s = (r, t)" if "Suc N \<le> n" "Suc N \<le> i" for n i
    using assms(1) [of i "n - 1"] that by simp
  with assms(2) show ?thesis unfolding create_returns_def by blast
qed

lemma create_loop_returns:
  assumes "advancing env"
  shows "no_stale s \<Longrightarrow> \<not> reconnect_enabled s \<Longrightarrow> create_returns env s"
proof (induction "nat (5 - consecutive_timeouts s)" arbitrary: s rule: less_induct)
  case less
  obtain i s1 where p: "timeout_pop env s = (i, s1)" by fastforce
  have 1: "no_stale s1" "stuck s1 = stuck s" "\<not> reconnect_enabled s1"
      "consecutive_timeouts s1 = consecutive_timeouts s"
    using fresh_steps.R_pop [OF p] fuelled.R_pop [OF p] quiet_steps.R_pop [OF p] less.prems
    by (auto simp: stays_fresh_def same_stuck_def steady_def same_config_def same_episode_def)
  define s2 where "s2 = s1\<lparr>consecutive_timeouts := consecutive_timeouts s1 + 1\<rparr>"
  show ?case
  proof (cases "flushing s1")
    case True
    then show ?thesis using p 1
      by (intro create_returns_now [of 0 _ _ FLOW_FLUSHING s1]) (simp_all add: create_loop.simps(2))
  next
    case nf: False
    show ?thesis
    proof (cases i)
      case (Some item)
      then obtain b where "item = Frame b" using pop_sentinel [of env s s1] p less.prems(1) nf by (cases item) auto
      then show ?thesis using p nf Some 1
        by (intro create_returns_now [of 0 _ _ "FLOW_OK (Frame b)" "note_frame s1"])
          (simp_all add: create_loop.simps(2) note_frame_def Let_def)
    next
      case None
      show ?thesis
      proof (cases "consecutive_timeouts s2 < 5")
        case True
        have "nat (5 - consecutive_timeouts s2) < nat (5 - consecutive_timeouts s)"
          using True 1(4) by (simp add: s2_def)
        from less.hyps [OF this] 1 have "create_returns env s2" by (simp add: s2_def)
        then show ?thesis using p nf None True 1
          by - (rule create_returnsI [of 0 _ _ s2],
            simp_all add: create_loop.simps(2) s2_def Let_def DISCONNECT_TIMEOUT_COUNT_def)
      next
        case False
        have "no_stale s2" "\<not> reconnect_enabled s2" using 1 by (simp_all add: s2_def)
        from silence_returns [OF assms this] obtain N b s3 where
          h: "stuck s3 = stuck s2" "\<forall>n\<ge>N. handle_silence env n s2 = (b, s3)"
          by (auto simp: returns_def)
        have turn: "create_loop env (Suc n) i s =
            (if b then create_loop env n i (s3\<lparr>consecutive_timeouts := 0\<rparr>)
             else if flushing s3 then (FLOW_FLUSHING, s3)
             else (FLOW_ERROR, s3\<lparr>messages := post_disconnect_error (messages s3)\<rparr>))"
          if "N \<le> i" for n i
          using p nf None False h(2) that
          by (cases b) (simp_all add: create_loop.simps(2) Let_def s2_def DISCONNECT_TIMEOUT_COUNT_def)
        have st: "stuck s3 = stuck s" using h(1) 1 by (simp add: s2_def)
        show ?thesis
        proof (cases b)
          case True
          have "frame_ready s3"
            using silence_recovers_ready [of env N s2 s3] h(2) True \<open>\<not> reconnect_enabled s2\<close> by simp
          then have fr: "frame_ready (s3\<lparr>consecutive_timeouts := 0\<rparr>)" by (simp add: frame_ready_def)
          obtain bf q where q: "\<And>env n m. create_loop env (Suc n) m (s3\<lparr>consecutive_timeouts := 0\<rparr>) =
             (FLOW_OK (Frame bf), note_frame (set_queue q (log_call Ev_pop (s3\<lparr>consecutive_timeouts := 0\<rparr>))))"
            using ready_turn [OF fr] by metis
          have "create_returns env (s3\<lparr>consecutive_timeouts := 0\<rparr>)"
            by (rule create_returns_now [OF q]) (simp add: note_frame_def Let_def set_queue_def log_call_def)
          then show ?thesis using turn True st 
            by - (rule create_returnsI [of N _ _ "s3\<lparr>consecutive_timeouts := 0\<rparr>"], simp_all)
        next
          case False
          show ?thesis
          proof (cases "flushing s3")
            case True
            then show ?thesis
              by (intro create_returns_now [of N _ _ FLOW_FLUSHING s3]) (simp_all add: turn \<open>\<not> b\<close> st)
          next
            case False
            then show ?thesis
              by (intro create_returns_now [of N _ _ FLOW_ERROR
                "s3\<lparr>messages := post_disconnect_error (messages s3)\<rparr>"]) (simp_all add: turn \<open>\<not> b\<close> st)
          qed
        qed
      qed
    qed
  qed
qed

subsection \<open>A camera that reopens and stays silent\<close>

definition demo_silent :: uvc_env where
  "demo_silent = demo_usb (\<lambda>h. []) (\<lambda>h. False)"

definition mute :: "uvc_env \<Rightarrow> bool" where
  \<comment> \<open>no frame arrives and no flush\<close>
  "mute env \<longleftrightarrow> (\<forall>h. env_frames env h = [] \<and> \<not> env_unlock env h)"

definition reopenable :: "uvc_env \<Rightarrow> selector \<Rightarrow> bool" where
  \<comment> \<open>the camera is always listed, opens, negotiates and starts\<close>
  "reopenable env sel \<longleftrightarrow>
     (\<forall>h. \<exists>devs hit. env_find env h 0 = Some devs \<and> match_loop sel 0 devs = Some hit) \<and>
     (\<forall>h d. \<exists>k. env_open env h d = Inr k) \<and>
     (\<forall>h d f w ht r. fst (env_get_ctrl env h d f w ht r) = UVC_SUCCESS) \<and>
     (\<forall>h d n. env_start env h d n = UVC_SUCCESS)"

definition opens :: "elem \<Rightarrow> nat" where
  "opens s = length (filter (\<lambda>e. case e of Ev_open d (Some h) \<Rightarrow> True | _ \<Rightarrow> False) (calls s))"

lemma opens_mono: "extends s t \<Longrightarrow> opens s \<le> opens t"
  by (auto simp: extends_def opens_def prefix_def)

definition silent_loop :: "selector \<Rightarrow> elem \<Rightarrow> bool" where
  "silent_loop sel s \<longleftrightarrow> \<not> flushing s \<and> queue_of s = [] \<and> reconnect_enabled s \<and>
     parse_selector (index (media s)) = Inr sel"

lemma mute_interfere: "mute env \<Longrightarrow> interfere env s = s"
  by (simp add: interfere_def mute_def set_queue_def)

lemma mute_pop: "mute env \<Longrightarrow> queue_of s = [] \<Longrightarrow> timeout_pop env s = (None, log_call Ev_pop s)"
  by (simp add: timeout_pop_def mute_interfere log_call_def)

lemma mute_wait:
  "mute env \<Longrightarrow> 0 < us \<Longrightarrow> \<not> flushing s \<Longrightarrow>
   interruptible_wait env us s = (True, log_call (Ev_wait us) s)"
  by (simp add: interruptible_wait_def mute_interfere log_call_def)

lemma clean_calm:
  "queue_of (snd (negotiate_clean_payload env w h f s)) = queue_of s \<and>
   flushing (snd (negotiate_clean_payload env w h f s)) = flushing s"
  by (simp add: negotiate_clean_payload_def get_stream_ctrl_def log_call_def split_beta)

lemma payload_calm:
  "queue_of (apply_max_payload env w h f s) = queue_of s \<and>
   flushing (apply_max_payload env w h f s) = flushing s"
  by (simp add: apply_max_payload_def Let_def log_call_def clean_calm split_beta)

lemma buffers_calm:
  "queue_of (apply_transfer_buffers env s) = queue_of s \<and>
   flushing (apply_transfer_buffers env s) = flushing s"
  by (simp add: apply_transfer_buffers_def Let_def log_call_def)

lemma start_calm:
  "queue_of (snd (start_streaming env s)) = queue_of s \<and>
   flushing (snd (start_streaming env s)) = flushing s"
  "queue_of (rearm_stream s) = queue_of s \<and> flushing (rearm_stream s) = flushing s"
  by (simp_all add: start_streaming_def Let_def log_call_def rearm_stream_def rebaseline_def)

lemma mute_reopen:
  assumes "reopenable env sel"
  shows "\<exists>t. reopen_once env (Suc i) sel 0 s = (True, t) \<and> queue_of t = queue_of s \<and>
    flushing t = flushing s \<and> Suc (opens s) \<le> opens t"
proof -
  obtain devs j d where f: "env_find env (calls s) 0 = Some devs" "match_loop sel 0 devs = Some (j, d)"
    using assms unfolding reopenable_def by (metis prod.exhaust)
  define s1 where "s1 = log_call (Ev_resolved (Some d)) s"
  have r: "resolve_in env (Suc i) sel 0 s = (Some (j, d), False, s1)"
    by (simp add: resolve_in_def resolve_device_def resolve_loop.simps(2) poll_env_of_def f s1_def)
  obtain h where h: "env_open env (calls s1) d = Inr h" using assms unfolding reopenable_def by blast
  define s3 where "s3 = (log_call (Ev_open d (Some h)) s1)\<lparr>uvc_devh := Some h, uvc_dev := Some d\<rparr>"
  define w ht k where "w = negotiated_width (media s3)" and "ht = negotiated_height (media s3)"
    and "k = negotiated_framerate s3"
  define s5 where "s5 = snd (get_stream_ctrl env w ht k s3)"
  have g: "get_stream_ctrl env w ht k s3 = (UVC_SUCCESS, s5)"
    using assms by (simp add: s5_def prod_eq_iff get_stream_ctrl_def reopenable_def split: prod.split)
  define s8 where "s8 = apply_transfer_buffers env (rearm_stream (apply_max_payload env w ht k s5))"
  define s9 where "s9 = snd (start_streaming env s8)"
  have st: "start_streaming env s8 = (UVC_SUCCESS, s9)"
    using assms by (simp add: s9_def start_streaming_def reopenable_def)
  have eq: "reopen_once env (Suc i) sel 0 s = (True, s9\<lparr>streaming := True\<rparr>)"
    by (simp add: reopen_once_def r check_deadline_def h s3_def [symmetric] w_def [symmetric]
        ht_def [symmetric] k_def [symmetric] g s8_def [symmetric] st Let_def)
  have c: "queue_of s5 = queue_of s \<and> flushing s5 = flushing s"
    by (simp add: s5_def get_stream_ctrl_def s3_def s1_def log_call_def split: prod.split)
  have "queue_of s9 = queue_of s \<and> flushing s9 = flushing s"
    by (simp add: s9_def s8_def start_calm buffers_calm payload_calm c)
  moreover have "extends s3 s9"
    using extending.R_trans [OF extending.R_trans [OF extending.R_get [OF g] extending.R_max_payload]
        extending.R_trans [OF extending.R_trans [OF extending.R_rearm extending.R_transfer_buffers]
          extending.R_start]] st unfolding s8_def by blast
  then have "opens s3 \<le> opens s9" by (rule opens_mono)
  then have "Suc (opens s) \<le> opens s9" by (simp add: opens_def s3_def s1_def log_call_def)
  ultimately show ?thesis using eq by (simp add: opens_def)
qed

lemma mute_reconnect:
  assumes "mute env" "reopenable env sel" "silent_loop sel s"
  shows "\<exists>t. reconnect env (Suc i) s = (True, t) \<and> silent_loop sel t \<and> messages t = messages s \<and>
    resets t = resets s \<and> Suc (opens s) \<le> opens t"
proof -
  define s0 where "s0 = drain_queue (teardown_handle s)"
  define s1 where "s1 = log_call (Ev_wait 1000000) s0"
  have 0: "\<not> flushing s0" "queue_of s0 = []"
    using assms(3) by (simp_all add: s0_def silent_loop_def drain_queue_def set_queue_def
        teardown_handle_def Let_def log_call_def)
  then have w: "interruptible_wait env (backoff_wait_us 0) s0 = (True, s1)"
      "\<not> flushing s1" "queue_of s1 = []"
    by (simp_all add: mute_wait [OF assms(1)] backoff_wait_us_def s1_def log_call_def)
  obtain t where r: "reopen_once env (Suc i) sel 0 s1 = (True, t)"
    and t: "queue_of t = []" "\<not> flushing t" "Suc (opens s1) \<le> opens t"
    using mute_reopen [OF assms(2), of i s1] w by auto
  have e: "reconnect env (Suc i) s = (True, t)"
    using assms(3) w(1) r unfolding s0_def
    by (simp add: reconnect_def reconnect_bounded_def silent_loop_def RECONNECT_MAX_RETRIES_def
        eval_nat_numeral)
  have "extends s s0" unfolding s0_def
    by (rule extending.R_trans [OF extending.R_teardown extending.R_drain])
  then have "opens s \<le> opens s1" using opens_mono [of s s0] by (simp add: s1_def opens_def log_call_def)
  moreover have "steady s t" using quiet_steps.R_reconnect e by (simp add: reconnect_def)
  ultimately show ?thesis
    using e t assms(3) by (simp add: silent_loop_def steady_def same_config_def same_episode_def)
qed

lemma mute_create_loop:
  assumes "mute env" "reopenable env sel"
  shows "silent_loop sel s \<Longrightarrow> 0 \<le> consecutive_timeouts s \<Longrightarrow>
    (let t = snd (create_loop env n (Suc i) s)
     in stuck t \<and> messages t = messages s \<and> resets t = resets s \<and>
        5 * opens s + n + nat (min (consecutive_timeouts s) 4) \<le> 5 * opens t + 4)"
proof (induction n arbitrary: s)
  case 0
  then show ?case by (simp add: Let_def opens_def resets_def)
next
  case (Suc n)
  define s1 where "s1 = (log_call Ev_pop s)\<lparr>consecutive_timeouts := consecutive_timeouts s + 1\<rparr>"
  have 1: "silent_loop sel s1" using Suc.prems by (simp add: s1_def silent_loop_def log_call_def)
  have same: "messages s1 = messages s" "resets s1 = resets s" "opens s1 = opens s"
      "consecutive_timeouts s1 = consecutive_timeouts s + 1"
    by (simp_all add: s1_def log_call_def resets_def opens_def is_reset_def)
  have p: "timeout_pop env s = (None, log_call Ev_pop s)" "\<not> flushing (log_call Ev_pop s)"
    using Suc.prems by (simp_all add: mute_pop [OF assms(1)] silent_loop_def log_call_def)
  show ?case
  proof (cases "consecutive_timeouts s1 < DISCONNECT_TIMEOUT_COUNT")
    case True
    then have "create_loop env (Suc n) (Suc i) s = create_loop env n (Suc i) s1"
      using p by (simp add: create_loop.simps(2) Let_def s1_def log_call_def)
    moreover have "nat (min (consecutive_timeouts s1) 4) = Suc (nat (min (consecutive_timeouts s) 4))"
      using True Suc.prems(2) same(4) by (simp add: DISCONNECT_TIMEOUT_COUNT_def)
    ultimately show ?thesis using Suc.IH [OF 1] Suc.prems(2) same
      by (simp add: Let_def nat_add_distrib)
  next
    case False
    obtain t where t: "reconnect env (Suc i) s1 = (True, t)" "silent_loop sel t"
        "messages t = messages s1" "resets t = resets s1" "Suc (opens s1) \<le> opens t"
      using mute_reconnect [OF assms 1, of i] by auto
    define u where "u = t\<lparr>consecutive_timeouts := 0\<rparr>"
    have "handle_silence env (Suc i) s1 = (True, t)"
      using t(1) 1 by (simp add: handle_silence_def silent_loop_def)
    then have "create_loop env (Suc n) (Suc i) s = create_loop env n (Suc i) u"
      using p False by (simp add: create_loop.simps(2) Let_def s1_def log_call_def u_def)
    moreover have "silent_loop sel u" "consecutive_timeouts u = 0" "messages u = messages s"
        "resets u = resets s" "Suc (opens s) \<le> opens u"
      using t same by (simp_all add: u_def silent_loop_def opens_def resets_def)
    moreover have "nat (min (consecutive_timeouts s) 4) \<le> 4" by simp
    ultimately show ?thesis using Suc.IH [of u] by (simp add: Let_def)
  qed
qed

lemma mute_begin:
  assumes "reopenable env sel"
  shows "\<exists>t. begin_streaming env s = (UVC_SUCCESS, t) \<and> extends s t \<and> queue_of t = queue_of s \<and>
    flushing t = flushing s \<and> reconnect_enabled t = reconnect_enabled s \<and>
    index (media t) = index (media s) \<and> messages t = messages s \<and> resets t = resets s \<and>
    consecutive_timeouts t = consecutive_timeouts s"
proof -
  define s1 where "s1 = apply_transfer_buffers env ((rebaseline s)\<lparr>streaming := True\<rparr>)"
  have 1: "extends s s1 \<and> queue_of s1 = queue_of s \<and> flushing s1 = flushing s \<and>
    reconnect_enabled s1 = reconnect_enabled s \<and> index (media s1) = index (media s) \<and>
    messages s1 = messages s \<and> resets s1 = resets s \<and> consecutive_timeouts s1 = consecutive_timeouts s"
    by (simp add: s1_def apply_transfer_buffers_def Let_def log_call_def rebaseline_def extends_def
        resets_def is_reset_def)
  define t where "t = log_call (Ev_start (uvc_devh s1) True) s1"
  have "start_streaming env s1 = (UVC_SUCCESS, t)"
    using assms by (simp add: start_streaming_def reopenable_def t_def)
  then have "begin_streaming env s = (UVC_SUCCESS, t)"
    unfolding begin_streaming_def s1_def [symmetric] by simp
  then show ?thesis using 1
    by (auto simp: t_def log_call_def extends_def resets_def is_reset_def)
qed

subsection \<open>Properties\<close>

text \<open>
  Claim C5. \<open>create\<close> answers: in every session, with \<open>reconnect\<close> off and clocks that advance with every
  call, there is a fuel from which on \<open>create\<close> gives one and the same answer, and no loop ran out
  of fuel; the silence watchdog, the port reset, the settle loops and the deep rung all end.
\<close>
theorem create_terminates:
  assumes "session s" "advancing env" "\<not> reconnect_enabled s"
  shows "\<exists>N r t. stuck t = stuck s \<and> (\<forall>n\<ge>N. src_create env n s = (r, t))"
proof -
  have ns: "no_stale s" using session_sound [OF assms(1)] by (simp add: sound_def)
  show ?thesis
  proof (cases "streaming s")
    case True
    obtain N r t where t: "stuck t = stuck s"
      and l: "\<forall>n\<ge>N. \<forall>i\<ge>N. create_loop env n i s = (r, t)"
      using create_loop_returns [OF assms(2) ns assms(3)] unfolding create_returns_def by blast
    have "\<forall>n\<ge>N. src_create env n s = (r, t)" using True l by (simp add: src_create_def)
    with t show ?thesis by (intro exI conjI)
  next
    case False
    obtain e s1 where b: "begin_streaming env s = (e, s1)" by fastforce
    have "stays_fresh s s1" by (rule fresh_steps.R_begin [OF b]) simp_all
    moreover have st: "same_stuck s s1"
      by (rule fuelled.R_begin [OF b]) (simp_all add: same_stuck_def rebaseline_def)
    ultimately have 1: "no_stale s1" "\<not> reconnect_enabled s1" "stuck s1 = stuck s"
      using begin_streaming_account [OF b] assms(3) ns
      by (simp_all add: stays_fresh_def same_stuck_def same_config_def)
    show ?thesis
    proof (cases "e = UVC_SUCCESS")
      case True
      obtain N r t where t: "stuck t = stuck s1"
        and l: "\<forall>n\<ge>N. \<forall>i\<ge>N. create_loop env n i s1 = (r, t)"
        using create_loop_returns [OF assms(2) 1(1,2)] unfolding create_returns_def by blast
      have "\<forall>n\<ge>N. src_create env n s = (r, t)" using False b True l
        by (simp add: src_create_def)
      moreover have "stuck t = stuck s" using t 1(3) by simp
      ultimately show ?thesis by (intro exI conjI)
    next
      case ne: False
      obtain r where "\<forall>n. src_create env n s = (r, s1)" using False b ne
        by (simp add: src_create_def)
      then have "\<forall>n\<ge>0. src_create env n s = (r, s1)" by simp
      with 1(3) show ?thesis by (intro exI conjI)
    qed
  qed
qed

lemma create_terminates_witness:
  "\<exists>N r t. \<not> stuck t \<and> (\<forall>n\<ge>N. src_create demo_silent n
     (snd (src_start demo_silent 9 demo_elem)) = (r, t))"
proof -
  define s where "s = snd (src_start demo_silent 9 demo_elem)"
  have c: "\<not> reconnect_enabled s \<and> \<not> stuck s" unfolding s_def by code_simp
  have "session s" unfolding s_def demo_elem_def by (intro session.intros)
  moreover have "advancing demo_silent" by (simp add: advancing_def demo_silent_def demo_usb_def)
  ultimately show ?thesis using create_terminates [of s demo_silent] c by (auto simp: s_def)
qed

text \<open>
  Claim C38. With \<open>reconnect\<close> on the silence watchdog is defeated: in every session in which no flush is
  on and no frame waits, a camera that can always be reopened but never delivers a frame, the
  very state the wedge recovery was written for, is reconnected for ever by one \<open>create\<close>. However
  many turns it takes it has not answered; it posts no error and tries no reset, and at least
  every fifth turn it has opened the camera once more.
\<close>
theorem reconnect_never_gives_up:
  assumes "session s" "mute env" "reopenable env sel"
    and "\<not> flushing s" "queue_of s = []" "reconnect_enabled s" "0 \<le> consecutive_timeouts s"
    and "parse_selector (index (media s)) = Inr sel"
    and "src_create env n s = (r, t)" "0 < n"
  shows "stuck t \<and> messages t = messages s \<and> resets t = resets s \<and> opens s + n div 5 \<le> opens t"
proof -
  obtain i where n: "n = Suc i" using assms(10) by (cases n) auto
  obtain u where u: "src_create env n s = create_loop env n n u" "extends s u" "queue_of u = queue_of s"
      "flushing u = flushing s" "reconnect_enabled u = reconnect_enabled s"
      "index (media u) = index (media s)" "messages u = messages s" "resets u = resets s"
      "consecutive_timeouts u = consecutive_timeouts s"
    using mute_begin [OF assms(3), of s] extending.R_refl [of s]
    by (cases "streaming s") (auto simp: src_create_def)
  then have "silent_loop sel u" using assms(4-8) by (simp add: silent_loop_def)
  then have "stuck t \<and> messages t = messages u \<and> resets t = resets u \<and>
      5 * opens u + n + nat (min (consecutive_timeouts u) 4) \<le> 5 * opens t + 4"
    using mute_create_loop [OF assms(2,3), of u n i] u(1,9) assms(7,9) n by (simp add: Let_def)
  then show ?thesis using u(7,8) opens_mono [OF u(2)] by auto
qed

lemma reconnect_never_gives_up_witness:
  "let s = (snd (src_start demo_silent 9 (demo_elem\<lparr>reconnect_enabled := True\<rparr>)));
       t = snd (src_create demo_silent 5000 s)
   in stuck t \<and> messages t = [] \<and> 1000 \<le> opens t"
proof -
  define s where "s = snd (src_start demo_silent 9 (demo_elem\<lparr>reconnect_enabled := True\<rparr>))"
  have "session (src_set_property demo_silent (PROP_RECONNECT True) demo_elem)"
    unfolding demo_elem_def by (intro session.intros)
  then have s: "session s" unfolding s_def by (simp add: session.started)
  have f: "\<not> flushing s" "queue_of s = []" "reconnect_enabled s" "0 \<le> consecutive_timeouts s"
      "messages s = []" "parse_selector (index (media s)) = Inr (SEL_ORDINAL 0)"
    unfolding s_def by code_simp+
  have m: "mute demo_silent" by (simp add: mute_def demo_silent_def demo_usb_def)
  have o: "reopenable demo_silent (SEL_ORDINAL 0)"
    by (simp add: reopenable_def demo_silent_def demo_usb_def)
  obtain r t where c: "src_create demo_silent 5000 s = (r, t)" by fastforce
  from reconnect_never_gives_up [OF s m o f(1-4,6) c] show ?thesis
    unfolding Let_def s_def [symmetric] c using f(5) by simp
qed

end
