(* ===== verification/EndToEnd.thy ===== *)
theory EndToEnd
  imports RecoveryLadder SessionInvariants RecoveryBudget
begin

text \<open>
  From the camera to the pad: the callback of libuvc and \<open>create\<close> composed through the queue of
  the element. While a stream runs undisturbed, the buffers that come out of \<open>create\<close> are the
  access units the camera delivered from the first keyframe on, each whole, in stream order and
  once, and taking them out makes no call to the device.
\<close>

subsection \<open>What a delivery keeps\<close>

lemma cache_set_keeps:
  "frame_format (fst (cache_parameter_set u su)) = frame_format (fst su)"
  "clock (fst (cache_parameter_set u su)) = clock (fst su)"
  by (cases su; cases "utype u"; simp add: cache_parameter_set_def split: option.split prod.split)+

lemma fold_cache_keeps:
  "frame_format (fst (fold cache_parameter_set us su)) = frame_format (fst su) \<and>
   clock (fst (fold cache_parameter_set us su)) = clock (fst su)"
  by (induction us arbitrary: su) (simp_all add: cache_set_keeps)

lemma deliver_spec_keeps:
  "frame_format (fst (deliver_spec ts us su)) = frame_format (fst su) \<and>
   clock (fst (deliver_spec ts us su)) = clock (fst su)"
  using fold_cache_keeps [of us su]
  by (auto simp: deliver_spec_def au_pushed_def split: prod.split)

lemma fold_deliver_keeps:
  "frame_format (fst (fold (deliver_spec ts) aus su)) = frame_format (fst su) \<and>
   clock (fst (fold (deliver_spec ts) aus su)) = clock (fst su)"
  by (induction aus arbitrary: su) (simp_all add: deliver_spec_keeps)

lemma callback_keeps:
  assumes "sets_wf m" "frame_accepted (Some data) m"
  shows "frame_format (fst (frame_callback ce (Some data) (m, fs))) = frame_format m"
    "clock (fst (frame_callback ce (Some data) (m, fs))) = clock m"
  using fold_deliver_keeps [of "arrival_ts ce m" "frame_units (frame_format m) data"
      "(latch_base_time ce m, False)"]
  by (simp_all add: fst_frame_callback [OF assms(2)] process_frame_eq [OF assms(1)],
      simp_all add: latch_base_time_def)

subsection \<open>A run of deliveries\<close>

type_synonym delivery = "clock_env \<times> byte list"

definition good_delivery :: "delivery \<Rightarrow> bool" where
  \<comment> \<open>libuvc handed over a frame that is neither empty nor larger than a \<open>gint\<close>\<close>
  "good_delivery d \<longleftrightarrow> snd d \<noteq> [] \<and> int (length (snd d)) \<le> G_MAXINT"

definition deliver_op :: "delivery \<Rightarrow> source_op" where
  "deliver_op d = Deliver (fst d) (Some (snd d))"

fun stream_aus :: "uvc_frame_format \<Rightarrow> bool \<Rightarrow> delivery list \<Rightarrow> nal_unit list list" where
  \<comment> \<open>the access units of the stream that have to come out\<close>
  "stream_aus format had [] = []"
| "stream_aus format had (d # ds) =
     forwarded_aus had (frame_units format (snd d)) @
     stream_aus format (had \<or> (\<exists>us \<in> set (frame_units format (snd d)). au_has_idr us)) ds"

lemma deliver_run:
  assumes "sets_wf (media s)" "clock (media s) \<noteq> None" "\<forall>d \<in> set ds. good_delivery d"
    "run_all do_op (map deliver_op ds) s = (rs, t)"
  shows "\<exists>bs. queue_of t = queue_of s @ map Frame bs \<and>
      list_all2 carries (stream_aus (frame_format (media s)) (had_idr (media s)) ds) bs \<and>
      (\<forall>k < length bs. buf_offset (bs ! k) = frame_offset (media s) + word_of_nat k) \<and>
      frame_offset (media t) = frame_offset (media s) + word_of_nat (length bs) \<and>
      calls t = calls s \<and> streaming t = streaming s \<and> flushing t = flushing s \<and>
      rs = replicate (length ds) None"
  using assms
proof (induction ds arbitrary: s rs)
  case Nil
  then show ?case by simp
next
  case (Cons d ds)
  obtain ce data where d: "d = (ce, data)" by fastforce
  obtain m fs where c: "frame_callback ce (Some data) (media s, disk s) = (m, fs)" by fastforce
  define s1 where "s1 = s\<lparr>media := m, disk := fs\<rparr>"
  have acc: "frame_accepted (Some data) (media s)"
    using Cons.prems(2,3) d by (auto simp: frame_accepted_def good_delivery_def)
  note wf = Cons.prems(1)
  have m: "m = fst (frame_callback ce (Some data) (media s, disk s))" by (simp add: c)
  obtain rs' where r: "run_all do_op (map deliver_op ds) s1 = (rs', t)" "rs = None # rs'"
    using Cons.prems(4) by (auto simp: d deliver_op_def [of "(ce, data)"] c s1_def split: prod.splits)
  have k: "frame_format m = frame_format (media s)" "clock m = clock (media s)"
    using callback_keeps [OF wf acc] by (simp_all add: m)
  have "sets_wf (media s1)" "clock (media s1) \<noteq> None" "\<forall>d \<in> set ds. good_delivery d"
    using callback_wf [OF wf, of ce "Some data" "disk s"] k Cons.prems(2,3) by (simp_all add: s1_def c)
  from Cons.IH [OF this r(1)] obtain bs' where
    bs': "queue_of t = queue_of s1 @ map Frame bs'"
      "list_all2 carries (stream_aus (frame_format (media s1)) (had_idr (media s1)) ds) bs'"
      "\<forall>k < length bs'. buf_offset (bs' ! k) = frame_offset (media s1) + word_of_nat k"
      "frame_offset (media t) = frame_offset (media s1) + word_of_nat (length bs')"
      "calls t = calls s1" "streaming t = streaming s1" "flushing t = flushing s1"
      "rs' = replicate (length ds) None"
    by blast
  define bs where "bs = frame_buffers ce data (media s)"
  have q: "queue_of s1 = queue_of s @ map Frame bs"
    using callback_queue [OF wf acc] by (simp add: s1_def m bs_def)
  have off: "\<forall>k < length bs. buf_offset (bs ! k) = frame_offset (media s) + word_of_nat k"
      "frame_offset (media s1) = frame_offset (media s) + word_of_nat (length bs)"
    using callback_offsets [OF wf acc, where env = ce] by (simp_all add: s1_def m bs_def)
  have h: "had_idr (media s1) \<longleftrightarrow> had_idr (media s) \<or>
      (\<exists>us \<in> set (frame_units (frame_format (media s)) data). au_has_idr us)"
    using callback_had_idr [OF wf acc] by (simp add: s1_def m)
  have "list_all2 carries (stream_aus (frame_format (media s)) (had_idr (media s)) (d # ds)) (bs @ bs')"
    using callback_carries [of "media s" data ce] bs'(2) h k(1)
    by (simp add: d bs_def s1_def list_all2_appendI)
  moreover have "\<forall>k < length (bs @ bs'). buf_offset ((bs @ bs') ! k) = frame_offset (media s) + word_of_nat k"
    using off bs'(3) by (auto simp: nth_append of_nat_diff)
  ultimately show ?case
    using bs' q off(2) r(2) by (intro exI [of _ "bs @ bs'"]) (simp add: s1_def)
qed


subsection \<open>A run of \<open>create\<close>\<close>

definition create_op :: "uvc_env \<times> nat \<Rightarrow> source_op" where
  "create_op e = Create (fst e) (Suc (snd e))"

lemma note_frame_keeps [simp]:
  "media (note_frame s) = media s" "calls (note_frame s) = calls s"
  "streaming (note_frame s) = streaming s" "flushing (note_frame s) = flushing s"
  by (simp_all add: note_frame_def Let_def)

lemma create_head:
  assumes "queue_of s = Frame b # q" "streaming s" "\<not> flushing s"
  shows "src_create env (Suc fuel) s =
    (FLOW_OK (Frame b), note_frame (set_queue q (log_call Ev_pop s)))"
proof -
  have "frame_ready s" using assms by (simp add: frame_ready_def)
  then obtain b' q' where r: "queue_of s = Frame b' # q'"
    "create_loop env (Suc fuel) (Suc fuel) s =
       (FLOW_OK (Frame b'), note_frame (set_queue q' (log_call Ev_pop s)))"
    by (rule ready_turn) metis
  then show ?thesis using assms by (simp add: src_create_def)
qed

lemma create_run:
  assumes "queue_of s = map Frame bs" "streaming s" "\<not> flushing s" "length es = length bs"
    "run_all do_op (map create_op es) s = (rs, t)"
  shows "rs = map (\<lambda>b. Some (FLOW_OK (Frame b))) bs \<and> queue_of t = [] \<and>
    calls t = calls s @ replicate (length bs) Ev_pop \<and> streaming t \<and> \<not> flushing t"
  using assms
proof (induction bs arbitrary: s es rs)
  case (Cons b bs)
  obtain e es' where es: "es = e # es'" using Cons.prems(4) by (cases es) auto
  define s1 where "s1 = note_frame (set_queue (map Frame bs) (log_call Ev_pop s))"
  have c: "src_create (fst e) (Suc (snd e)) s = (FLOW_OK (Frame b), s1)"
    using create_head Cons.prems(1-3) by (simp add: s1_def)
  obtain rs' where r: "run_all do_op (map create_op es') s1 = (rs', t)"
      "rs = Some (FLOW_OK (Frame b)) # rs'"
    using Cons.prems(5) by (auto simp: es create_op_def [of e] c split: prod.splits)
  have "queue_of s1 = map Frame bs" "streaming s1" "\<not> flushing s1" "calls s1 = calls s @ [Ev_pop]"
    using Cons.prems(2,3) by (simp_all add: s1_def set_queue_def log_call_def)
  with Cons.IH [OF this(1-3) _ r(1)] Cons.prems(4) r(2) show ?case by (simp add: es)
qed simp

lemma run_all_append:
  "run_all run (as @ bs) s = (let (r1, s1) = run_all run as s; (r2, s2) = run_all run bs s1 in (r1 @ r2, s2))"
  by (induction as arbitrary: s) (auto simp: Let_def split: prod.split)

subsection \<open>Property\<close>

text \<open>
  Claim C4. From the camera to the pad: take any session in which a stream runs, no flush is on, a clock is
  set and the queue is empty. Let libuvc deliver any frames, and let \<open>create\<close> be called once for
  each buffer they gave. Then \<open>create\<close> hands on, in stream order, each access unit of the
  deliveries from the first keyframe on, once and with all its bytes, the offsets count on
  without a gap, the queue is empty again, and the device was not called.
\<close>
theorem camera_to_pad:
  assumes "session s" "streaming s" "\<not> flushing s" "clock (media s) \<noteq> None" "queue_of s = []"
    and "\<forall>d \<in> set ds. good_delivery d"
    and "run_all do_op (map deliver_op ds) s = (none, s1)" "length es = length (queue_of s1)"
    and "run_all do_op (map create_op es) s1 = (rs, t)"
  shows "\<exists>bs. rs = map (\<lambda>b. Some (FLOW_OK (Frame b))) bs \<and>
    list_all2 carries (stream_aus (frame_format (media s)) (had_idr (media s)) ds) bs \<and>
    (\<forall>k < length bs. buf_offset (bs ! k) = frame_offset (media s) + word_of_nat k) \<and>
    queue_of t = [] \<and> calls t = calls s @ replicate (length bs) Ev_pop"
proof -
  have "sets_wf (media s)" using session_sound [OF assms(1)] by (simp add: sound_def)
  from deliver_run [OF this assms(4,6,7)] obtain bs where
    bs: "queue_of s1 = map Frame bs"
      "list_all2 carries (stream_aus (frame_format (media s)) (had_idr (media s)) ds) bs"
      "\<forall>k < length bs. buf_offset (bs ! k) = frame_offset (media s) + word_of_nat k"
      "calls s1 = calls s" "streaming s1" "\<not> flushing s1"
    using assms(2,3,5) by auto
  from create_run [OF bs(1,5,6) _ assms(9)] assms(8) bs show ?thesis by (intro exI [of _ bs]) simp
qed


definition demo_streaming :: elem where
  \<comment> \<open>started, with a clock, one buffer already handed on\<close>
  "demo_streaming = snd (src_create demo_live 9
     (src_set_clock (Some 1) (snd (src_start demo_live 9 demo_elem))))"

lemma camera_to_pad_witness:
  "\<exists>b. fst (run_all do_op (map deliver_op [(demo_env, demo_idr)] @ map create_op [(demo_live, 1)])
       demo_streaming) = [None, Some (FLOW_OK (Frame b))] \<and>
     carries [\<lparr>utype = UNIT_FRAME_IDR, ubytes = demo_idr\<rparr>] b"
proof -
  have s: "session demo_streaming"
    unfolding demo_streaming_def demo_elem_def
    by (intro session.created session.clock_set session.started session.constructed)
  obtain none s1 where d: "run_all do_op (map deliver_op [(demo_env, demo_idr)]) demo_streaming = (none, s1)"
    by fastforce
  obtain rs t where c: "run_all do_op (map create_op [(demo_live, 1)]) s1 = (rs, t)" by fastforce
  have f: "streaming demo_streaming \<and> \<not> flushing demo_streaming \<and> clock (media demo_streaming) = Some 1 \<and>
      queue_of demo_streaming = [] \<and> frame_format (media demo_streaming) = UVC_FRAME_FORMAT_H264 \<and>
      \<not> had_idr (media demo_streaming)"
    by code_simp
  have q: "none = [None] \<and> length (queue_of s1) = 1"
  proof -
    have "fst (run_all do_op (map deliver_op [(demo_env, demo_idr)]) demo_streaming) = [None] \<and>
      length (queue_of (snd (run_all do_op (map deliver_op [(demo_env, demo_idr)]) demo_streaming))) = 1"
      by code_simp
    then show ?thesis unfolding d by simp
  qed
  have a: "stream_aus UVC_FRAME_FORMAT_H264 False [(demo_env, demo_idr)] =
      [[\<lparr>utype = UNIT_FRAME_IDR, ubytes = demo_idr\<rparr>]]"
    by code_simp
  have "\<forall>d \<in> set [(demo_env, demo_idr)]. good_delivery d"
    by (simp add: good_delivery_def demo_idr_def)
  from camera_to_pad [OF s _ _ _ _ this d _ c] f q a obtain b where
    "rs = [Some (FLOW_OK (Frame b))]" "carries [\<lparr>utype = UNIT_FRAME_IDR, ubytes = demo_idr\<rparr>] b"
    by (auto simp: list_all2_Cons1)
  then show ?thesis using q by (intro exI [of _ b]) (simp only: run_all_append d c Let_def prod.case fst_conv append.simps simp_thms)
qed

end
