(* ===== verification/FrameOrder.thy ===== *)
theory FrameOrder
  imports EndToEnd "HOL-Library.Sublist"
begin

text \<open>
  The queue between the two threads as a channel: whatever the device, the other threads and the
  recoveries do, the buffers \<open>create\<close> hands on are buffers that arrived, in the order in which they
  arrived, none twice. Frames may be lost, for a flush, a reconnect or a reset drops the queue, but
  nothing is invented, repeated or overtaken. \<open>passes env out s t\<close> says it of a step that takes the
  element from \<open>s\<close> to \<open>t\<close> and hands \<open>out\<close> on; \<open>offered\<close> is what the environment could deliver at
  the calls between the two.
\<close>

fun frames_of :: "queue_item list \<Rightarrow> gst_buffer list" where
  "frames_of [] = []"
| "frames_of (Frame b # q) = b # frames_of q"
| "frames_of (Flush_sentinel # q) = frames_of q"

definition offered :: "uvc_env \<Rightarrow> elem \<Rightarrow> elem \<Rightarrow> gst_buffer list" where
  "offered env s t =
     concat (map (\<lambda>i. env_frames env (take i (calls t))) [length (calls s)..<length (calls t)])"

definition passes :: "uvc_env \<Rightarrow> gst_buffer list \<Rightarrow> elem \<Rightarrow> elem \<Rightarrow> bool" where
  "passes env out s t \<longleftrightarrow>
     prefix (calls s) (calls t) \<and>
     subseq (out @ frames_of (queue_of t)) (frames_of (queue_of s) @ offered env s t)"

abbreviation in_order :: "uvc_env \<Rightarrow> elem \<Rightarrow> elem \<Rightarrow> bool" where "in_order env \<equiv> passes env []"

lemma frames_append [simp]: "frames_of (q @ r) = frames_of q @ frames_of r"
  by (induction q rule: frames_of.induct) auto

lemma frames_map [simp]: "frames_of (map Frame bs) = bs"
  by (induction bs) auto

lemma offered_trans:
  assumes "prefix (calls s) (calls t)" "prefix (calls t) (calls u)"
  shows "offered env s u = offered env s t @ offered env t u"
proof -
  obtain xs ys where x: "calls t = calls s @ xs" "calls u = calls t @ ys"
    using assms by (auto elim!: prefixE)
  have "[length (calls s)..<length (calls u)] =
      [length (calls s)..<length (calls t)] @ [length (calls t)..<length (calls u)]"
    using x upt_add_eq_append [of "length (calls s)" "length (calls t)" "length ys"]
    by (simp add: add.assoc)
  moreover have "map (\<lambda>i. env_frames env (take i (calls u))) [length (calls s)..<length (calls t)] =
      map (\<lambda>i. env_frames env (take i (calls t))) [length (calls s)..<length (calls t)]"
    using x by (intro map_cong) auto
  ultimately show ?thesis unfolding offered_def by (simp only: map_append concat_append)
qed

lemma passes_trans:
  assumes "passes env out s t" "passes env out' t u"
  shows "passes env (out @ out') s u"
proof -
  have "subseq (out @ out' @ frames_of (queue_of u)) (out @ frames_of (queue_of t) @ offered env t u)"
    using assms(2) by (simp add: passes_def subseq_append')
  also have "subseq \<dots> ((frames_of (queue_of s) @ offered env s t) @ offered env t u)"
  proof -
    have "subseq (out @ frames_of (queue_of t)) (frames_of (queue_of s) @ offered env s t)"
      using assms(1) by (simp add: passes_def)
    from list_emb_append_mono [OF this, of "offered env t u" "offered env t u"] show ?thesis by simp
  qed
  finally show ?thesis
    using assms offered_trans [of s t u env] by (auto simp: passes_def)
qed

lemma in_order_trans: "in_order env s t \<Longrightarrow> in_order env t u \<Longrightarrow> in_order env s u"
  using passes_trans [of env "[]" s t "[]" u] by simp

lemma passesI:
  assumes "calls t = calls s @ es" "subseq (out @ frames_of (queue_of t)) (frames_of (queue_of s))"
  shows "passes env out s t"
  using assms by (simp add: passes_def list_emb_prefix)

lemma passes_same: "calls t = calls s \<Longrightarrow> queue_of t = queue_of s \<Longrightarrow> in_order env s t"
  by (rule passesI [of _ _ "[]"]) simp_all

subsection \<open>Every step of a recovery\<close>

lemma interfere_passes:
  "passes env [] s (log_call e (interfere env s))"
proof -
  have "calls (interfere env s) = calls s"
    by (simp add: interfere_def Let_def set_queue_def src_unlock_def)
  then have "offered env s (log_call e (interfere env s)) = env_frames env (calls s)"
    by (simp add: offered_def log_call_def)
  moreover have "frames_of (queue_of (interfere env s)) =
      frames_of (queue_of s) @ env_frames env (calls s)"
    by (simp add: interfere_def Let_def set_queue_def src_unlock_def)
  ultimately show ?thesis using \<open>calls (interfere env s) = calls s\<close>
    by (simp add: passes_def log_call_def)
qed

lemma log_passes: "in_order env s (log_call e s)"
  by (rule passesI [of _ _ "[e]"]) (simp_all add: log_call_def)

lemma wait_passes: "interruptible_wait env us s = (b, t) \<Longrightarrow> in_order env s t"
  using interfere_passes passes_same [of s s]
  by (auto simp: interruptible_wait_def Let_def split: if_splits)

fun handed_item :: "queue_item option \<Rightarrow> gst_buffer list" where
  "handed_item (Some (Frame b)) = [b]"
| "handed_item _ = []"

lemma pop_passes:
  assumes "timeout_pop env s = (i, t)"
  shows "passes env (handed_item i) s t"
proof -
  define u where "u = log_call Ev_pop (if queue_of s = [] then interfere env s else s)"
  have u: "in_order env s u" using interfere_passes log_passes by (simp add: u_def)
  have "passes env (handed_item i) u t"
  proof (cases "queue_of u")
    case Nil
    then have "i = None" "t = u" using assms by (simp_all add: timeout_pop_def u_def [symmetric] Let_def)
    then show ?thesis using passes_same [of u u] by simp
  next
    case (Cons x q)
    then have "i = Some x" "t = set_queue q u"
      using assms by (simp_all add: timeout_pop_def u_def [symmetric] Let_def)
    then show ?thesis using Cons
      by (cases x) (auto intro!: passesI [of _ _ "[]"] simp: set_queue_def)
  qed
  from passes_trans [OF u this] show ?thesis by simp
qed

lemma await_loop_passes: "await_loop env fuel d s = (b, t) \<Longrightarrow> in_order env s t"
proof (induction fuel arbitrary: s)
  case 0
  then show ?case by (auto intro: passes_same)
next
  case (Suc fuel)
  obtain n s1 where n: "monotonic_now env s = (n, s1)" by fastforce
  obtain i s2 where p: "timeout_pop env s1 = (i, s2)" by fastforce
  have 1: "in_order env s s1" using n log_passes by (auto simp: monotonic_now_def)
  note 2 = passes_trans [OF 1 pop_passes [OF p]]
  have lost: "in_order env s s2" using 2 by (auto simp: passes_def intro: subseq_order.trans [rotated])
  consider "t = s1" | "t = s2" | "in_order env s2 t" | x where "i = Some x" "t = set_queue (x # queue_of s2) s2"
    using Suc n p by (auto simp: Let_def split: option.splits if_splits)
  then show ?case
  proof cases
    case 3
    show ?thesis by (rule in_order_trans [OF lost 3])
  next
    case 4
    then have "handed_item i @ frames_of (queue_of s2) = frames_of (queue_of t)" "calls t = calls s2"
      by (cases x; simp add: set_queue_def)+
    then show ?thesis using 2 by (simp add: passes_def offered_def)
  qed (use 1 lost in auto)
qed


lemma await_passes: "await_first_frame env fuel us s = (b, t) \<Longrightarrow> in_order env s t"
  using await_loop_passes in_order_trans [OF log_passes]
  by (fastforce simp: await_first_frame_def monotonic_now_def)

lemma reinit_passes: "reinit_context env s = (b, t) \<Longrightarrow> in_order env s t"
  by (rule passesI [of _ _ "[Ev_exit (uvc_ctx s), Ev_init (env_init env (calls s @ [Ev_exit (uvc_ctx s)]))]"])
    (auto simp: reinit_context_def Let_def log_call_def)

interpretation ordered: reopening_any "in_order env" for env
proof unfold_locales
  show "in_order env s t \<Longrightarrow> in_order env t u \<Longrightarrow> in_order env s u" for s t u
    by (rule in_order_trans)
  show "in_order env s (src_unlock s)" for s
    by (rule passesI [of _ _ "[]"]) (simp_all add: src_unlock_def set_queue_def)
  show "in_order env s (set_queue [] s)" for s
    by (rule passesI [of _ _ "[]"]) (simp_all add: set_queue_def)
qed (simp_all add: passes_same log_passes rearm_stream_def rebaseline_def)

interpretation ordered_wait: silent_handling "in_order env" env for env
proof unfold_locales
  show "in_order env s (capture_recovery_target env s)" for s
    by (rule passes_same) (simp_all add: capture_recovery_target_def Let_def split: option.split)
  show "reset_silent_device env s = (b, t) \<Longrightarrow> in_order env s t" for s b t
    using log_passes passes_same [of s s] by (auto simp: reset_silent_device_def Let_def split: if_splits)
  show "deep_recovery env s = (b, t) \<Longrightarrow> in_order env s t" for s b t
    by (rule passes_same) (auto simp: deep_recovery_def split: if_splits prod.splits)
qed (use wait_passes await_passes reinit_passes in \<open>auto simp: passes_same\<close>)


subsection \<open>create\<close>

fun handed :: "flow \<Rightarrow> gst_buffer list" where
  "handed (FLOW_OK (Frame b)) = [b]"
| "handed _ = []"

lemma create_loop_passes: "create_loop env fuel inner s = (r, t) \<Longrightarrow> passes env (handed r) s t"
proof (induction fuel arbitrary: s)
  case 0
  then show ?case by (auto intro: passes_same)
next
  case (Suc fuel)
  obtain i s1 where p: "timeout_pop env s = (i, s1)" by fastforce
  note 1 = pop_passes [OF p]
  have step: ?case if "in_order env s u" "create_loop env fuel inner u = (r, t)" for u
    using passes_trans [OF that(1) Suc.IH [OF that(2)]] by simp
  have kept: "in_order env s u" if "calls u = calls s1" "queue_of u = queue_of s1" "handed_item i = []" for u
    using passes_trans [OF 1 passes_same [OF that(1,2)]] that(3) by simp
  from p show ?case
  proof (cases rule: create_loop_step [where fuel = fuel and inner = inner])
    case flush
    have "in_order env s s1" using 1 by (auto simp: passes_def intro: subseq_order.trans [rotated])
    with Suc.prems flush show ?thesis by auto
  next
    case silent
    have "in_order env s (s1\<lparr>consecutive_timeouts := consecutive_timeouts s1 + 1\<rparr>)"
      using silent(2) by (intro kept) simp_all
    from step [OF this] Suc.prems silent show ?thesis by simp
  next
    case (recovered s3)
    have "in_order env s (s1\<lparr>consecutive_timeouts := consecutive_timeouts s1 + 1\<rparr>)"
      using recovered(2) by (intro kept) simp_all
    from in_order_trans [OF this ordered_wait.R_silence [OF recovered(4)]]
    have "in_order env s (s3\<lparr>consecutive_timeouts := 0\<rparr>)"
      by (simp add: passes_def offered_def)
    from step [OF this] Suc.prems recovered(5) show ?thesis by simp
  next
    case (lost s3)
    have "in_order env s (s1\<lparr>consecutive_timeouts := consecutive_timeouts s1 + 1\<rparr>)"
      using lost(2) by (intro kept) simp_all
    from in_order_trans [OF this ordered_wait.R_silence [OF lost(4)]]
    have "in_order env s s3" "in_order env s (s3\<lparr>messages := post_disconnect_error (messages s3)\<rparr>)"
      by (simp_all add: passes_def offered_def)
    with Suc.prems lost(5) show ?thesis by (auto split: if_splits)
  next
    case sentinel
    have "in_order env s (s1\<lparr>consecutive_timeouts := 0\<rparr>)"
      using sentinel by (intro kept) simp_all
    from step [OF this] Suc.prems sentinel show ?thesis by simp
  next
    case (frame b)
    have "passes env [] s1 (note_frame s1)" by (rule passes_same) simp_all
    from passes_trans [OF 1 this] Suc.prems frame show ?thesis by auto
  qed
qed

lemma create_passes:
  assumes "src_create env fuel s = (r, t)"
  shows "passes env (handed r) s t"
proof (cases "streaming s")
  case True
  then show ?thesis using assms create_loop_passes by (simp add: src_create_def)
next
  case False
  obtain e s1 where b: "begin_streaming env s = (e, s1)" by fastforce
  have "in_order env s s1"
    by (rule ordered.R_begin [OF b]) (simp_all add: passes_same rebaseline_def)
  then show ?thesis
    using False b assms passes_trans [OF _ create_loop_passes]
    by (fastforce simp: src_create_def split: if_splits)
qed

subsection \<open>Property\<close>

definition op_arrivals :: "source_op \<Rightarrow> elem \<Rightarrow> elem \<Rightarrow> gst_buffer list" where
  \<comment> \<open>the buffers that may have come in while the operation ran\<close>
  "op_arrivals op s t =
     (case op of
        Create env fuel \<Rightarrow> offered env s t
      | Deliver ce frame \<Rightarrow> frames_of (drop (length (queue_of s)) (queue_of t))
      | _ \<Rightarrow> [])"

fun arrivals :: "source_op list \<Rightarrow> elem \<Rightarrow> gst_buffer list" where
  "arrivals [] s = []"
| "arrivals (op # ops) s = op_arrivals op s (snd (do_op op s)) @ arrivals ops (snd (do_op op s))"

definition handed_all :: "flow option list \<Rightarrow> gst_buffer list" where
  "handed_all rs = concat (map (\<lambda>r. case r of Some f \<Rightarrow> handed f | None \<Rightarrow> []) rs)"

lemma do_op_order:
  assumes "sets_wf (media s)" "do_op op s = (r, t)"
  shows "subseq (handed_all [r] @ frames_of (queue_of t)) (frames_of (queue_of s) @ op_arrivals op s t)
    \<and> sets_wf (media t)"
proof (cases op)
  case (Create env fuel)
  then obtain f where f: "src_create env fuel s = (f, t)" "r = Some f"
    using assms(2) by (auto split: prod.splits)
  then show ?thesis using create_passes [OF f(1)] fresh_create [OF f(1)] assms(1)
    by (simp add: Create op_arrivals_def handed_all_def passes_def stays_fresh_def)
next
  case (Deliver ce frame)
  obtain m d where c: "frame_callback ce frame (media s, disk s) = (m, d)" by fastforce
  then obtain bs where "frame_queue m = queue_of s @ map Frame bs"
    using callback_appends [OF assms(1), of ce frame "disk s"] by auto
  then show ?thesis using assms c callback_wf [OF assms(1), of ce frame "disk s"]
    by (auto simp: Deliver op_arrivals_def handed_all_def)
qed (use assms in \<open>auto simp: op_arrivals_def handed_all_def src_unlock_def src_unlock_stop_def
    set_queue_def sets_wf_def\<close>)

text \<open>
  Claim C6. No buffer is invented, repeated or overtaken: over any run of \<open>create\<close> calls, flushes and
  deliveries, whatever the camera, the clocks and the other threads do and however often the
  stream is recovered, the buffers handed on, followed by those still queued, are a subsequence
  of the buffers queued at the start followed by those that arrived.
\<close>
theorem buffers_in_order:
  assumes "sets_wf (media s)" "run_all do_op ops s = (rs, t)"
  shows "subseq (handed_all rs @ frames_of (queue_of t)) (frames_of (queue_of s) @ arrivals ops s)"
  using assms
proof (induction ops arbitrary: s rs)
  case Nil
  then show ?case by (simp add: handed_all_def)
next
  case (Cons op ops)
  obtain r s1 where 1: "do_op op s = (r, s1)" by fastforce
  obtain rs' where 2: "run_all do_op ops s1 = (rs', t)" "rs = r # rs'"
    using Cons.prems(2) 1 by (auto split: prod.splits)
  note o = do_op_order [OF Cons.prems(1) 1]
  have "subseq (handed_all [r] @ handed_all rs' @ frames_of (queue_of t))
      (handed_all [r] @ frames_of (queue_of s1) @ arrivals ops s1)"
    using Cons.IH [OF _ 2(1)] o by (simp add: subseq_append')
  also have "subseq \<dots> ((frames_of (queue_of s) @ op_arrivals op s s1) @ arrivals ops s1)"
    using list_emb_append_mono [OF o [THEN conjunct1], of "arrivals ops s1" "arrivals ops s1"] by simp
  finally show ?case by (simp add: 1 2(2) handed_all_def)
qed

definition demo_ops :: "source_op list" where
  \<comment> \<open>a buffer delivered and dropped by a flush between two that are handed on\<close>
  "demo_ops = [Create demo_live 3, Deliver demo_env (Some demo_idr), Unlock, Create demo_live 3,
     Unlock_stop, Create demo_live 3]"

lemma buffers_in_order_witness:
  "subseq (handed_all (fst (run_all do_op demo_ops demo_streaming))) (arrivals demo_ops demo_streaming) \<and>
   length (handed_all (fst (run_all do_op demo_ops demo_streaming))) = 2"
proof -
  obtain rs t where r: "run_all do_op demo_ops demo_streaming = (rs, t)" by fastforce
  have "sets_wf (media demo_streaming)" "frames_of (queue_of demo_streaming) = []"
    by code_simp+
  from buffers_in_order [OF this(1) r] this(2)
  have "subseq (handed_all rs @ frames_of (queue_of t)) (arrivals demo_ops demo_streaming)" by simp
  then have "subseq (handed_all rs) (arrivals demo_ops demo_streaming)"
    by (rule subseq_order.trans [rotated]) auto
  moreover have "length (handed_all (fst (run_all do_op demo_ops demo_streaming))) = 2" by code_simp
  ultimately show ?thesis by (simp add: r)
qed

end
