(* ===== verification/WakeUp.thy ===== *)
theory WakeUp
  imports Base
begin

text \<open>
  \<open>gst_libuvc_h264_src_interruptible_wait\<close> and \<open>gst_libuvc_h264_src_unlock\<close> step by step. Elsewhere a
  wait is one step with what others do in it; here the streaming thread inside a wait and the
  thread that flushes are interleaved at every access to \<open>flushing\<close>, \<open>reconnect_lock\<close> and
  \<open>reconnect_cond\<close>. \<open>g_cond_wait_until\<close> is GLib's: it gives the lock back and parks in one step,
  it may wake up on a broadcast, at its deadline or for no reason, and it returns with the lock
  held, false only at the deadline. The theory shows that no flush is slept through.
\<close>

subsection \<open>The two threads\<close>

datatype thread = Waiter | Unlocker

datatype wait_pc =
    W_lock \<comment> \<open>at \<open>g_mutex_lock\<close>\<close>
  | W_test \<comment> \<open>at the condition of the loop\<close>
  | W_wait \<comment> \<open>about to call \<open>g_cond_wait_until\<close>\<close>
  | W_parked
  | W_woken bool \<comment> \<open>no longer parked, has to get the lock back; whether the deadline passed\<close>
  | W_unlock
  | W_return \<comment> \<open>reads \<open>flushing\<close> for the result\<close>
  | W_done bool

datatype unlock_pc = U_set | U_push | U_lock | U_broadcast | U_unlock | U_done

record wake =
  flush_on :: bool
  lock_owner :: "thread option"
  sentinels :: nat
  wpc :: wait_pc
  upc :: unlock_pc

definition wake_start :: wake where
  "wake_start = \<lparr>flush_on = False, lock_owner = None, sentinels = 0, wpc = W_lock, upc = U_set\<rparr>"

inductive wait_step :: "wake \<Rightarrow> wake \<Rightarrow> bool" where
  locks: "wpc s = W_lock \<Longrightarrow> lock_owner s = None \<Longrightarrow>
    wait_step s (s\<lparr>lock_owner := Some Waiter, wpc := W_test\<rparr>)"
| sees_flush: "wpc s = W_test \<Longrightarrow> flush_on s \<Longrightarrow> wait_step s (s\<lparr>wpc := W_unlock\<rparr>)"
| sees_none: "wpc s = W_test \<Longrightarrow> \<not> flush_on s \<Longrightarrow> wait_step s (s\<lparr>wpc := W_wait\<rparr>)"
| parks: "wpc s = W_wait \<Longrightarrow> wait_step s (s\<lparr>lock_owner := None, wpc := W_parked\<rparr>)"
| deadline: "wpc s = W_parked \<Longrightarrow> wait_step s (s\<lparr>wpc := W_woken True\<rparr>)"
| spurious: "wpc s = W_parked \<Longrightarrow> wait_step s (s\<lparr>wpc := W_woken False\<rparr>)"
| relocks: "wpc s = W_woken late \<Longrightarrow> lock_owner s = None \<Longrightarrow>
    wait_step s (s\<lparr>lock_owner := Some Waiter, wpc := (if late then W_unlock else W_test)\<rparr>)"
| unlocks: "wpc s = W_unlock \<Longrightarrow> wait_step s (s\<lparr>lock_owner := None, wpc := W_return\<rparr>)"
| returns: "wpc s = W_return \<Longrightarrow> wait_step s (s\<lparr>wpc := W_done (\<not> flush_on s)\<rparr>)"

inductive unlock_step :: "wake \<Rightarrow> wake \<Rightarrow> bool" where
  sets: "upc s = U_set \<Longrightarrow> unlock_step s (s\<lparr>flush_on := True, upc := U_push\<rparr>)"
| pushes: "upc s = U_push \<Longrightarrow> unlock_step s (s\<lparr>sentinels := sentinels s + 1, upc := U_lock\<rparr>)"
| takes_lock: "upc s = U_lock \<Longrightarrow> lock_owner s = None \<Longrightarrow>
    unlock_step s (s\<lparr>lock_owner := Some Unlocker, upc := U_broadcast\<rparr>)"
| broadcasts: "upc s = U_broadcast \<Longrightarrow>
    unlock_step s (s\<lparr>wpc := (if wpc s = W_parked then W_woken False else wpc s), upc := U_unlock\<rparr>)"
| gives_lock: "upc s = U_unlock \<Longrightarrow> unlock_step s (s\<lparr>lock_owner := None, upc := U_done\<rparr>)"

inductive waking :: "wake \<Rightarrow> bool" where
  \<comment> \<open>the states of one flush against any number of waits in a row\<close>
  starts: "waking wake_start"
| waits: "waking s \<Longrightarrow> wait_step s t \<Longrightarrow> waking t"
| unlocks: "waking s \<Longrightarrow> unlock_step s t \<Longrightarrow> waking t"
| again: "waking s \<Longrightarrow> wpc s = W_done b \<Longrightarrow> waking (s\<lparr>wpc := W_lock\<rparr>)"

inductive_cases wait_stepE: "wait_step s t"
inductive_cases unlock_stepE: "unlock_step s t"

subsection \<open>The invariant\<close>

definition lock_ok :: "wake \<Rightarrow> bool" where
  "lock_ok s \<longleftrightarrow>
     (lock_owner s = Some Waiter \<longleftrightarrow> wpc s \<in> {W_test, W_wait, W_unlock}) \<and>
     (lock_owner s = Some Unlocker \<longleftrightarrow> upc s \<in> {U_broadcast, U_unlock})"

definition flush_ok :: "wake \<Rightarrow> bool" where
  "flush_ok s \<longleftrightarrow>
     (flush_on s \<longleftrightarrow> upc s \<noteq> U_set) \<and>
     (sentinels s = (if upc s \<in> {U_set, U_push} then 0 else 1)) \<and>
     (wpc s = W_wait \<longrightarrow> upc s \<in> {U_set, U_push, U_lock}) \<and>
     (wpc s = W_parked \<longrightarrow> upc s \<in> {U_set, U_push, U_lock, U_broadcast})"

lemma wait_keeps: "wait_step s t \<Longrightarrow> lock_ok s \<Longrightarrow> flush_ok s \<Longrightarrow> lock_ok t \<and> flush_ok t"
  by (cases "upc s"; erule wait_stepE) (auto simp: lock_ok_def flush_ok_def)

lemma unlock_keeps: "unlock_step s t \<Longrightarrow> lock_ok s \<Longrightarrow> flush_ok s \<Longrightarrow> lock_ok t \<and> flush_ok t"
  by (erule unlock_stepE) (auto simp: lock_ok_def flush_ok_def)

lemma waking_ok: "waking s \<Longrightarrow> lock_ok s \<and> flush_ok s"
proof (induction rule: waking.induct)
  case starts
  show ?case by (simp add: wake_start_def lock_ok_def flush_ok_def)
next
  case (waits s t)
  then show ?case using wait_keeps by blast
next
  case (unlocks s t)
  then show ?case using unlock_keeps by blast
next
  case (again s b)
  then show ?case by (auto simp: lock_ok_def flush_ok_def)
qed

subsection \<open>Property\<close>

fun steps_left :: "wait_pc \<Rightarrow> nat" where
  "steps_left W_lock = 4"
| "steps_left (W_woken late) = 4"
| "steps_left W_test = 3"
| "steps_left W_unlock = 2"
| "steps_left W_return = 1"
| "steps_left _ = 0"

text \<open>
  Claim C16. No flush is slept through: from the moment \<open>unlock\<close> has broadcast, however it was interleaved
  with waits before, no thread is parked and none parks again; once \<open>unlock\<close> has returned, its
  sentinel is queued, a wait that is under way can go on, every step brings it nearer to its end,
  and it ends within four of its own steps with the answer that a flush is on.
\<close>
theorem flush_wakes_waiter:
  assumes "waking s" "upc s \<in> {U_unlock, U_done}"
  shows "wpc s \<noteq> W_parked \<and> wpc s \<noteq> W_wait \<and> flush_on s \<and> sentinels s = 1 \<and>
    (\<forall>t. wait_step s t \<longrightarrow> upc t = upc s \<and> steps_left (wpc t) < steps_left (wpc s) \<and>
       (\<forall>b. wpc t = W_done b \<longrightarrow> \<not> b)) \<and>
    (upc s = U_done \<longrightarrow> (\<forall>b. wpc s \<noteq> W_done b) \<longrightarrow> (\<exists>t. wait_step s t))"
proof -
  have i: "lock_ok s" "flush_ok s" using waking_ok [OF assms(1)] by auto
  have p: "wpc s \<noteq> W_parked" "wpc s \<noteq> W_wait" "flush_on s" "sentinels s = 1"
    using i(2) assms(2) by (auto simp: flush_ok_def)
  moreover have "upc t = upc s \<and> steps_left (wpc t) < steps_left (wpc s) \<and> (\<forall>b. wpc t = W_done b \<longrightarrow> \<not> b)"
    if "wait_step s t" for t
    using that p by (cases rule: wait_step.cases) auto
  moreover have "\<exists>t. wait_step s t" if "upc s = U_done" "\<forall>b. wpc s \<noteq> W_done b"
  proof -
    have "lock_owner s = None" if "wpc s = W_lock \<or> (\<exists>late. wpc s = W_woken late)"
    proof (cases "lock_owner s")
      case (Some th)
      then show ?thesis using i(1) that \<open>upc s = U_done\<close> by (cases th) (auto simp: lock_ok_def)
    qed
    then show ?thesis
      using p that(2) by (cases "wpc s") (auto intro: wait_step.intros)
  qed
  ultimately show ?thesis by blast
qed

definition demo_flushed :: wake where
  \<comment> \<open>parked before the flush, woken by it\<close>
  "demo_flushed = \<lparr>flush_on = True, lock_owner = None, sentinels = 1, wpc = W_woken False, upc = U_done\<rparr>"

lemma demo_flushed_reached: "waking demo_flushed"
proof -
  note go = waking.waits [OF _ wait_step.locks] waking.waits [OF _ wait_step.sees_none]
    waking.waits [OF _ wait_step.parks] waking.unlocks [OF _ unlock_step.sets]
    waking.unlocks [OF _ unlock_step.pushes] waking.unlocks [OF _ unlock_step.takes_lock]
    waking.unlocks [OF _ unlock_step.broadcasts] waking.unlocks [OF _ unlock_step.gives_lock]
  note s1 = go(1) [OF waking.starts, simplified wake_start_def, simplified]
  note s4 = go(4) [OF go(3) [OF go(2) [OF s1]], simplified]
  note s8 = go(8) [OF go(7) [OF go(6) [OF go(5) [OF s4]]], simplified]
  show ?thesis using s8 by (simp add: demo_flushed_def)
qed

lemma flush_wakes_waiter_witness:
  "\<exists>t. wait_step demo_flushed t \<and> steps_left (wpc t) < 4"
proof -
  have "upc demo_flushed = U_done" "\<forall>b. wpc demo_flushed \<noteq> W_done b"
    "steps_left (wpc demo_flushed) = 4" by (simp_all add: demo_flushed_def)
  with flush_wakes_waiter [OF demo_flushed_reached] show ?thesis by auto
qed

end
