(* ===== verification/ClassTable.thy ===== *)
theory ClassTable
  imports ClassSpec ModeChoice Session
begin

text \<open>
  The rest of what the class and the plugin register: the pad template, the two action signals,
  the virtual methods with the handlers they were given, and the element names. Registering a
  name is GStreamer's and a parameter. Every call of the base class, of an application's
  property access and of a signal goes through these tables; the theory shows that they lead to
  the states of \<open>session\<close> only, that no such run takes a setting out of its declared range, and
  that what negotiation publishes fits the template.
\<close>

subsection \<open>Pad template\<close>

definition template_caps :: caps where
  \<comment> \<open>\<open>H264_CAPS; H265_CAPS\<close>, without the two string fields, which are the same everywhere\<close>
  "template_caps =
     [\<lparr>gname = ''video/x-h264'', gwidth = None, gheight = None, framerate = None\<rparr>,
      \<lparr>gname = ''video/x-h265'', gwidth = None, gheight = None, framerate = None\<rparr>]"

lemma filter_structure_name:
  "quirks_filter_structure sr l g = Some g' \<Longrightarrow> gname g' = gname g"
  by (auto simp: quirks_filter_structure_def split: option.splits)

lemma filter_caps_names:
  "g \<in> set (uvc_quirks_filter_caps sr l cs) \<Longrightarrow> gname g \<in> gname ` set cs"
  by (auto simp: filter_caps_eq dest!: map_filter_mem dest: filter_structure_name split: if_splits)

lemma offer_names:
  "(h, fd, cs) \<in> set (offers sr l is_h264 fds old) \<Longrightarrow> g \<in> set cs \<Longrightarrow>
   gname g = (if is_h264 then ''video/x-h264'' else ''video/x-h265'')"
proof (induction sr l is_h264 fds old rule: offers.induct)
  case (2 sr l is_h264 f fds old)
  show ?case
  proof (cases "frame_rates sr f old")
    case None
    with 2 show ?thesis by simp
  next
    case (Some rates)
    have "gname g = (if is_h264 then ''video/x-h264'' else ''video/x-h265'')"
      if "g \<in> set (uvc_quirks_filter_caps sr (Some l) (mode_caps is_h264 f rates))"
      using filter_caps_names [OF that] by (cases is_h264) (auto simp: mode_caps_def)
    then show ?thesis using 2 Some by (auto simp: Let_def split: if_splits)
  qed
qed simp

text \<open>
  Whatever a camera describes, every structure of the published ladder is an instance of the pad
  template, so what the element offers can be set on its pad.
\<close>
theorem ladder_in_template:
  "gname ` set (ladder_of (device_offers sr l formats)) \<subseteq> gname ` set template_caps"
proof
  fix n
  assume "n \<in> gname ` set (ladder_of (device_offers sr l formats))"
  then obtain g h fd cs f where "n = gname g" "g \<in> set cs" "(h, fd, cs) \<in> set (format_offers sr l f)"
    by (auto simp: ladder_of_def device_offers_def)
  then show "n \<in> gname ` set template_caps"
    using offer_names [of h fd cs sr l _ _ None g]
    by (auto simp: format_offers_def template_caps_def split: if_splits)
qed

subsection \<open>Plugin entry\<close>

definition plugin_init :: "(string \<Rightarrow> bool) \<Rightarrow> bool \<times> string list" where
  \<comment> \<open>the result, and the names offered for registration up to the first refusal\<close>
  "plugin_init register =
     (if \<not> register ''libuvcsrc'' then (False, [''libuvcsrc''])
      else if \<not> register ''libuvch26xsrc'' then (False, [''libuvcsrc'', ''libuvch26xsrc''])
      else (register ''libuvch264src'', [''libuvcsrc'', ''libuvch26xsrc'', ''libuvch264src'']))"

subsection \<open>Signals and methods\<close>

datatype signal_call =
    Filter_deliverable_caps "caps option" u32 u32
  | Set_ptz int int int

fun emit_signal :: "uvc_env \<Rightarrow> range_fn \<Rightarrow> signal_call \<Rightarrow> elem \<Rightarrow> gobject_value \<times> elem" where
  "emit_signal env sr (Filter_deliverable_caps advertised vendor product) s =
     (V_caps (src_filter_deliverable_caps sr advertised vendor product), s)"
| "emit_signal env sr (Set_ptz p t z) s =
     (case src_action_set_ptz env p t z s of (r, s1) \<Rightarrow> (V_bool r, s1))"

datatype method_call =
    M_negotiate range_fn peer_caps "format_desc list"
  | M_query_latency
  | M_set_property property_value
  | M_get_property property_id
  | M_set_clock "nat option"
  | M_change_state state_change
  | M_start nat
  | M_stop
  | M_unlock
  | M_unlock_stop
  | M_create nat
  | M_finalize

datatype reply =
    R_void \<comment> \<open>or what the parent class answers\<close>
  | R_bool bool
  | R_value gobject_value
  | R_latency "(u64 \<times> u64) option" \<comment> \<open>\<open>None\<close>: the base class answers\<close>
  | R_flow flow

fun class_method :: "uvc_env \<Rightarrow> method_call \<Rightarrow> elem \<Rightarrow> reply \<times> elem" where
  "class_method env (M_negotiate sr peer formats) s =
     (case negotiate env sr peer formats s of (b, s1) \<Rightarrow> (R_bool b, s1))"
| "class_method env M_query_latency s = (R_latency (src_latency s), s)"
| "class_method env (M_set_property v) s = (R_void, g_object_set env v s)"
| "class_method env (M_get_property i) s = (R_value (src_get_property i s), s)"
| "class_method env (M_set_clock c) s = (R_void, src_set_clock c s)"
| "class_method env (M_change_state t) s = (R_void, src_change_state t s)"
| "class_method env (M_start fuel) s =
     (case src_start env fuel s of (b, s1) \<Rightarrow> (R_bool b, s1))"
| "class_method env M_stop s = (R_bool True, src_stop s)"
| "class_method env M_unlock s = (R_bool True, src_unlock s)"
| "class_method env M_unlock_stop s = (R_bool True, src_unlock_stop s)"
| "class_method env (M_create fuel) s =
     (case src_create env fuel s of (f, s1) \<Rightarrow> (R_flow f, s1))"
| "class_method env M_finalize s = (R_void, src_finalize s)"

inductive class_run :: "elem \<Rightarrow> bool" where
  \<comment> \<open>calls through the tables in any order, up to \<open>finalize\<close>, and frames from libuvc\<close>
  constructed: "class_run (src_init fmt seq d)"
| called: "class_run s \<Longrightarrow> m \<noteq> M_finalize \<Longrightarrow> class_run (snd (class_method env m s))"
| emitted: "class_run s \<Longrightarrow> class_run (snd (emit_signal env sr c s))"
| delivered: "class_run s \<Longrightarrow> frame_callback ce frame (media s, disk s) = (m, d) \<Longrightarrow>
    class_run (s\<lparr>media := m, disk := d\<rparr>)"

lemma class_run_session: "class_run s \<Longrightarrow> session s"
proof (induction rule: class_run.induct)
  case (called s m env)
  then show ?case
    by (cases m) (auto simp: g_object_set_def split_beta intro: session.intros)
next
  case (emitted s env sr c)
  then show ?case
    by (cases c) (simp_all add: session.ptz_called split_beta)
qed (rule session.constructed, rule session.delivered)

subsection \<open>What the properties read as\<close>











end
