(* ===== verification/FormatInventory.thy ===== *)
theory FormatInventory
  imports ModeChoice
begin

text \<open>
  The inventory \<open>negotiate\<close> logs when a camera has no format the element streams. The log is the
  only trace of what such a camera offers, so the theory shows that it is complete: the
  descriptors are read back from it, and a camera gets it exactly when no line names H.264 or
  H.265. A line is kept as the values its format string prints.
\<close>

type_synonym guid = "byte list"

record inventory_desc = format_desc +
  guidFormat :: guid

datatype inventory_line =
    Format_line string guid
  | Frame_line u16 u16 u32 u32

definition printed_fourcc :: "string \<Rightarrow> string" where
  \<comment> \<open>\<open>%.4s\<close>\<close>
  "printed_fourcc cc = takeWhile (\<lambda>c. c \<noteq> CHR 0x00) (take 4 cc)"

definition frame_line :: "frame_desc \<Rightarrow> inventory_line" where
  "frame_line fd = Frame_line (wWidth fd) (wHeight fd) (dwMinFrameInterval fd) (dwMaxFrameInterval fd)"

fun log_format_inventory :: "inventory_desc list \<Rightarrow> inventory_line list" where
  "log_format_inventory [] = []"
| "log_format_inventory (f # fs) =
     Format_line (printed_fourcc (fourcc f)) (guidFormat f) # map frame_line (frame_descs f) @
     log_format_inventory fs"

subsection \<open>Reading it back\<close>

type_synonym entry = "string \<times> guid \<times> inventory_line list"

fun entries_from :: "entry list \<Rightarrow> inventory_line list \<Rightarrow> entry list" where
  "entries_from es [] = rev es"
| "entries_from es (Format_line cc g # ls) = entries_from ((cc, g, []) # es) ls"
| "entries_from [] (Frame_line w h lo hi # ls) = entries_from [] ls"
| "entries_from ((cc, g, fs) # es) (Frame_line w h lo hi # ls) =
     entries_from ((cc, g, fs @ [Frame_line w h lo hi]) # es) ls"

definition entry_of :: "inventory_desc \<Rightarrow> entry" where
  "entry_of f = (printed_fourcc (fourcc f), guidFormat f, map frame_line (frame_descs f))"

lemma entries_frames:
  "entries_from ((cc, g, fs) # es) (map frame_line fds @ ls) =
   entries_from ((cc, g, fs @ map frame_line fds) # es) ls"
  by (induction fds arbitrary: fs) (simp_all add: frame_line_def)

lemma entries_log: "entries_from es (log_format_inventory fs) = rev es @ map entry_of fs"
  by (induction fs arbitrary: es) (simp_all add: entries_frames entry_of_def)

definition entries :: "inventory_line list \<Rightarrow> entry list" where
  "entries = entries_from []"

definition names_codec :: "inventory_line \<Rightarrow> bool" where
  "names_codec l \<longleftrightarrow> (case l of Format_line cc g \<Rightarrow> cc = ''H264'' \<or> cc = ''H265'' | _ \<Rightarrow> False)"

lemma names_codec_log:
  "(\<exists>l \<in> set (log_format_inventory fs). names_codec l) \<longleftrightarrow>
   (\<exists>f \<in> set fs. printed_fourcc (fourcc f) \<in> {''H264'', ''H265''})"
  by (induction fs) (auto simp: names_codec_def frame_line_def)

lemma printed_full: "length cc = 4 \<Longrightarrow> CHR 0x00 \<notin> set x \<Longrightarrow> length x = 4 \<Longrightarrow> printed_fourcc cc = x \<longleftrightarrow> cc = x"
  by (auto simp: printed_fourcc_def takeWhile_eq_all_conv)
    (metis takeWhile_eq_all_conv takeWhile_eq_take take_all_iff length_take min.absorb2 le_refl)

text \<open>
  The inventory is complete and says why the camera was refused: every descriptor is read back
  from it, with its frames, in their order; and for descriptors with the four characters UVC
  gives them, it names a codec of the element exactly when the camera has a format the element
  takes, so a camera refused for want of one leaves a log without them.
\<close>
theorem inventory_complete:
  assumes "\<forall>f \<in> set fs. length (fourcc f) = 4"
  shows "entries (log_format_inventory fs) = map entry_of fs \<and>
    ((\<exists>l \<in> set (log_format_inventory fs). names_codec l) \<longleftrightarrow>
     (\<exists>f \<in> set fs. is_codec (format_desc.truncate f)))"
proof -
  have "printed_fourcc (fourcc f) \<in> {''H264'', ''H265''} \<longleftrightarrow> is_codec (format_desc.truncate f)"
    if "f \<in> set fs" for f
    using that assms by (simp add: is_codec_def printed_full format_desc.defs)
  then show ?thesis
    unfolding names_codec_log by (auto simp: entries_def entries_log)
qed

definition demo_mjpeg :: inventory_desc where
  "demo_mjpeg = \<lparr>fourcc = ''MJPG'',
     frame_descs = [\<lparr>wWidth = 1280, wHeight = 720, intervals = Some [333333],
       dwMinFrameInterval = 333333, dwMaxFrameInterval = 333333\<rparr>],
     guidFormat = [0x4d, 0x4a, 0x50, 0x47, 0, 0, 0x10, 0, 0x80, 0, 0, 0xaa, 0, 0x38, 0x9b, 0x71]\<rparr>"

lemma inventory_complete_witness:
  "entries (log_format_inventory [demo_mjpeg]) = [entry_of demo_mjpeg] \<and>
   \<not> (\<exists>l \<in> set (log_format_inventory [demo_mjpeg]). names_codec l)"
proof -
  have "\<forall>f \<in> set [demo_mjpeg]. length (fourcc f) = 4"
    "\<not> (\<exists>f \<in> set [demo_mjpeg]. is_codec (format_desc.truncate f))"
    by (simp_all add: demo_mjpeg_def is_codec_def format_desc.defs)
  with inventory_complete [of "[demo_mjpeg]"] show ?thesis by simp
qed

end
