(* ===== verification/Spec2Isabelle.thy ===== *)
theory Spec2Isabelle
  imports Base Nal AccessUnit CachePath PipelineState SpsPpsCache FramePipeline Delivery Quirks
    UsbRecovery UvcError Selector Ptz ControlSocket ControlThread V4l2Probe Element Negotiate
    ModeChoice StreamOverrides ClassSpec Recovery Lifecycle HandleProtocol RecoverySteps
    Session SessionInvariants RecoveryBudget RecoveryLadder RecoveryTermination EndToEnd FrameOrder
    WakeUp ClassTable FormatInventory
begin

text \<open>
  A verification library for the GStreamer element \<open>libuvch264src\<close>, which takes H.264 and H.265
  video from a USB camera through libuvc. The code is C, under
  \<open>src/libuvch264src/src/\<close>; file names below are relative to that directory.

  The program. libuvc's thread calls \<open>frame_callback\<close> (\<open>frame_pipeline.c\<close>) with every frame the
  camera delivers; the callback parses it, splits it into access units, latches the parameter
  sets, stamps buffers and pushes them on the queue. The streaming thread runs \<open>create\<close>
  (\<open>gstlibuvch264src.c\<close>), which pops the queue, watches for silence and drives the reconnect
  ladder or the recovery of a wedged camera. \<open>start\<close>, \<open>stop\<close> and caps negotiation open, choose
  and close; application threads flush with \<open>unlock\<close> and \<open>unlock_stop\<close>, set properties and move
  the camera, and a third thread serves PTZ commands on a Unix socket (\<open>ptz_control.c\<close>).

  Theories and the code they model, in the order the code builds on itself.
   \<^item> Base: words, lists, the stepwise reading of C loops, the fact collections. PipelineState: the
     media fields of \<open>struct _GstLibuvcH264Src\<close>.
   \<^item> Nal, AccessUnit, FramePipeline, Delivery: \<open>frame_pipeline.c\<close>. The start-code scanner with its
     two passes, the access-unit splitter, the parameter-set latch, the two passes that measure
     and fill a buffer, the time stamps, and the callback as one step.
   \<^item> CachePath, SpsPpsCache: \<open>spspps_path.h\<close> and \<open>spspps_cache.c\<close> over a map of files.
   \<^item> Quirks: \<open>quirks.c\<close>. UsbRecovery: \<open>usb_port_recovery.c\<close> over sysfs answers that depend on the
     writes made so far. UvcError: \<open>gstlibuvch264src_error.c\<close>.
   \<^item> Selector: the device selector of \<open>gstlibuvch264src.c\<close> and the enumeration that resolves it.
   \<^item> Ptz, ControlSocket, ControlThread: \<open>ptz_control.c\<close>: the setters, the command interpreter,
     binding, and the accept loop as a function of what every turn is answered.
   \<^item> V4l2Probe: \<open>uvc_device.c\<close>.
   \<^item> Element, Negotiate, Recovery, Lifecycle: the rest of \<open>gstlibuvch264src.c\<close>. The record \<open>elem\<close>
     has the fields of the C structure; \<open>uvc_env\<close> holds what libuvc, libusb, the clock and the
     other threads do, each answer a function of all calls made so far, and every call is logged
     in \<open>calls\<close> with the handle it was given. ClassSpec, ClassTable: what \<open>class_init\<close> and
     \<open>plugin_init\<close> register. FormatInventory: \<open>log_format_inventory\<close>.
   \<^item> EndToEnd, FrameOrder: the callback, the queue and \<open>create\<close> run together. WakeUp:
     \<open>interruptible_wait\<close> and \<open>unlock\<close> interleaved at every access to what they share.

  What the lemmas show.
   \<^item> Delivery: the callback refines a plain recursion over the parsed units; Nal: parsing tiles the
     buffer, finds exactly the start codes and inverts concatenation; AccessUnit: units are
     grouped at picture boundaries and none is lost. Key frames carry their parameter sets, time
     stamps increase, nothing is delivered before the first key frame.
   \<^item> The cache path is injective and stays in its directory; what is stored is loaded again.
   \<^item> The quirk filter keeps exactly the modes under the limit; ModeChoice: negotiation takes a
     mode of largest area among those offered and accepted, never one above the limit, and a
     refusal changes the published ladder, the codec, the log, the control block and the bus, and
     nothing else; StreamOverrides: the USB overrides are hints.
   \<^item> HandleProtocol: a monitor over the call log (\<open>observe\<close>) holds the protocol of libuvc, and every
     operation keeps it from a state that holds a handle. Session: \<open>session\<close> has the states the
     element's entry points reach when they are called in any order, with or without a handle.
     \<open>create\<close> and \<open>negotiate\<close> do not check the handle, so a session can call libuvc on \<open>NULL\<close>; the
     protocol is kept as long as it has not (\<open>never_null\<close>), the first such call can only be the one
     with which these two begin, and a flush during a reconnect is a way to reach it.
     SessionInvariants: what holds in every session, calls on \<open>NULL\<close> or not. All this, and the
     accounts below, go through the locales of RecoverySteps and RecoveryBudget: \<open>reopening\<close>,
     \<open>reopening_any\<close>, \<open>blocking\<close>, \<open>waiting\<close>, \<open>recovering\<close>, \<open>silent_handling\<close>, \<open>creating\<close> and
     \<open>paid_operation\<close> fix a relation between states, assume that the few primitive steps obey it, and
     give it for every loop up to \<open>create\<close>; each is interpreted on the element for the relations
     wanted (\<open>quiet_steps\<close>, \<open>no_wait\<close>, \<open>fresh_steps\<close>, \<open>fresh_creating\<close>, \<open>extending\<close>,
     \<open>extending_create\<close>, \<open>settled\<close>, \<open>settled_create\<close>, \<open>fuelled\<close>, \<open>resets_paid\<close>, \<open>ordered\<close>,
     \<open>ordered_wait\<close>).
   \<^item> EndToEnd: while the camera delivers, what \<open>create\<close> hands on is what the callback made of the
     frames, each access unit once. FrameOrder: over any run, recoveries and flushes included,
     buffers may be lost but are never invented, repeated or overtaken. WakeUp: no flush is slept
     through. ClassSpec: a property that is written is read back and moves no other. ClassTable: the
     tables lead to the states of \<open>session\<close> only, and settings stay in their declared range.
     FormatInventory: the log of a refused camera is complete.
   \<^item> RecoveryBudget bounds port resets by delivered frames, and shows where the deep rung departs
     from its documentation: the code gives its one shot back only in \<open>start\<close>. RecoveryLadder fixes
     the back-off and what each answer of \<open>create\<close> means, RecoveryTermination shows that \<open>create\<close>
     returns with \<open>reconnect\<close> off, and that with \<open>reconnect\<close> on it need not.
   \<^item> UsbRecovery: every sysfs write is guarded by the captured identity. Ptz, ControlSocket and
     ControlThread: transfers stay in the probed range when the positions known at first lie in it
     (the probe does not make sure of that), a socket is listened on only after its path was
     restricted to its owner, descriptors are closed, clients are answered once.

  Fuel. Only the loops that wait for the outside world take fuel: the enumeration poll, the
  reconnect ladder, the settle loop, the wait for a first frame and the loop of \<open>create\<close>; \<open>stuck\<close>
  records that it ran out. \<open>create_terminates\<close> gives, for each session with \<open>reconnect\<close> off and a
  clock that advances, a fuel from which on the answer no longer changes and no loop ran out;
  the ladder has five rungs, each of which polls at most one enumeration. With \<open>reconnect\<close> on no
  such fuel need exist: \<open>reconnect_never_gives_up\<close>. All other recursion terminates outright; bytes,
  lengths, counters and rates are words of the width the code uses, or integers with the
  conversion written out.

  Hypotheses on code that is not in the repository: \<open>range_setter\<close> (\<open>gst_structure_set\<close> on a
  range), \<open>fixates_within\<close> (fixation picks a listed rate), \<open>advancing\<close> (the clock moves on), and,
  for the camera that \<open>reconnect\<close> never gives up, \<open>mute\<close> and \<open>reopenable\<close>. Each witness instantiates
  them. \<open>areas_fit\<close> says that no area the camera describes overflows the \<open>gint\<close> product of the code.

  Not modelled. GObject reference counts and locks: a callback, a property access and a turn of a
  loop are one step, and other threads act at the blocking points only. The one handshake whose
  interleaving decides whether a thread wakes up is in WakeUp; other data races are out of scope.
  The formatted text of log messages and errors; the V4L2 probe inside \<open>start\<close>, which only logs
  and is modelled apart; registering properties, signals and elements, which is GObject's; the
  hooks and overrides compiled for the tests, which are null in production. \<open>read\<close> on a control
  client has no timeout in the code; a turn of the control thread exists once it has returned, so
  the wait of \<open>stop\<close> for that thread is not bounded here.
\<close>

end
